(* ===== verification/Prelude.thy ===== *)
theory Prelude
  imports Main "HOL-Library.Word" "HOL-Library.Monad_Syntax" "HOL-Library.AList"
begin

text \<open>
  Shared ground of the development: the machine types, the partial operations of Go on
  byte slices, the fixed-width integer readers of \<^verbatim>\<open>encoding/binary\<close>, Go's maps as
  association lists, and the generic lemmas the components use.

  A run-time panic of Go is the value \<^const>\<open>None\<close>: \<open>idx\<close>, \<open>slice_of\<close> and the integer
  readers return \<^const>\<open>None\<close> exactly where Go's bounds checks fail, so that \<open>f x = Some y\<close>
  says that the code returns \<open>y\<close> and does not panic.
\<close>

unbundle bit_operations_syntax

type_synonym byte = "8 word"
type_synonym u16 = "16 word"
type_synonym u32 = "32 word"
type_synonym u64 = "64 word"
type_synonym bytes = "byte list"

named_theorems go_simps \<open>evaluation rules of the partial Go operations, guarded by their bounds\<close>


section \<open>Slices\<close>

text \<open>The index expression \<^verbatim>\<open>p[i]\<close>, and the slice expression \<^verbatim>\<open>p[i:j]\<close> of a slice whose capacity
  is its length.\<close>

definition idx :: "'a list \<Rightarrow> nat \<Rightarrow> 'a option" where
  "idx p i = (if i < length p then Some (p ! i) else None)"

definition slice_of :: "'a list \<Rightarrow> nat \<Rightarrow> nat \<Rightarrow> 'a list option" where
  "slice_of p i j = (if i \<le> j \<and> j \<le> length p then Some (take (j - i) (drop i p)) else None)"

definition slice_from :: "'a list \<Rightarrow> nat \<Rightarrow> 'a list option" where
  "slice_from p i = (if i \<le> length p then Some (drop i p) else None)"

lemma idx_Some [go_simps]: "i < length p \<Longrightarrow> idx p i = Some (p ! i)"
  by (simp add: idx_def)

lemma idx_0 [go_simps]: "k \<le> length p \<Longrightarrow> 0 < k \<Longrightarrow> idx p 0 = Some (p ! 0)"
  by (auto simp: idx_def)

lemma slice_of_Some [go_simps]:
  "i \<le> j \<Longrightarrow> j \<le> length p \<Longrightarrow> slice_of p i j = Some (take (j - i) (drop i p))"
  by (simp add: slice_of_def)

lemma slice_from_Some [go_simps]: "i \<le> length p \<Longrightarrow> slice_from p i = Some (drop i p)"
  by (simp add: slice_from_def)

lemma slice_from_None_iff: "slice_from p i = None \<longleftrightarrow> length p < i"
  by (simp add: slice_from_def)


section \<open>Fixed-width integers in byte slices\<close>

text \<open>\<^verbatim>\<open>binary.BigEndian\<close> and \<^verbatim>\<open>binary.LittleEndian\<close>: the readers panic on a slice that is too short
  and ignore what follows.\<close>

fun be_val :: "bytes \<Rightarrow> nat" where
  "be_val [] = 0"
| "be_val (b # bs) = unat b * 256 ^ length bs + be_val bs"

fun le_val :: "bytes \<Rightarrow> nat" where
  "le_val [] = 0"
| "le_val (b # bs) = unat b + 256 * le_val bs"

definition be16 :: "bytes \<Rightarrow> u16 option" where
  "be16 p = (if length p < 2 then None else Some (of_nat (be_val (take 2 p))))"

definition be32 :: "bytes \<Rightarrow> u32 option" where
  "be32 p = (if length p < 4 then None else Some (of_nat (be_val (take 4 p))))"

definition le16 :: "bytes \<Rightarrow> u16 option" where
  "le16 p = (if length p < 2 then None else Some (of_nat (le_val (take 2 p))))"

definition le32 :: "bytes \<Rightarrow> u32 option" where
  "le32 p = (if length p < 4 then None else Some (of_nat (le_val (take 4 p))))"

text \<open>The encoders the round-trip properties use: \<open>n\<close> as \<open>k\<close> bytes.\<close>

fun be_enc :: "nat \<Rightarrow> nat \<Rightarrow> bytes" where
  "be_enc 0 n = []"
| "be_enc (Suc k) n = of_nat (n div 256 ^ k) # be_enc k (n mod 256 ^ k)"

fun le_enc :: "nat \<Rightarrow> nat \<Rightarrow> bytes" where
  "le_enc 0 n = []"
| "le_enc (Suc k) n = of_nat (n mod 256) # le_enc k (n div 256)"

lemma length_be_enc [simp]: "length (be_enc k n) = k"
  by (induction k arbitrary: n) auto

lemma length_le_enc [simp]: "length (le_enc k n) = k"
  by (induction k arbitrary: n) auto

lemma byte_lt [simp]: "unat (b :: byte) < 256"
  using unsigned_less [of b, where ?'a = nat] by simp

lemma byte_le [simp]: "unat (b :: byte) \<le> 255"
  using byte_lt [of b] by linarith

lemma unat_of_nat_byte [simp]: "n < 256 \<Longrightarrow> unat (of_nat n :: byte) = n"
  by (simp add: unat_of_nat)

lemma unat_of_nat_u16 [simp]: "n < 65536 \<Longrightarrow> unat (of_nat n :: u16) = n"
  by (simp add: unat_of_nat)

lemma unat_of_nat_u32 [simp]: "n < 4294967296 \<Longrightarrow> unat (of_nat n :: u32) = n"
  by (simp add: unat_of_nat)

lemma be_val_bound: "be_val bs < 256 ^ length bs"
proof (induction bs)
  case Nil
  then show ?case by simp
next
  case (Cons b bs)
  have "unat b * 256 ^ length bs + be_val bs < (unat b + 1) * 256 ^ length bs"
    using Cons.IH by simp
  also have "\<dots> \<le> 256 * 256 ^ length bs"
    using byte_lt [of b] by (intro mult_le_mono1) linarith
  finally show ?case by simp
qed

lemma le_val_bound: "le_val bs < 256 ^ length bs"
proof (induction bs)
  case (Cons b bs)
  have "unat b + 256 * le_val bs < 256 * (le_val bs + 1)"
    by (simp add: distrib_left)
  also have "\<dots> \<le> 256 * 256 ^ length bs"
    using Cons.IH by (intro mult_le_mono2) linarith
  finally show ?case by simp
qed simp

lemma be_val_enc: "n < 256 ^ k \<Longrightarrow> be_val (be_enc k n) = n"
proof (induction k arbitrary: n)
  case (Suc k)
  then have "n div 256 ^ k < 256"
    by (simp add: less_mult_imp_div_less)
  moreover have "be_val (be_enc k (n mod 256 ^ k)) = n mod 256 ^ k"
    by (rule Suc.IH) simp
  ultimately show ?case by (simp add: div_mult_mod_eq)
qed simp

lemma le_val_enc: "n < 256 ^ k \<Longrightarrow> le_val (le_enc k n) = n"
proof (induction k arbitrary: n)
  case (Suc k)
  then have "n div 256 < 256 ^ k"
    by (simp add: less_mult_imp_div_less mult.commute)
  then have "le_val (le_enc k (n div 256)) = n div 256" by (rule Suc.IH)
  then show ?case by simp
qed simp

lemma take_enc [simp]:
  "take k (be_enc k n @ r) = be_enc k n" "take k (le_enc k n @ r) = le_enc k n"
  by simp_all

lemma be16_enc [simp]: "n < 65536 \<Longrightarrow> be16 (be_enc 2 n @ r) = Some (of_nat n)"
  using be_val_enc [of n 2] by (simp add: be16_def del: be_enc.simps)

lemma be32_enc [simp]: "n < 4294967296 \<Longrightarrow> be32 (be_enc 4 n @ r) = Some (of_nat n)"
  using be_val_enc [of n 4] by (simp add: be32_def del: be_enc.simps)

lemma le16_enc [simp]: "n < 65536 \<Longrightarrow> le16 (le_enc 2 n @ r) = Some (of_nat n)"
  using le_val_enc [of n 2] by (simp add: le16_def del: le_enc.simps)

lemma le32_enc [simp]: "n < 4294967296 \<Longrightarrow> le32 (le_enc 4 n @ r) = Some (of_nat n)"
  using le_val_enc [of n 4] by (simp add: le32_def del: le_enc.simps)

lemmas enc_alone [simp] = be16_enc [where r = "[]", simplified] be32_enc [where r = "[]", simplified]
  le16_enc [where r = "[]", simplified] le32_enc [where r = "[]", simplified]

lemma be16_Some [go_simps]: "2 \<le> length p \<Longrightarrow> be16 p = Some (of_nat (be_val (take 2 p)))"
  by (simp add: be16_def)

lemma be32_Some [go_simps]: "4 \<le> length p \<Longrightarrow> be32 p = Some (of_nat (be_val (take 4 p)))"
  by (simp add: be32_def)

lemma le16_Some [go_simps]: "2 \<le> length p \<Longrightarrow> le16 p = Some (of_nat (le_val (take 2 p)))"
  by (simp add: le16_def)

lemma le32_Some [go_simps]: "4 \<le> length p \<Longrightarrow> le32 p = Some (of_nat (le_val (take 4 p)))"
  by (simp add: le32_def)

lemma be_val_append: "be_val (xs @ ys) = be_val xs * 256 ^ length ys + be_val ys"
  by (induction xs) (auto simp: algebra_simps power_add)

lemma be_enc_val: "be_enc (length bs) (be_val bs) = bs"
proof (induction bs)
  case (Cons b bs)
  then show ?case using be_val_bound [of bs] by (simp add: div_add1_eq)
qed simp

lemma unat_be32: "unat (of_nat (be_val (take 4 p)) :: u32) = be_val (take 4 p)"
proof -
  have "be_val (take 4 p) < 256 ^ length (take 4 p)" by (rule be_val_bound)
  also have "\<dots> \<le> 256 ^ 4" by (rule power_increasing) simp_all
  finally show ?thesis by simp
qed

lemma unat_be16: "unat (of_nat (be_val (take 2 p)) :: u16) = be_val (take 2 p)"
proof -
  have "be_val (take 2 p) < 256 ^ length (take 2 p)" by (rule be_val_bound)
  also have "\<dots> \<le> 256 ^ 2" by (rule power_increasing) simp_all
  finally show ?thesis by simp
qed

text \<open>Any two bytes at the front are the encoding of their value.\<close>

lemma front2E:
  assumes "2 \<le> length p"
  obtains n q where "p = be_enc 2 n @ q" "n < 65536"
proof
  show "p = be_enc 2 (be_val (take 2 p)) @ drop 2 p"
    using be_enc_val [of "take 2 p"] assms by (simp add: min_absorb2)
  show "be_val (take 2 p) < 65536"
    using be_val_bound [of "take 2 p"] assms by (simp add: min_absorb2)
qed

lemma splitE:
  assumes "n \<le> length p"
  obtains a b where "p = a @ b" "length a = n"
  using assms append_take_drop_id [of n p] by (metis length_take min_absorb2)

lemma be_val_take_enc [simp]:
  "n < 256 ^ k \<Longrightarrow> be_val (take k (be_enc k n @ r)) = n"
  by (simp add: be_val_enc)

text \<open>Three bytes joined by shifts and ORs, and the test of the lowest bit.\<close>

lemma or3_bytes:
  "push_bit 16 (ucast a) OR push_bit 8 (ucast b) OR ucast c =
    (of_nat (65536 * unat a + 256 * unat b + unat c) :: u32)" for a b c :: byte
proof -
  have 1: "push_bit 8 (ucast b) OR ucast c = push_bit 8 (ucast b) + (ucast c :: u32)"
    by (rule disjunctive_add [symmetric]) (auto simp: bit_simps dest: bit_imp_le_length)
  have 2: "push_bit 16 (ucast a) OR (push_bit 8 (ucast b) OR (ucast c :: u32)) =
      push_bit 16 (ucast a) + (push_bit 8 (ucast b) OR ucast c)"
    by (rule disjunctive_add [symmetric]) (auto simp: bit_simps dest: bit_imp_le_length)
  have "push_bit 16 (ucast a) OR push_bit 8 (ucast b) OR ucast c =
      push_bit 16 (ucast a) + (push_bit 8 (ucast b) + (ucast c :: u32))"
    unfolding or.assoc 2 by (simp only: 1)
  then show ?thesis by (simp add: push_bit_eq_mult)
qed

lemma low_bit_iff: "(b :: byte) AND 1 = 1 \<longleftrightarrow> odd (unat b)"
proof -
  have "b AND 1 = 1 \<longleftrightarrow> unat (b AND 1) = 1" by (simp add: word_unat_eq_iff)
  also have "unat (b AND 1) = unat b AND 1" by (simp only: unsigned_and_eq unsigned_1)
  finally show ?thesis by (simp add: and_one_eq mod_2_eq_odd)
qed

lemma drop4_of_nat_u32:
  "n < 2 ^ 32 \<Longrightarrow> drop_bit 4 (of_nat n :: u32) = of_nat (n div 16)"
  by (simp add: word_unat_eq_iff unat_drop_bit_eq unat_of_nat drop_bit_eq_div unat_div_distrib)


section \<open>Maps\<close>

text \<open>
  A Go map that the code iterates over is an association list with distinct keys; its order is
  the iteration order of that run, which Go leaves unspecified. \<open>map_put\<close> is the assignment
  \<^verbatim>\<open>m[k] = v\<close>, \<open>map_del\<close> the built-in \<^verbatim>\<open>delete\<close>.
\<close>

type_synonym ('k, 'v) gomap = "('k \<times> 'v) list"

abbreviation map_put :: "'k \<Rightarrow> 'v \<Rightarrow> ('k, 'v) gomap \<Rightarrow> ('k, 'v) gomap" where
  "map_put \<equiv> AList.update"

abbreviation map_del :: "'k \<Rightarrow> ('k, 'v) gomap \<Rightarrow> ('k, 'v) gomap" where
  "map_del \<equiv> AList.delete"

abbreviation gomap_ok :: "('k, 'v) gomap \<Rightarrow> bool" where
  "gomap_ok m \<equiv> distinct (map fst m)"

text \<open>Indexing a map of strings with a key that is absent gives the empty string.\<close>

definition get_or :: "'v \<Rightarrow> ('k, 'v) gomap \<Rightarrow> 'k \<Rightarrow> 'v" where
  "get_or d m k = (case map_of m k of None \<Rightarrow> d | Some v \<Rightarrow> v)"

lemma map_of_put [simp]: "map_of (map_put k v m) = (map_of m)(k \<mapsto> v)"
  by (rule update_conv')

lemma map_of_del [simp]: "map_of (map_del k m) = (map_of m)(k := None)"
  by (rule delete_conv')

lemma gomap_ok_put: "gomap_ok m \<Longrightarrow> gomap_ok (map_put k v m)"
  by (rule distinct_update)

lemma gomap_ok_del: "gomap_ok m \<Longrightarrow> gomap_ok (map_del k m)"
  by (rule distinct_delete)

lemma gomap_ok_foldl_put: "gomap_ok m \<Longrightarrow> gomap_ok (foldl (\<lambda>m (k, v). map_put k v m) m kvs)"
  by (induction kvs arbitrary: m) (auto simp: gomap_ok_put)

lemma map_of_foldl_put:
  "map_of (foldl (\<lambda>m (k, v). map_put k v m) m kvs) = map_of m ++ map_of (rev kvs)"
  by (induction kvs arbitrary: m) (auto simp: map_add_def fun_eq_iff split: option.splits)


section \<open>Generic lemmas\<close>

text \<open>A partial function that never panics, as a total one.\<close>

definition ret :: "('a \<Rightarrow> 'b option) \<Rightarrow> 'a \<Rightarrow> 'b" where
  "ret f x = the (f x)"

lemma ret_Some: "\<exists>y. f x = Some y \<Longrightarrow> f x = Some (ret f x)"
  by (auto simp: ret_def)

lemma ret_eq: "f x = Some y \<Longrightarrow> ret f x = y"
  by (simp add: ret_def)

text \<open>Truncated division of \<^verbatim>\<open>int64\<close> values (Go's \<^verbatim>\<open>/\<close>).\<close>

definition tdiv :: "int \<Rightarrow> int \<Rightarrow> int" where
  "tdiv a b = sgn a * sgn b * (\<bar>a\<bar> div \<bar>b\<bar>)"

lemma tdiv_nonneg: "0 \<le> a \<Longrightarrow> 0 < b \<Longrightarrow> tdiv a b = a div b"
  by (cases "a = 0") (simp_all add: tdiv_def)

lemma tdiv_mono:
  assumes "0 < b" "a \<le> a'"
  shows "tdiv a b \<le> tdiv a' b"
proof (cases "0 \<le> a")
  case True
  with assms show ?thesis by (simp add: tdiv_nonneg zdiv_mono1)
next
  case False
  have neg: "tdiv x b = - ((- x) div b)" if "x < 0" for x
    using that assms by (simp add: tdiv_def)
  show ?thesis
  proof (cases "0 \<le> a'")
    case True
    have "0 \<le> (- a) div b" using False assms by (simp add: pos_imp_zdiv_nonneg_iff)
    moreover have "0 \<le> a' div b" using True assms by (simp add: pos_imp_zdiv_nonneg_iff)
    ultimately show ?thesis using True False assms by (simp add: neg tdiv_nonneg)
  next
    case False': False
    have "(- a') div b \<le> (- a) div b" using assms by (intro zdiv_mono1) auto
    then show ?thesis using False False' by (simp add: neg)
  qed
qed

lemma drop_numeral_Cons [simp]: "drop (numeral k + n) (x # xs) = drop (pred_numeral k + n) xs"
  by (simp add: numeral_eq_Suc)

lemma filter_empty_if: "(\<And>x. x \<in> set xs \<Longrightarrow> \<not> P x) \<Longrightarrow> filter P xs = []"
  by (simp add: filter_empty_conv)

lemma foldl_concat: "foldl f s (concat xss) = foldl (foldl f) s xss"
  by (induction xss arbitrary: s) auto

end
