(* ===== verification/GoNet.thy ===== *)
theory GoNet
  imports GoStrings
begin

text \<open>
  The part of Go's \<^verbatim>\<open>net\<close> package the program uses: an address is the byte slice \<^verbatim>\<open>net.IP\<close>
  (a nil slice is the empty list), printed as \<^verbatim>\<open>IP.String\<close> prints it, and parsed back for IPv4
  by \<^verbatim>\<open>ParseIP\<close> and \<^verbatim>\<open>ParseCIDR\<close>.
\<close>

type_synonym ip = bytes

section \<open>Hexadecimal\<close>

definition hex_digit :: "nat \<Rightarrow> char" where
  "hex_digit d = (if d < 10 then char_of (48 + d) else char_of (87 + d))"

fun hex_nat :: "nat \<Rightarrow> string" where
  "hex_nat n = (if n < 16 then [hex_digit n] else hex_nat (n div 16) @ [hex_digit (n mod 16)])"

declare hex_nat.simps [simp del]

definition hex_byte :: "byte \<Rightarrow> string" where
  "hex_byte b = [hex_digit (unat b div 16), hex_digit (unat b mod 16)]"


section \<open>Printing addresses\<close>

text \<open>\<^verbatim>\<open>IP.To4\<close>: the four bytes of an IPv4 or IPv4-mapped address, else nil.\<close>

definition to4 :: "ip \<Rightarrow> ip" where
  "to4 a =
     (if length a = 4 then a
      else if length a = 16 \<and> list_all (\<lambda>b. b = 0) (take 10 a) \<and> a ! 10 = 255 \<and> a ! 11 = 255
      then drop 12 a else [])"

definition dotted :: "ip \<Rightarrow> string" where
  "dotted a = join ''.'' (map (\<lambda>b. dec (unat b)) a)"

text \<open>The eight 16-bit groups of an IPv6 address and the first longest run of at least two zero
  groups, as \<^verbatim>\<open>netip.Addr.string6\<close> finds it.\<close>

fun groups16 :: "bytes \<Rightarrow> nat list" where
  "groups16 (a # b # r) = (unat a * 256 + unat b) # groups16 r"
| "groups16 _ = []"

definition zero_run :: "nat list \<Rightarrow> nat \<Rightarrow> nat" where
  "zero_run g i = length (takeWhile (\<lambda>x. x = 0) (drop i g))"

definition best_run :: "nat list \<Rightarrow> nat \<times> nat" where
  "best_run g =
     foldl (\<lambda>(s, e) i. let l = zero_run g i in if 2 \<le> l \<and> e - s < l then (i, i + l) else (s, e))
       (255, 255) [0..<length g]"

definition string6 :: "ip \<Rightarrow> string" where
  "string6 a =
     (let g = groups16 a; (s, e) = best_run g
      in if s = 255 then join '':'' (map hex_nat g)
         else join '':'' (map hex_nat (take s g)) @ ''::'' @ join '':'' (map hex_nat (drop e g)))"

text \<open>\<^verbatim>\<open>IP.String\<close>.\<close>

definition ip_string :: "ip \<Rightarrow> string" where
  "ip_string a =
     (if a = [] then ''<nil>''
      else if length a \<noteq> 4 \<and> length a \<noteq> 16 then ''?'' @ concat (map hex_byte a)
      else if to4 a \<noteq> [] then dotted (to4 a)
      else string6 a)"

text \<open>\<^verbatim>\<open>IP.IsUnspecified\<close>: 0.0.0.0 (also IPv4-mapped) or the IPv6 zero address.\<close>

definition is_unspecified :: "ip \<Rightarrow> bool" where
  "is_unspecified a \<longleftrightarrow>
     to4 a = [0, 0, 0, 0] \<or> length a = 16 \<and> list_all (\<lambda>b. b = 0) a"

text \<open>\<^verbatim>\<open>HardwareAddr.String\<close>.\<close>

definition mac_string :: "bytes \<Rightarrow> string" where
  "mac_string a = join '':'' (map hex_byte a)"


section \<open>Parsing IPv4 addresses and prefixes\<close>

text \<open>An octet: one to three digits, no leading zero, at most 255.\<close>

definition parse_octet :: "string \<Rightarrow> byte option" where
  "parse_octet s =
     (if s = [] \<or> \<not> list_all is_digit s \<or> (1 < length s \<and> hd s = CHR ''0'') \<or> 255 < dec_val s
      then None else Some (of_nat (dec_val s)))"

text \<open>\<^verbatim>\<open>net.ParseIP(s).To4()\<close> for text in dotted form; nil is the empty list.\<close>

definition parse_ip4 :: "string \<Rightarrow> ip" where
  "parse_ip4 s =
     (case map parse_octet (split_on CHR ''.'' s) of
        [Some a, Some b, Some c, Some d] \<Rightarrow> [a, b, c, d]
      | _ \<Rightarrow> [])"

definition cidr_mask :: "nat \<Rightarrow> nat \<Rightarrow> byte" where
  "cidr_mask n i =
     (if n \<le> 8 * i then 0 else if 8 * i + 8 \<le> n then 255 else of_nat (256 - 2 ^ (8 - (n - 8 * i))))"

text \<open>\<^verbatim>\<open>net.ParseCIDR\<close> on IPv4 text: the network address and the prefix length.\<close>

definition parse_cidr4 :: "string \<Rightarrow> (ip \<times> nat) option" where
  "parse_cidr4 s =
     (case split_n2 CHR ''/'' s of
        [a, m] \<Rightarrow>
          (let ip = parse_ip4 a
           in if ip = [] \<or> m = [] \<or> \<not> list_all is_digit m \<or> 32 < dec_val m then None
              else Some (map2 (\<lambda>b i. b AND cidr_mask (dec_val m) i) ip [0, 1, 2, 3], dec_val m))
      | _ \<Rightarrow> None)"

text \<open>\<^verbatim>\<open>IPNet.Contains\<close> for an IPv4 network and a 4-byte address.\<close>

definition net_contains :: "ip \<times> nat \<Rightarrow> ip \<Rightarrow> bool" where
  "net_contains net a \<longleftrightarrow>
     length a = 4 \<and>
     list_all (\<lambda>i. fst net ! i AND cidr_mask (snd net) i = a ! i AND cidr_mask (snd net) i) [0, 1, 2, 3]"


section \<open>Lemmas\<close>

lemma to4_4 [simp]: "to4 [a, b, c, d] = [a, b, c, d]"
  by (simp add: to4_def)

lemma to4_length: "to4 a = [] \<or> length (to4 a) = 4"
  by (auto simp: to4_def)

lemma length_4E:
  assumes "length a = 4"
  obtains w x y z where "a = [w, x, y, z]"
  using assms by (auto simp: numeral_eq_Suc length_Suc_conv)

lemma ip_string_4: "length a = 4 \<Longrightarrow> ip_string a = dotted a"
  by (auto simp: ip_string_def to4_def)

lemma dotted_split: "a \<noteq> [] \<Longrightarrow> split_on CHR ''.'' (dotted a) = map (\<lambda>b. dec (unat b)) a"
  unfolding dotted_def by (rule split_join) auto

lemma dotted_inj: "a \<noteq> [] \<Longrightarrow> b \<noteq> [] \<Longrightarrow> dotted a = dotted b \<Longrightarrow> a = b"
proof -
  assume "a \<noteq> []" "b \<noteq> []" "dotted a = dotted b"
  then have "map (\<lambda>b. dec (unat b)) a = map (\<lambda>b. dec (unat b)) b"
    using dotted_split by metis
  moreover have "inj (\<lambda>b :: byte. dec (unat b))"
    by (auto simp: inj_def dest: unsigned_word_eqI)
  ultimately show ?thesis by (simp add: inj_map_eq_map)
qed

lemma dec_first_zero: "hd (dec n) = CHR ''0'' \<Longrightarrow> length (dec n) = 1"
proof (induction n rule: dec.induct)
  case (1 n)
  show ?case
  proof (cases "n < 10")
    case True
    then show ?thesis by (subst dec.simps) simp
  next
    case False
    then have eq: "dec n = dec (n div 10) @ [digit (n mod 10)]"
      by (subst dec.simps) simp
    with "1.prems" have h: "hd (dec (n div 10)) = CHR ''0''" by simp
    with False "1.IH" have "length (dec (n div 10)) = 1" by simp
    with h have "dec (n div 10) = [CHR ''0'']"
      by (cases "dec (n div 10)") auto
    then have "dec_val (dec (n div 10)) = 0"
      by (simp add: dec_val_def digit_val_def)
    with False show ?thesis by simp
  qed
qed

lemma parse_octet_dec [simp]: "parse_octet (dec (unat (b :: byte))) = Some b"
proof -
  have "\<not> (1 < length (dec (unat b)) \<and> hd (dec (unat b)) = CHR ''0'')"
    using dec_first_zero [of "unat b"] by auto
  then show ?thesis
    by (simp add: parse_octet_def not_less)
qed

text \<open>Printing an IPv4 address and parsing it gives the address back.\<close>

lemma parse_ip4_dotted: "length a = 4 \<Longrightarrow> parse_ip4 (dotted a) = a"
  by (erule length_4E) (simp add: parse_ip4_def dotted_split)

lemma slash_not_in_dotted: "CHR ''/'' \<notin> set (dotted a)"
proof -
  have "CHR ''/'' \<notin> set (join ''.'' ws)" if "\<forall>w \<in> set ws. CHR ''/'' \<notin> set w" for ws
    using that by (induction "''.''" ws rule: join.induct) auto
  then show ?thesis by (simp add: dotted_def)
qed

lemma parse_cidr4_print:
  assumes "length a = 4" "n \<le> 32"
  shows "parse_cidr4 (dotted a @ ''/'' @ dec n) =
    Some (map2 (\<lambda>b i. b AND cidr_mask n i) a [0, 1, 2, 3], n)"
  using assms by (auto simp: parse_cidr4_def split_n2_append slash_not_in_dotted parse_ip4_dotted)

end
