(* ===== verification/Gnmi.thy ===== *)
theory Gnmi
  imports GoStrings
begin

text \<open>
  The gNMI data the ingesters produce and the exporters read (paths, typed values, updates), the
  wrapper \<^verbatim>\<open>internal/state/cache.go\<close> around the third-party gNMI cache, and the effects of an
  ingester step: the calls it makes to \<^verbatim>\<open>Cache.Update\<close> and to \<^verbatim>\<open>Correlator.Emit\<close>, in order.

  The third-party cache is the parameter of \<open>cache_Update\<close>. What a subscriber sees of a sequence
  of calls is stated over the leaf store, the partial map from (origin, path) to value that gNMI
  notifications describe: an update sets a leaf, a delete removes the subtree under its path. The
  locale \<open>leaf_cache\<close> is that contract, and the clients' lemmas are proved inside it.
\<close>

section \<open>Paths and values\<close>

datatype tval =
    StringVal string
  | UintVal u64
  | IntVal int
  | JsonIetfVal string
  | JsonVal string
  | OtherVal string

record path_elem =
  pe_name :: string
  pe_key :: "(string, string) gomap"

type_synonym elems = "path_elem list"
type_synonym gupdate = "elems \<times> tval"

record gpath =
  gp_target :: string
  gp_origin :: string
  gp_elem :: elems

abbreviation el :: "string \<Rightarrow> path_elem" where
  "el n \<equiv> \<lparr>pe_name = n, pe_key = []\<rparr>"

abbreviation elk :: "string \<Rightarrow> (string \<times> string) list \<Rightarrow> path_elem" where
  "elk n ks \<equiv> \<lparr>pe_name = n, pe_key = ks\<rparr>"

definition strVal :: "string \<Rightarrow> tval" where
  "strVal s = StringVal s"

definition uintVal :: "u64 \<Rightarrow> tval" where
  "uintVal u = UintVal u"

definition leafUpdate :: "elems \<Rightarrow> string \<Rightarrow> gupdate" where
  "leafUpdate es v = (es, strVal v)"

text \<open>The tail the path builders share: nothing for an empty leaf name, else \<^verbatim>\<open>state/<leaf>\<close>.\<close>

definition state_leaf :: "string \<Rightarrow> elems" where
  "state_leaf leaf = (if leaf = [] then [] else [el ''state'', el leaf])"

lemma state_leaf_inj [simp]: "state_leaf a = state_leaf b \<longleftrightarrow> a = b"
  by (auto simp: state_leaf_def)

lemma prefix_state_leaf [simp]:
  "prefix (state_leaf []) q" "prefix (state_leaf a) (state_leaf b) \<longleftrightarrow> a = [] \<or> a = b"
  by (auto simp: state_leaf_def)

text \<open>The readers of the exporters: all keys along a path, later elements shadowing earlier ones,
  and the name of the last element; and the text of a value.\<close>

definition dissect :: "elems option \<Rightarrow> (string, string) gomap \<times> string" where
  "dissect p =
     (case p of None \<Rightarrow> ([], [])
      | Some es \<Rightarrow>
          foldl (\<lambda>(keys, leaf) e.
              (foldl (\<lambda>m (k, v). map_put k v m) keys (pe_key e), pe_name e)) ([], []) es)"

definition sval :: "tval option \<Rightarrow> string" where
  "sval v =
     (case v of
        Some (StringVal s) \<Rightarrow> s
      | Some (JsonIetfVal s) \<Rightarrow> trim_by (\<lambda>c. c = CHR 0x22) s
      | Some (JsonVal s) \<Rightarrow> trim_by (\<lambda>c. c = CHR 0x22) s
      | Some (UintVal u) \<Rightarrow> dec (unat u)
      | _ \<Rightarrow> [])"


section \<open>The cache wrapper\<close>

record notification =
  n_timestamp :: int
  n_prefix :: gpath
  n_update :: "gupdate list"
  n_delete :: "elems list"

record 'c cache =
  c_target :: string
  c_tree :: 'c

text \<open>\<^verbatim>\<open>state.New\<close>: one target, over the third-party constructor \<open>newCache\<close>.\<close>

definition cache_New :: "(string list \<Rightarrow> 'c) \<Rightarrow> string \<Rightarrow> 'c cache" where
  "cache_New newCache target = \<lparr>c_target = target, c_tree = newCache [target]\<rparr>"

text \<open>\<^verbatim>\<open>Cache.Update\<close>: the notification it builds goes to \<open>gnmiUpdate\<close>, whose error it returns.\<close>

definition cache_Update ::
    "(notification \<Rightarrow> 'c \<Rightarrow> 'c \<times> string option) \<Rightarrow> int \<Rightarrow> string \<Rightarrow> gupdate list \<Rightarrow> elems list
      \<Rightarrow> 'c cache \<Rightarrow> 'c cache \<times> string option" where
  "cache_Update gnmiUpdate now origin ups dels s =
     (let n = \<lparr>n_timestamp = now,
               n_prefix = \<lparr>gp_target = c_target s, gp_origin = origin, gp_elem = []\<rparr>,
               n_update = ups, n_delete = dels\<rparr>;
          (t, err) = gnmiUpdate n (c_tree s)
      in (s\<lparr>c_tree := t\<rparr>, err))"


section \<open>Effects of a step\<close>

datatype eff =
    CacheUpdate string "gupdate list" "elems list"
  | Emit string string string string bool

text \<open>Every notification of the program either updates or deletes: their order inside one
  notification never matters.\<close>

fun eff_pure :: "eff \<Rightarrow> bool" where
  "eff_pure (CacheUpdate origin ups dels) = (ups = [] \<or> dels = [])"
| "eff_pure (Emit bus kind key detail root) = True"


section \<open>The leaf store\<close>

type_synonym store = "string \<times> elems \<Rightarrow> tval option"

definition store_look :: "store \<Rightarrow> string \<Rightarrow> elems \<Rightarrow> tval option" where
  "store_look st origin p = st (origin, p)"

definition store_upd :: "string \<Rightarrow> elems \<Rightarrow> tval \<Rightarrow> store \<Rightarrow> store" where
  "store_upd origin p v st = st((origin, p) \<mapsto> v)"

definition store_del :: "string \<Rightarrow> elems \<Rightarrow> store \<Rightarrow> store" where
  "store_del origin p st =
     (\<lambda>(origin', q). if origin' = origin \<and> prefix p q then None else st (origin', q))"

text \<open>The contract of a cache of leaves, over any representation \<open>'c\<close>.\<close>

locale leaf_cache =
  fixes look :: "'c \<Rightarrow> string \<Rightarrow> elems \<Rightarrow> tval option"
    and upd :: "string \<Rightarrow> elems \<Rightarrow> tval \<Rightarrow> 'c \<Rightarrow> 'c"
    and del :: "string \<Rightarrow> elems \<Rightarrow> 'c \<Rightarrow> 'c"
  assumes look_upd:
      "look (upd og p v c) og' q = (if og' = og \<and> q = p then Some v else look c og' q)"
    and look_del:
      "look (del og p c) og' q = (if og' = og \<and> prefix p q then None else look c og' q)"
begin

lemma look_upds:
  "look (foldl (\<lambda>c (p, v). upd og p v c) c ups) og' q =
     (if og' = og then (case map_of (rev ups) q of Some v \<Rightarrow> Some v | None \<Rightarrow> look c og' q)
      else look c og' q)"
  by (induction ups arbitrary: c) (auto simp: look_upd map_add_def split: option.splits)

lemma look_dels:
  "look (foldl (\<lambda>c p. del og p c) c dels) og' q =
     (if og' = og \<and> (\<exists>p \<in> set dels. prefix p q) then None else look c og' q)"
  by (induction dels arbitrary: c) (auto simp: look_del)

end

interpretation st: leaf_cache store_look store_upd store_del
  by unfold_locales (auto simp: store_look_def store_upd_def store_del_def)

fun apply_eff :: "store \<Rightarrow> eff \<Rightarrow> store" where
  "apply_eff st (CacheUpdate origin ups dels) =
     foldl (\<lambda>st p. store_del origin p st)
       (foldl (\<lambda>st (p, v). store_upd origin p v st) st ups) dels"
| "apply_eff st (Emit bus kind key detail root) = st"

definition apply_effs :: "store \<Rightarrow> eff list \<Rightarrow> store" where
  "apply_effs st es = foldl apply_eff st es"

lemma apply_effs_Nil [simp]: "apply_effs st [] = st"
  and apply_effs_Cons [simp]: "apply_effs st (e # es) = apply_effs (apply_eff st e) es"
  and apply_effs_append [simp]: "apply_effs st (xs @ ys) = apply_effs (apply_effs st xs) ys"
  by (simp_all add: apply_effs_def)

lemma look_apply_upd:
  "store_look (apply_eff st (CacheUpdate og ups [])) og' q =
     (if og' = og then (case map_of (rev ups) q of Some v \<Rightarrow> Some v | None \<Rightarrow> store_look st og' q)
      else store_look st og' q)"
  by (simp add: st.look_upds)

lemma look_apply_del:
  "store_look (apply_eff st (CacheUpdate og [] dels)) og' q =
     (if og' = og \<and> (\<exists>p \<in> set dels. prefix p q) then None else store_look st og' q)"
  by (simp add: st.look_dels)

text \<open>The notifications of an origin do not touch the leaves of another one.\<close>

fun eff_origin_ok :: "string \<Rightarrow> eff \<Rightarrow> bool" where
  "eff_origin_ok og (CacheUpdate og' ups dels) = (og' = og)"
| "eff_origin_ok og (Emit bus kind key detail root) = True"

lemma apply_effs_other_origin:
  "list_all (eff_origin_ok og) es \<Longrightarrow> og' \<noteq> og \<Longrightarrow>
    store_look (apply_effs st es) og' q = store_look st og' q"
proof (induction es arbitrary: st)
  case (Cons e es)
  then show ?case
    by (cases e) (auto simp: st.look_upds st.look_dels)
qed simp

end
