(* ===== verification/Bmp_Wire.thy ===== *)
theory Bmp_Wire
  imports GoNet Gnmi
begin

text \<open>
  The byte-level parsers of \<^verbatim>\<open>internal/ingest/bmp.go\<close>: the per-peer header, route distinguishers and
  route targets, the Information TLVs of a Peer Up message, the labelled VPN-IPv4 NLRI and the
  walk over the path attributes of a BGP UPDATE. \<^const>\<open>None\<close> is a run-time panic.
\<close>

section \<open>Constants\<close>

abbreviation (input) bmpVersion :: byte where "bmpVersion \<equiv> 3"
abbreviation (input) bmpHdrLen :: nat where "bmpHdrLen \<equiv> 6"
abbreviation (input) bmpPerPeerLen :: nat where "bmpPerPeerLen \<equiv> 42"
abbreviation (input) bmpRouteMon :: byte where "bmpRouteMon \<equiv> 0"
abbreviation (input) bmpPeerDown :: byte where "bmpPeerDown \<equiv> 2"
abbreviation (input) bmpPeerUp :: byte where "bmpPeerUp \<equiv> 3"
abbreviation (input) bgpUpdate :: byte where "bgpUpdate \<equiv> 2"
abbreviation (input) bgpHdrLen :: nat where "bgpHdrLen \<equiv> 19"
abbreviation (input) attrMPReach :: byte where "attrMPReach \<equiv> 14"
abbreviation (input) attrMPUnreach :: byte where "attrMPUnreach \<equiv> 15"
abbreviation (input) attrExtComm :: byte where "attrExtComm \<equiv> 16"
abbreviation (input) afiIPv4 :: u16 where "afiIPv4 \<equiv> 1"
abbreviation (input) safiMPLSVPN :: byte where "safiMPLSVPN \<equiv> 128"


section \<open>Route distinguishers and route targets\<close>

definition allZero :: "bytes \<Rightarrow> bool" where
  "allZero b = list_all (\<lambda>x. x = 0) b"

text \<open>The three layouts \<^verbatim>\<open>formatRD\<close> and \<^verbatim>\<open>parseRTs\<close> print: 2-byte administrator and 4-byte number,
  IPv4 address and 2-byte number, 4-byte administrator and 2-byte number.\<close>

definition fmt_as2 :: "bytes \<Rightarrow> string option" where
  "fmt_as2 b = do {
     hi \<leftarrow> slice_of b 2 4; a \<leftarrow> be16 hi;
     lo \<leftarrow> slice_of b 4 8; n \<leftarrow> be32 lo;
     Some (dec (unat a) @ '':'' @ dec (unat n)) }"

definition fmt_ip :: "bytes \<Rightarrow> string option" where
  "fmt_ip b = do {
     hi \<leftarrow> slice_of b 2 6;
     lo \<leftarrow> slice_of b 6 8; n \<leftarrow> be16 lo;
     Some (ip_string hi @ '':'' @ dec (unat n)) }"

definition fmt_as4 :: "bytes \<Rightarrow> string option" where
  "fmt_as4 b = do {
     hi \<leftarrow> slice_of b 2 6; a \<leftarrow> be32 hi;
     lo \<leftarrow> slice_of b 6 8; n \<leftarrow> be16 lo;
     Some (dec (unat a) @ '':'' @ dec (unat n)) }"

definition formatRD :: "bytes \<Rightarrow> string option" where
  "formatRD b =
     (if length b < 8 then Some ''''
      else do {
        h \<leftarrow> slice_of b 0 2; t \<leftarrow> be16 h;
        if t = 0 then fmt_as2 b
        else if t = 1 then fmt_ip b
        else if t = 2 then fmt_as4 b
        else Some '''' })"

function parseRTs :: "bytes \<Rightarrow> string list option" where
  "parseRTs v =
     (if length v < 8 then Some []
      else do {
        c \<leftarrow> slice_of v 0 8;
        c1 \<leftarrow> idx c 1; c0 \<leftarrow> idx c 0;
        rt \<leftarrow> (if c1 \<noteq> 2 then Some []
               else if c0 = 0 then map_option (\<lambda>s. [s]) (fmt_as2 c)
               else if c0 = 1 then map_option (\<lambda>s. [s]) (fmt_ip c)
               else if c0 = 2 then map_option (\<lambda>s. [s]) (fmt_as4 c)
               else Some []);
        rts \<leftarrow> parseRTs (drop 8 v);
        Some (rt @ rts) })"
  by pat_completeness auto
termination by (relation "measure length") auto

declare parseRTs.simps [simp del]


section \<open>The per-peer header\<close>

definition perPeer :: "bytes \<Rightarrow> (ip \<times> u32 \<times> byte \<times> string \<times> bool) option" where
  "perPeer body =
     (if length body < bmpPerPeerLen then Some ([], 0, 0, '''', False)
      else do {
        ptype \<leftarrow> idx body 0;
        flags \<leftarrow> idx body 1;
        d \<leftarrow> slice_of body 2 10;
        rd \<leftarrow> (if \<not> allZero d then formatRD d else Some '''');
        peer \<leftarrow> (if flags AND 0x80 \<noteq> 0 then slice_of body 10 26 else slice_of body 22 26);
        a \<leftarrow> slice_of body 26 30; peerAS \<leftarrow> be32 a;
        Some (peer, peerAS, ptype, rd, True) })"


section \<open>Information TLVs of a Peer Up message\<close>

text \<open>The loop that skips the two OPEN messages; \<^term>\<open>Some None\<close> is its early return.\<close>

fun skipOpens :: "nat \<Rightarrow> bytes \<Rightarrow> bytes option option" where
  "skipOpens 0 p = Some (Some p)"
| "skipOpens (Suc n) p =
     (if length p < bgpHdrLen then Some None
      else do {
        h \<leftarrow> slice_of p 16 18; l \<leftarrow> be16 h;
        if unat l < bgpHdrLen \<or> length p < unat l then Some None
        else do { q \<leftarrow> slice_from p (unat l); skipOpens n q } })"

definition bytes_string :: "bytes \<Rightarrow> string" where
  "bytes_string b = map (\<lambda>x. char_of (unat x)) b"

function infoTLVs :: "bytes \<Rightarrow> string option" where
  "infoTLVs p =
     (if length p < 4 then Some ''''
      else do {
        h \<leftarrow> slice_of p 0 2; t \<leftarrow> be16 h;
        h' \<leftarrow> slice_of p 2 4; l \<leftarrow> be16 h';
        if length p < 4 + unat l then Some ''''
        else if t = 3 then do { v \<leftarrow> slice_of p 4 (4 + unat l); Some (bytes_string v) }
        else infoTLVs (drop (4 + unat l) p) })"
  by pat_completeness auto
termination by (relation "measure length") auto

declare infoTLVs.simps [simp del]

definition peerUpVRF :: "bytes \<Rightarrow> string option" where
  "peerUpVRF body =
     (if length body < bmpPerPeerLen then Some ''''
      else do {
        p \<leftarrow> slice_from body bmpPerPeerLen;
        if length p < 20 then Some ''''
        else do {
          p \<leftarrow> slice_from p 20;
          r \<leftarrow> skipOpens 2 p;
          case r of None \<Rightarrow> Some '''' | Some q \<Rightarrow> infoTLVs q } })"


section \<open>Labelled VPN-IPv4 NLRI\<close>

definition label_entry :: "byte \<Rightarrow> byte \<Rightarrow> byte \<Rightarrow> u32" where
  "label_entry a b c =
     drop_bit 4 (push_bit 16 (ucast a) OR push_bit 8 (ucast b) OR ucast c)"

text \<open>The loop over the label stack: the offset after it and the last label read.\<close>

function labelStack :: "bytes \<Rightarrow> nat \<Rightarrow> u32 \<Rightarrow> nat \<times> u32" where
  "labelStack d i label =
     (if i + 3 \<le> length d
      then (let label = label_entry (d ! i) (d ! (i + 1)) (d ! (i + 2))
            in if d ! (i + 2) AND 1 = 1 then (i + 3, label) else labelStack d (i + 3) label)
      else (i, label))"
  by pat_completeness auto
termination by (relation "measure (\<lambda>(d, i, l). length d - i)") auto

declare labelStack.simps [simp del]

definition parseVPNNLRI :: "bytes \<Rightarrow> (string \<times> string \<times> u32 \<times> nat) option" where
  "parseVPNNLRI p =
     (if length p < 1 then Some ('''', '''', 0, 0)
      else do {
        b0 \<leftarrow> idx p 0;
        let bits = unat b0;
        let total = (bits + 7) div 8;
        if length p < 1 + total then Some ('''', '''', 0, 0)
        else do {
          d \<leftarrow> slice_of p 1 (1 + total);
          let (i, label) = labelStack d 0 0;
          if length d < i + 8 then Some ('''', '''', 0, 0)
          else do {
            r \<leftarrow> slice_of d i (i + 8);
            rd \<leftarrow> formatRD r;
            tl \<leftarrow> slice_from d (i + 8);
            let ip = take 4 (tl @ replicate 4 0);
            let prefixBits = max 0 (int bits - int (i + 8) * 8);
            Some (rd, ip_string ip @ ''/'' @ itoa prefixBits, label, 1 + total) } } })"


section \<open>The path attributes of an UPDATE\<close>

text \<open>
  The loop over the attributes. \<^verbatim>\<open>attrs\<close> is a sub-slice of the message body: its capacity reaches
  to the end of the body, \<open>beyond\<close> being the bytes after its length. Reading the two length bytes
  of an extended-length attribute, \<^verbatim>\<open>attrs[2:4]\<close>, is bounded by the capacity.
\<close>

record mp_attrs =
  mp_reach :: "bytes option"
  mp_unreach :: "bytes option"
  mp_rts :: "string list"

function walkAttrs :: "bytes \<Rightarrow> bytes \<Rightarrow> mp_attrs \<Rightarrow> mp_attrs option" where
  "walkAttrs attrs beyond acc =
     (if length attrs < 3 then Some acc
      else do {
        flags \<leftarrow> idx attrs 0;
        atype \<leftarrow> idx attrs 1;
        (alen, hdr) \<leftarrow>
          (if flags AND 0x10 \<noteq> 0
           then do { h \<leftarrow> slice_of (attrs @ beyond) 2 4; l \<leftarrow> be16 h; Some (unat l, 4) }
           else do { l \<leftarrow> idx attrs 2; Some (unat l, 3) });
        if length attrs < hdr + alen then Some acc
        else do {
          val \<leftarrow> slice_of attrs hdr (hdr + alen);
          acc' \<leftarrow>
            (if atype = attrMPReach then Some (acc\<lparr>mp_reach := Some val\<rparr>)
             else if atype = attrMPUnreach then Some (acc\<lparr>mp_unreach := Some val\<rparr>)
             else if atype = attrExtComm
               then map_option (\<lambda>r. acc\<lparr>mp_rts := r\<rparr>) (parseRTs val)
             else Some acc);
          walkAttrs (drop (hdr + alen) attrs) beyond acc' } })"
  by pat_completeness auto
termination
  by (relation "measure (\<lambda>(a, b, c). length a)") (auto split: if_splits bind_splits)

declare walkAttrs.simps [simp del]


section \<open>The parsers do not panic\<close>

lemma fmt_total:
  assumes "8 \<le> length b"
  shows "\<exists>s. fmt_as2 b = Some s" "\<exists>s. fmt_ip b = Some s" "\<exists>s. fmt_as4 b = Some s"
  using assms by (simp_all add: fmt_as2_def fmt_ip_def fmt_as4_def go_simps)

lemma formatRD_total [go_simps]: "formatRD b = Some (ret formatRD b)"
  by (rule ret_Some) (use fmt_total [of b] in \<open>auto simp: formatRD_def go_simps\<close>)

lemma parseRTs_ex: "\<exists>rts. parseRTs v = Some rts"
proof (induction v rule: length_induct)
  case (1 v)
  show ?case
  proof (cases "length v < 8")
    case True
    then show ?thesis by (subst parseRTs.simps) simp
  next
    case False
    with "1" have "\<exists>rts. parseRTs (drop 8 v) = Some rts" by simp
    with False show ?thesis
      using fmt_total [of "take 8 v"] by (subst parseRTs.simps) (auto simp: go_simps not_less)
  qed
qed

lemma parseRTs_total [go_simps]: "parseRTs v = Some (ret parseRTs v)"
  by (rule ret_Some) (rule parseRTs_ex)

lemma perPeer_total: "\<exists>r. perPeer body = Some r"
  by (auto simp: perPeer_def go_simps not_less)

lemma perPeer_ok_iff: "perPeer body = Some (peer, as, pt, rd, ok) \<Longrightarrow> ok = (42 \<le> length body)"
  by (auto simp: perPeer_def split: if_splits bind_splits)

lemma skipOpens_total: "\<exists>r. skipOpens n p = Some r"
  by (induction n p rule: skipOpens.induct) (auto simp: go_simps not_less)

lemma infoTLVs_total: "\<exists>s. infoTLVs p = Some s"
proof (induction p rule: length_induct)
  case (1 p)
  then show ?case
    by (subst infoTLVs.simps) (auto simp: go_simps not_less)
qed

lemma peerUpVRF_total: "\<exists>s. peerUpVRF body = Some s"
proof -
  obtain r where "skipOpens 2 (drop 20 (drop 42 body)) = Some r"
    using skipOpens_total by blast
  then show ?thesis
    using infoTLVs_total by (auto simp: peerUpVRF_def go_simps not_less split: option.splits)
qed

lemma parseVPNNLRI_total: "\<exists>r. parseVPNNLRI p = Some r"
proof (cases "length p < 1 \<or> length p < 1 + (unat (p ! 0) + 7) div 8")
  case True
  then show ?thesis by (auto simp: parseVPNNLRI_def go_simps not_less Let_def)
next
  case False
  then show ?thesis
    by (auto simp: parseVPNNLRI_def go_simps not_less Let_def split: prod.splits)
qed

lemma parseVPNNLRI_consumed:
  "parseVPNNLRI p = Some (rd, pfx, label, n) \<Longrightarrow> n \<le> length p"
  by (auto simp: parseVPNNLRI_def Let_def split: if_splits bind_splits prod.splits)

text \<open>The attribute walk panics only on an extended-length attribute cut off at the very end of the
  message body.\<close>

lemma walkAttrs_total: "beyond \<noteq> [] \<Longrightarrow> \<exists>r. walkAttrs attrs beyond acc = Some r"
proof (induction attrs arbitrary: acc rule: length_induct)
  case (1 attrs)
  show ?case
  proof (cases "length attrs < 3")
    case True
    then show ?thesis by (subst walkAttrs.simps) simp
  next
    case False
    have IH: "\<exists>r. walkAttrs (drop n attrs) beyond acc = Some r" if "3 \<le> n" for n acc
      using "1" that False by simp
    from False have ge: "4 \<le> length attrs + length beyond"
      using "1.prems" by (cases beyond) auto
    let ?h = "take 2 (drop 2 (attrs @ beyond))"
    have h: "slice_of (attrs @ beyond) 2 4 = Some ?h" "be16 ?h = Some (of_nat (be_val (take 2 ?h)))"
      using ge by (simp_all add: slice_of_def be16_def)
    show ?thesis
      by (subst walkAttrs.simps) (use False in \<open>simp add: h IH go_simps not_less del: drop_append take_append\<close>)
  qed
qed

end
