(* ===== verification/Bmp_Codec.thy ===== *)
theory Bmp_Codec
  imports Bmp_Wire
begin

text \<open>
  Encoders for what the parsers of \<open>Bmp_Wire\<close> read, written from the layouts of RFC 4364, 4360 and
  8277, and the round trips: each parser gives back what was encoded, whatever follows it.
\<close>

section \<open>Route distinguishers and route targets\<close>

datatype rd = RdAs2 nat nat | RdIp ip nat | RdAs4 nat nat

fun rd_type :: "rd \<Rightarrow> nat" where
  "rd_type (RdAs2 a n) = 0"
| "rd_type (RdIp a n) = 1"
| "rd_type (RdAs4 a n) = 2"

fun rd_body :: "rd \<Rightarrow> bytes" where
  "rd_body (RdAs2 a n) = be_enc 2 a @ be_enc 4 n"
| "rd_body (RdIp a n) = a @ be_enc 2 n"
| "rd_body (RdAs4 a n) = be_enc 4 a @ be_enc 2 n"

fun rd_wf :: "rd \<Rightarrow> bool" where
  "rd_wf (RdAs2 a n) \<longleftrightarrow> a < 65536 \<and> n < 4294967296"
| "rd_wf (RdIp a n) \<longleftrightarrow> length a = 4 \<and> n < 65536"
| "rd_wf (RdAs4 a n) \<longleftrightarrow> a < 4294967296 \<and> n < 65536"

fun show_rd :: "rd \<Rightarrow> string" where
  "show_rd (RdAs2 a n) = dec a @ '':'' @ dec n"
| "show_rd (RdIp a n) = dotted a @ '':'' @ dec n"
| "show_rd (RdAs4 a n) = dec a @ '':'' @ dec n"

definition enc_rd :: "rd \<Rightarrow> bytes" where
  "enc_rd r = be_enc 2 (rd_type r) @ rd_body r"

text \<open>An extended community: a route target, or one with another subtype.\<close>

datatype ext_comm = Rt rd | OtherComm byte byte bytes

fun enc_comm :: "ext_comm \<Rightarrow> bytes" where
  "enc_comm (Rt r) = [of_nat (rd_type r), 2] @ rd_body r"
| "enc_comm (OtherComm t s v) = [t, s] @ v"

fun comm_wf :: "ext_comm \<Rightarrow> bool" where
  "comm_wf (Rt r) = rd_wf r"
| "comm_wf (OtherComm t s v) = (s \<noteq> 2 \<and> length v = 6)"

fun comm_rts :: "ext_comm \<Rightarrow> string list" where
  "comm_rts (Rt r) = [show_rd r]"
| "comm_rts (OtherComm t s v) = []"

lemma length_rd_body [simp]: "rd_wf r \<Longrightarrow> length (rd_body r) = 6"
  by (cases r) auto

lemma length_enc_rd [simp]: "rd_wf r \<Longrightarrow> length (enc_rd r) = 8"
  by (simp add: enc_rd_def)

lemma length_enc_comm [simp]: "comm_wf c \<Longrightarrow> length (enc_comm c) = 8"
  by (cases c) auto

lemma fmt_bodies:
  "a < 65536 \<Longrightarrow> n < 4294967296 \<Longrightarrow>
    fmt_as2 (x # y # be_enc 2 a @ be_enc 4 n) = Some (dec a @ '':'' @ dec n)"
  "length i = 4 \<Longrightarrow> n < 65536 \<Longrightarrow>
    fmt_ip (x # y # i @ be_enc 2 n) = Some (dotted i @ '':'' @ dec n)"
  "a < 4294967296 \<Longrightarrow> n < 65536 \<Longrightarrow>
    fmt_as4 (x # y # be_enc 4 a @ be_enc 2 n) = Some (dec a @ '':'' @ dec n)"
  using be16_enc [of _ "[]"] be32_enc [of _ "[]"]
  by (simp_all add: fmt_as2_def fmt_ip_def fmt_as4_def slice_of_def ip_string_4)

lemma enc_rd_eq: "enc_rd r = 0 # of_nat (rd_type r) # rd_body r"
  by (cases r) (simp_all add: enc_rd_def numeral_2_eq_2)

lemma be16_two: "be16 [a, b] = Some (of_nat (unat a * 256 + unat b))"
  by (simp add: be16_def)

lemma formatRD_enc [simp]:
  assumes "rd_wf r"
  shows "formatRD (enc_rd r) = Some (show_rd r)"
proof -
  have "8 \<le> length (enc_rd r)" using assms by simp
  moreover have "slice_of (enc_rd r) 0 2 = Some [0, of_nat (rd_type r)]"
    by (simp add: enc_rd_eq slice_of_def numeral_2_eq_2)
  ultimately have "formatRD (enc_rd r) =
      (if rd_type r = 0 then fmt_as2 (enc_rd r) else if rd_type r = 1 then fmt_ip (enc_rd r)
       else fmt_as4 (enc_rd r))"
    by (cases r) (simp_all add: formatRD_def be16_two)
  then show ?thesis
    using assms by (cases r) (simp_all add: enc_rd_eq fmt_bodies)
qed

lemma parseRTs_block:
  "length c = 8 \<Longrightarrow> parseRTs (c @ v) = do {
     rt \<leftarrow> (if c ! 1 \<noteq> 2 then Some []
            else if c ! 0 = 0 then map_option (\<lambda>s. [s]) (fmt_as2 c)
            else if c ! 0 = 1 then map_option (\<lambda>s. [s]) (fmt_ip c)
            else if c ! 0 = 2 then map_option (\<lambda>s. [s]) (fmt_as4 c)
            else Some []);
     rts \<leftarrow> parseRTs v;
     Some (rt @ rts) }"
  by (subst parseRTs.simps) (auto simp: slice_of_def idx_def)

lemma parseRTs_enc:
  "list_all comm_wf cs \<Longrightarrow>
    parseRTs (concat (map enc_comm cs)) = Some (concat (map comm_rts cs))"
proof (induction cs)
  case Nil
  then show ?case by (simp add: parseRTs.simps)
next
  case (Cons c cs)
  then have wf: "comm_wf c" and IH: "parseRTs (concat (map enc_comm cs)) = Some (concat (map comm_rts cs))"
    by simp_all
  have "(if enc_comm c ! 1 \<noteq> 2 then Some []
            else if enc_comm c ! 0 = 0 then map_option (\<lambda>s. [s]) (fmt_as2 (enc_comm c))
            else if enc_comm c ! 0 = 1 then map_option (\<lambda>s. [s]) (fmt_ip (enc_comm c))
            else if enc_comm c ! 0 = 2 then map_option (\<lambda>s. [s]) (fmt_as4 (enc_comm c))
            else Some []) = Some (comm_rts c)"
  proof (cases c)
    case (Rt r)
    with wf show ?thesis by (cases r) (simp_all add: fmt_bodies)
  next
    case (OtherComm t s v)
    with wf show ?thesis by simp
  qed
  with wf IH show ?case by (simp add: parseRTs_block)
qed


section \<open>Labelled VPN-IPv4 NLRI\<close>

record vpn_nlri =
  v_labels :: "nat list"
  v_rd :: rd
  v_ip :: ip
  v_plen :: nat

fun enc_stack :: "nat list \<Rightarrow> bytes" where
  "enc_stack [] = []"
| "enc_stack [l] = be_enc 3 (16 * l + 1)"
| "enc_stack (l # ls) = be_enc 3 (16 * l) @ enc_stack ls"

definition octets :: "nat \<Rightarrow> nat" where
  "octets plen = (plen + 7) div 8"

definition nlri_bits :: "vpn_nlri \<Rightarrow> nat" where
  "nlri_bits v = 24 * length (v_labels v) + 64 + v_plen v"

definition enc_nlri :: "vpn_nlri \<Rightarrow> bytes" where
  "enc_nlri v =
     of_nat (nlri_bits v) #
       enc_stack (v_labels v) @ enc_rd (v_rd v) @ take (octets (v_plen v)) (v_ip v)"

definition nlri_wf :: "vpn_nlri \<Rightarrow> bool" where
  "nlri_wf v \<longleftrightarrow>
     v_labels v \<noteq> [] \<and> list_all (\<lambda>l. l < 2 ^ 20) (v_labels v) \<and> rd_wf (v_rd v) \<and>
     length (v_ip v) = 4 \<and> v_plen v \<le> 32 \<and> nlri_bits v < 256"

text \<open>The key of the route as the cache spells it.\<close>

definition nlri_prefix :: "vpn_nlri \<Rightarrow> string" where
  "nlri_prefix v =
     (let k = octets (v_plen v)
      in dotted (take k (v_ip v) @ replicate (4 - k) 0) @ ''/'' @ dec (v_plen v))"

lemma length_enc_stack [simp]: "length (enc_stack ls) = 3 * length ls"
  by (induction ls rule: enc_stack.induct) auto

lemma enc_stack_Cons: "ls \<noteq> [] \<Longrightarrow> enc_stack (l # ls) = be_enc 3 (16 * l) @ enc_stack ls"
  by (cases ls) auto

lemma be_enc_3:
  "be_enc 3 n = [of_nat (n div 65536), of_nat (n mod 65536 div 256), of_nat (n mod 256)]"
  by (simp add: numeral_3_eq_3 mod_mod_cancel)

lemma label_entry_enc:
  assumes "n < 2 ^ 24" "be_enc 3 n = [a, b, c]"
  shows "label_entry a b c = of_nat (n div 16)" "c AND 1 = 1 \<longleftrightarrow> odd n"
proof -
  from assms have abc: "unat a = n div 65536" "unat b = n mod 65536 div 256" "unat c = n mod 256"
    by (auto simp: be_enc_3 less_mult_imp_div_less)
  have "n mod 65536 mod 256 = n mod 256" by (simp add: mod_mod_cancel)
  then have "65536 * unat a + 256 * unat b + unat c = n"
    unfolding abc
    using div_mult_mod_eq [of n 65536] div_mult_mod_eq [of "n mod 65536" 256] by linarith
  with assms(1) show "label_entry a b c = of_nat (n div 16)"
    by (simp add: label_entry_def or3_bytes drop4_of_nat_u32)
  show "c AND 1 = 1 \<longleftrightarrow> odd n"
    unfolding low_bit_iff abc by (simp add: dvd_mod_iff)
qed

lemma labelStack_entry:
  "labelStack (pre @ a # b # c # r) (length pre) l =
    (if c AND 1 = 1 then (length pre + 3, label_entry a b c)
     else labelStack (pre @ a # b # c # r) (length pre + 3) (label_entry a b c))"
proof -
  have nth: "(pre @ a # b # c # r) ! length pre = a"
      "(pre @ a # b # c # r) ! (length pre + 1) = b"
      "(pre @ a # b # c # r) ! (length pre + 2) = c"
    by (simp_all add: nth_append)
  have "length pre + 3 \<le> length (pre @ a # b # c # r)" by simp
  then show ?thesis
    by (subst labelStack.simps) (simp only: nth Let_def if_True)
qed

lemma labelStack_step:
  assumes "n < 2 ^ 24"
  shows "labelStack (pre @ be_enc 3 n @ r) (length pre) l =
    (if odd n then (length pre + 3, of_nat (n div 16))
     else labelStack (pre @ be_enc 3 n @ r) (length pre + 3) (of_nat (n div 16)))"
proof -
  obtain a b c where abc: "be_enc 3 n = [a, b, c]" by (simp add: be_enc_3)
  show ?thesis
    unfolding abc append_Cons append_Nil labelStack_entry label_entry_enc [OF assms abc] ..
qed

lemma labelStack_enc:
  "ls \<noteq> [] \<Longrightarrow> list_all (\<lambda>l. l < 2 ^ 20) ls \<Longrightarrow>
    labelStack (pre @ enc_stack ls @ r) (length pre) l0 = (length pre + 3 * length ls, of_nat (last ls))"
proof (induction ls arbitrary: pre l0)
  case Nil
  then show ?case by simp
next
  case (Cons l ls)
  then have l: "16 * l + 1 < 2 ^ 24" "16 * l < 2 ^ 24" by simp_all
  show ?case
  proof (cases "ls = []")
    case True
    have "(16 * l + 1) div 16 = l" by simp
    with True labelStack_step [OF l(1), of pre r l0] show ?thesis by simp
  next
    case False
    have "labelStack ((pre @ be_enc 3 (16 * l)) @ enc_stack ls @ r) (length (pre @ be_enc 3 (16 * l))) (of_nat l)
        = (length (pre @ be_enc 3 (16 * l)) + 3 * length ls, of_nat (last ls))"
      by (rule Cons.IH) (use False Cons.prems in simp_all)
    with False labelStack_step [OF l(2), of pre "enc_stack ls @ r" l0] show ?thesis
      by (simp add: enc_stack_Cons)
  qed
qed

lemma parseVPNNLRI_enc:
  assumes "nlri_wf v"
  shows "parseVPNNLRI (enc_nlri v @ r) =
    Some (show_rd (v_rd v), nlri_prefix v, of_nat (last (v_labels v)), length (enc_nlri v))"
proof -
  let ?k = "octets (v_plen v)"
  let ?d = "enc_stack (v_labels v) @ enc_rd (v_rd v) @ take ?k (v_ip v)"
  let ?i = "3 * length (v_labels v)"
  from assms have wf: "v_labels v \<noteq> []" "list_all (\<lambda>l. l < 2 ^ 20) (v_labels v)" "rd_wf (v_rd v)"
      "length (v_ip v) = 4" "v_plen v \<le> 32" "nlri_bits v < 256"
    by (simp_all add: nlri_wf_def)
  then have k: "?k \<le> 4" by (simp add: octets_def)
  have len: "length ?d = ?i + 8 + ?k"
    using wf k by simp
  have total: "(nlri_bits v + 7) div 8 = ?i + 8 + ?k"
    by (simp add: nlri_bits_def octets_def)
  have lab: "labelStack ?d 0 0 = (?i, of_nat (last (v_labels v)))"
    using labelStack_enc [OF wf(1,2), of "[]"] by simp
  have tail: "take 4 (take ?k (v_ip v) @ replicate 4 0) = take ?k (v_ip v) @ replicate (4 - ?k) 0"
    using wf k by simp
  have bits: "max 0 (int (nlri_bits v) - int (?i + 8) * 8) = int (v_plen v)"
    by (simp add: nlri_bits_def)
  have "length (take ?k (v_ip v) @ replicate (4 - ?k) 0) = 4"
    using wf k by simp
  then show ?thesis
    using wf k len total lab bits
    by (simp add: parseVPNNLRI_def enc_nlri_def idx_def slice_of_def slice_from_def Let_def
        nlri_prefix_def itoa_def ip_string_4 tail)
qed

end
