(* ===== verification/Vrf.thy ===== *)
theory Vrf
  imports GoStrings
begin

text \<open>
  \<^verbatim>\<open>internal/ingest/vrf.go\<close>: the resolver from kernel routing-table ids to VRF names. What
  \<^verbatim>\<open>netlink.LinkList\<close> returns during a call is the argument \<open>ll\<close> (\<^const>\<open>None\<close> for an error). The mutex
  only makes each access to the map atomic, so it does not appear.
\<close>

datatype link = VrfLink u32 string | OtherLink string

type_synonym link_list = "link list option"

record vrf_resolver =
  vr_m :: "(u32, string) gomap"

definition refresh_map :: "link list \<Rightarrow> (u32, string) gomap" where
  "refresh_map links =
     foldl (\<lambda>m l. case l of VrfLink t n \<Rightarrow> map_put t n m | OtherLink n \<Rightarrow> m) [] links"

definition Refresh :: "link_list \<Rightarrow> vrf_resolver \<Rightarrow> vrf_resolver" where
  "Refresh ll r = (case ll of None \<Rightarrow> r | Some links \<Rightarrow> r\<lparr>vr_m := refresh_map links\<rparr>)"

definition NewVRFResolver :: "link_list \<Rightarrow> vrf_resolver" where
  "NewVRFResolver ll = Refresh ll \<lparr>vr_m = []\<rparr>"

definition vrf_lookup :: "vrf_resolver \<Rightarrow> u32 \<Rightarrow> string option" where
  "vrf_lookup r table = map_of (vr_m r) table"

definition vrf_Name :: "link_list \<Rightarrow> u32 \<Rightarrow> vrf_resolver \<Rightarrow> string \<times> vrf_resolver" where
  "vrf_Name ll table r =
     (if table = 0 \<or> table = 254 then (''default'', r)
      else if table = 255 then (''local'', r)
      else case vrf_lookup r table of
        Some n \<Rightarrow> (n, r)
      | None \<Rightarrow>
          (let r' = Refresh ll r
           in case vrf_lookup r' table of
                Some n \<Rightarrow> (n, r')
              | None \<Rightarrow> (''table:'' @ dec (unat table), r')))"

definition NonDefaultNames :: "link_list \<Rightarrow> vrf_resolver \<Rightarrow> string list \<times> vrf_resolver" where
  "NonDefaultNames ll r = (let r' = Refresh ll r in (map snd (vr_m r'), r'))"

section \<open>Lemmas\<close>

text \<open>The VRF devices of a link list, as (table, name) pairs.\<close>

definition vrf_devs :: "link list \<Rightarrow> (u32 \<times> string) list" where
  "vrf_devs links = concat (map (\<lambda>l. case l of VrfLink t n \<Rightarrow> [(t, n)] | OtherLink n \<Rightarrow> []) links)"

lemma foldl_refresh:
  "foldl (\<lambda>m l. case l of VrfLink t n \<Rightarrow> map_put t n m | OtherLink n \<Rightarrow> m) m links =
   foldl (\<lambda>m (t, n). map_put t n m) m (vrf_devs links)"
  by (induction links arbitrary: m) (auto simp: vrf_devs_def split: link.splits)

lemma refresh_map_ok: "gomap_ok (refresh_map links)"
  unfolding refresh_map_def foldl_refresh by (rule gomap_ok_foldl_put) simp

text \<open>A refreshed map names exactly the tables of the VRF devices; a later device wins.\<close>

lemma map_of_refresh_map: "map_of (refresh_map links) = map_of (rev (vrf_devs links))"
  by (simp add: refresh_map_def foldl_refresh map_of_foldl_put)

lemma vrf_Name_hit:
  "t \<notin> {0, 254, 255} \<Longrightarrow> vrf_lookup r t = Some n \<Longrightarrow> vrf_Name ll t r = (n, r)"
  by (simp add: vrf_Name_def)

lemma vrf_Name_miss:
  "t \<notin> {0, 254, 255} \<Longrightarrow> vrf_lookup r t = None \<Longrightarrow>
    vrf_Name ll t r =
      (let r' = Refresh ll r
       in (case vrf_lookup r' t of None \<Rightarrow> ''table:'' @ dec (unat t) | Some n \<Rightarrow> n, r'))"
  by (simp add: vrf_Name_def Let_def split: option.splits)

text \<open>The resolver after a history of calls, each with what the kernel listed during it: \<^verbatim>\<open>Name\<close> of a
  table, or \<^verbatim>\<open>NonDefaultNames\<close>.\<close>

definition vrf_call :: "link_list \<times> u32 option \<Rightarrow> vrf_resolver \<Rightarrow> vrf_resolver" where
  "vrf_call c r = (case c of (ll, Some t) \<Rightarrow> snd (vrf_Name ll t r) | (ll, None) \<Rightarrow> snd (NonDefaultNames ll r))"

definition vrf_history :: "link_list \<Rightarrow> (link_list \<times> u32 option) list \<Rightarrow> vrf_resolver" where
  "vrf_history ll0 calls = foldl (\<lambda>r c. vrf_call c r) (NewVRFResolver ll0) calls"

definition vrf_device :: "link list \<Rightarrow> u32 \<Rightarrow> string option" where
  "vrf_device links t = map_of (rev (vrf_devs links)) t"

text \<open>The map is always what some listing gave, or empty.\<close>

lemma vrf_call_map: "vrf_call (ll, q) r = r \<or> vrf_call (ll, q) r = Refresh ll r"
  by (auto simp: vrf_call_def vrf_Name_def NonDefaultNames_def Let_def split: option.splits)

lemma vrf_history_listed:
  "vrf_lookup (vrf_history ll0 calls) t = Some n \<Longrightarrow>
    \<exists>links. (Some links = ll0 \<or> Some links \<in> fst ` set calls) \<and> vrf_device links t = Some n"
proof (induction calls rule: rev_induct)
  case Nil
  then show ?case
    by (auto simp: vrf_history_def NewVRFResolver_def Refresh_def vrf_lookup_def map_of_refresh_map vrf_device_def
        split: option.splits)
next
  case (snoc c calls)
  obtain ll q where c: "c = (ll, q)" by force
  let ?r = "vrf_history ll0 calls"
  have new: "vrf_history ll0 (calls @ [c]) = vrf_call (ll, q) ?r" by (simp add: vrf_history_def c)
  show ?case
  proof (cases "vrf_call (ll, q) ?r = ?r \<or> ll = None")
    case True
    with vrf_call_map [of ll q ?r] have "vrf_call (ll, q) ?r = ?r" by (auto simp: Refresh_def)
    with snoc new show ?thesis by auto
  next
    case False
    then obtain links where ll: "ll = Some links" by auto
    with False vrf_call_map [of ll q ?r] have "vrf_call (ll, q) ?r = Refresh (Some links) ?r" by simp
    with snoc.prems new have "vrf_device links t = Some n"
      by (simp add: Refresh_def vrf_lookup_def map_of_refresh_map vrf_device_def)
    with c ll show ?thesis by auto
  qed
qed

text \<open>
  C10: a routing table bound to a VRF device gets that device's name, whether the device was there when
  the resolver was made or appeared later, and whatever was looked up before: after any history of
  calls, successful listings or not, \<^verbatim>\<open>Name\<close> of a table that is not reserved is the name of its device
  now, or \<^verbatim>\<open>table:N\<close> if it has none, provided no listing of the past bound the table to another device.
\<close>

theorem vrf_Name_unless_renamed:
  assumes "\<And>links n. Some links = ll0 \<or> Some links \<in> fst ` set calls \<Longrightarrow> vrf_device links t = Some n \<Longrightarrow>
      vrf_device now t = Some n"
    and "t \<notin> {0, 254, 255}"
  shows "fst (vrf_Name (Some now) t (vrf_history ll0 calls)) =
    (case vrf_device now t of Some n \<Rightarrow> n | None \<Rightarrow> ''table:'' @ dec (unat t))"
proof (cases "vrf_lookup (vrf_history ll0 calls) t")
  case None
  with assms(2) show ?thesis
    by (simp add: vrf_Name_miss Let_def Refresh_def vrf_lookup_def map_of_refresh_map vrf_device_def)
next
  case (Some n)
  from vrf_history_listed [OF this] assms(1) have "vrf_device now t = Some n" by blast
  with Some assms(2) show ?thesis by (simp add: vrf_Name_hit)
qed

text \<open>The device appears after a failed listing and a lookup that missed it.\<close>

theorem vrf_Name_unless_renamed_witness:
  "fst (vrf_Name (Some [OtherLink ''eth0'', VrfLink 100 ''cust'']) 100
    (vrf_history None [(Some [OtherLink ''eth0''], Some 100), (None, None)])) = ''cust''"
proof -
  let ?now = "[OtherLink ''eth0'', VrfLink 100 ''cust'']" and ?calls = "[(Some [OtherLink ''eth0''], Some 100), (None, None)]"
  have "vrf_device ?now 100 = Some n" if "Some links = None \<or> Some links \<in> fst ` set ?calls" "vrf_device links 100 = Some n" for links n
    using that by (auto simp: vrf_device_def vrf_devs_def)
  then have "fst (vrf_Name (Some ?now) 100 (vrf_history None ?calls)) =
      (case vrf_device ?now 100 of Some n \<Rightarrow> n | None \<Rightarrow> ''table:'' @ dec (unat (100 :: u32)))"
    by (intro vrf_Name_unless_renamed) simp_all
  then show ?thesis by (simp add: vrf_device_def vrf_devs_def)
qed

text \<open>
  A table the resolver already knows is answered from the map without looking at the kernel,
  whatever devices exist now: after the VRF of a table is renamed or replaced by another one, the
  routes of the table are still filed under the old name.
\<close>

theorem vrf_Name_stale_on_hit:
  assumes "t \<notin> {0, 254, 255}" and "map_of (rev (vrf_devs old)) t = Some n"
  shows "vrf_Name (Some new) t (NewVRFResolver (Some old)) = (n, NewVRFResolver (Some old))"
  by (rule vrf_Name_hit)
     (use assms in \<open>simp_all add: NewVRFResolver_def Refresh_def vrf_lookup_def map_of_refresh_map\<close>)

theorem vrf_Name_stale_on_hit_witness:
  "fst (vrf_Name (Some [VrfLink 100 ''blue'']) 100 (NewVRFResolver (Some [VrfLink 100 ''red'']))) = ''red''"
  using vrf_Name_stale_on_hit [of 100 "[VrfLink 100 ''red'']" "''red''" "[VrfLink 100 ''blue'']"]
  by (simp add: vrf_devs_def)

end
