(* ===== verification/Bmp.thy ===== *)
theory Bmp
  imports Bmp_Codec Vrf
begin

text \<open>
  The BMP ingester of \<^verbatim>\<open>internal/ingest/bmp.go\<close>: its state (the VRF resolver and the map from
  route distinguishers to VRF names), its message handlers and the connection loop. A handler
  returns the new state and the calls it makes to the cache and the correlator, in order;
  \<^const>\<open>None\<close> is a run-time panic. Logging is left out.
\<close>

section \<open>State and paths\<close>

record bmp =
  b_vrf :: vrf_resolver
  b_rdVRF :: "string \<Rightarrow> string option"

definition NewBMP :: "link_list \<Rightarrow> bmp" where
  "NewBMP ll = \<lparr>b_vrf = NewVRFResolver ll, b_rdVRF = Map.empty\<rparr>"

definition neighborElems :: "string \<Rightarrow> string \<Rightarrow> string \<Rightarrow> elems" where
  "neighborElems vrf peer leaf =
     [el ''network-instances'',
      elk ''network-instance'' [(''name'', vrf)],
      el ''protocols'',
      elk ''protocol'' [(''identifier'', ''BGP''), (''name'', ''bgp'')],
      el ''bgp'',
      el ''neighbors'',
      elk ''neighbor'' [(''neighbor-address'', peer)],
      el ''state'',
      el leaf]"

definition vpnRouteElems :: "string \<Rightarrow> string \<Rightarrow> string \<Rightarrow> elems" where
  "vpnRouteElems rd pfx leaf =
     [el ''bgp-rib'',
      el ''afi-safis'',
      elk ''afi-safi'' [(''name'', ''l3vpn-ipv4-unicast'')],
      el ''routes'',
      elk ''route'' [(''rd'', rd), (''prefix'', pfx)]] @ state_leaf leaf"


section \<open>Peer state\<close>

text \<open>The VRF of a route distinguisher: known already, else from the Peer Up message, else the only
  VRF device of the node, else the distinguisher itself (which is not remembered).\<close>

definition learnVRF :: "link_list \<Rightarrow> bytes \<Rightarrow> bool \<Rightarrow> string \<Rightarrow> bmp \<Rightarrow> (string \<times> bmp) option" where
  "learnVRF ll body up rd b =
     (case b_rdVRF b rd of
        Some name \<Rightarrow> Some (name, b)
      | None \<Rightarrow> do {
          name \<leftarrow> (if up then peerUpVRF body else Some '''');
          let (name, b) =
            (if name = '''' then
               (let (names, r) = NonDefaultNames ll (b_vrf b); b = b\<lparr>b_vrf := r\<rparr>
                in case names of [n] \<Rightarrow> (n, b) | _ \<Rightarrow> (name, b))
             else (name, b));
          Some (if name \<noteq> '''' then (name, b\<lparr>b_rdVRF := (b_rdVRF b)(rd \<mapsto> name)\<rparr>)
                else (rd, b)) })"

definition peerState :: "link_list \<Rightarrow> bytes \<Rightarrow> bool \<Rightarrow> bmp \<Rightarrow> (bmp \<times> eff list) option" where
  "peerState ll body up b = do {
     (peer, peerAS, _, rd, ok) \<leftarrow> perPeer body;
     if \<not> ok \<or> is_unspecified peer then Some (b, [])
     else do {
       (vrf, b) \<leftarrow> (if rd \<noteq> '''' then learnVRF ll body up rd b else Some (''default'', b));
       let st = (if up then ''ESTABLISHED'' else ''IDLE'');
       let ups = [leafUpdate (neighborElems vrf (ip_string peer) ''session-state'') st];
       let ups = (if up \<and> peerAS \<noteq> 0
                  then ups @ [leafUpdate (neighborElems vrf (ip_string peer) ''peer-as'') (dec (unat peerAS))]
                  else ups);
       Some (b, [CacheUpdate ''openconfig'' ups []]) } }"


section \<open>Route monitoring\<close>

definition writeVPNRoute ::
    "ip \<Rightarrow> string \<Rightarrow> string \<Rightarrow> u32 \<Rightarrow> ip \<Rightarrow> string list \<Rightarrow> bool \<Rightarrow> eff list" where
  "writeVPNRoute peer rd pfx label nh rts withdraw =
     (if withdraw then
        [CacheUpdate ''frr'' [] [vpnRouteElems rd pfx ''''],
         Emit ''bmp'' ''vpn-withdraw'' pfx (''rd='' @ rd @ '' peer='' @ ip_string peer) False]
      else
        (let nhStr = (if nh \<noteq> [] then ip_string nh else ''-'');
             rtStr = join '','' rts
         in [Emit ''bmp'' ''vpn-announce'' pfx (''rd='' @ rd @ '' peer='' @ ip_string peer) False,
             CacheUpdate ''frr''
               [leafUpdate (vpnRouteElems rd pfx ''label'') (dec (unat label)),
                leafUpdate (vpnRouteElems rd pfx ''next-hop'') nhStr,
                leafUpdate (vpnRouteElems rd pfx ''route-target'') rtStr,
                leafUpdate (vpnRouteElems rd pfx ''peer'') (ip_string peer)] []]))"

text \<open>The loop of \<^verbatim>\<open>handleMP\<close> over the NLRI; it stops at the first one that does not parse.\<close>

function nlriLoop :: "ip \<Rightarrow> ip \<Rightarrow> string list \<Rightarrow> bool \<Rightarrow> bytes \<Rightarrow> eff list option" where
  "nlriLoop peer nh rts withdraw p =
     (if p = [] then Some []
      else do {
        (rd, pfx, label, n) \<leftarrow> parseVPNNLRI p;
        if n = 0 then Some []
        else do {
          q \<leftarrow> slice_from p n;
          es \<leftarrow> nlriLoop peer nh rts withdraw q;
          Some (writeVPNRoute peer rd pfx label nh rts withdraw @ es) } })"
  by pat_completeness auto
termination
  by (relation "measure (\<lambda>(a, b, c, d, p). length p)") (auto simp: slice_from_def split: if_splits)

declare nlriLoop.simps [simp del]

definition handleMP :: "ip \<Rightarrow> bytes \<Rightarrow> string list \<Rightarrow> bool \<Rightarrow> eff list option" where
  "handleMP peer v rts withdraw =
     (if length v < 3 then Some []
      else do {
        h \<leftarrow> slice_of v 0 2; afi \<leftarrow> be16 h;
        safi \<leftarrow> idx v 2;
        if afi \<noteq> afiIPv4 \<or> safi \<noteq> safiMPLSVPN then Some []
        else do {
          p \<leftarrow> slice_from v 3;
          if withdraw then nlriLoop peer [] rts withdraw p
          else if length p < 1 then Some []
          else do {
            n \<leftarrow> idx p 0;
            let nhLen = unat n;
            p \<leftarrow> slice_from p 1;
            if length p < nhLen then Some []
            else do {
              nh \<leftarrow> (if 12 \<le> nhLen then slice_of p 8 12 else Some []);
              p \<leftarrow> slice_from p nhLen;
              if length p < 1 then Some []
              else do {
                p \<leftarrow> slice_from p 1;
                nlriLoop peer nh rts withdraw p } } } } })"

definition parseUpdate :: "ip \<Rightarrow> bytes \<Rightarrow> eff list option" where
  "parseUpdate peer m =
     (if length m < bgpHdrLen \<or> m ! 18 \<noteq> bgpUpdate then Some []
      else do {
        p \<leftarrow> slice_from m bgpHdrLen;
        if length p < 2 then Some []
        else do {
          h \<leftarrow> slice_of p 0 2; w \<leftarrow> be16 h;
          let wLen = unat w;
          p \<leftarrow> slice_from p 2;
          if length p < wLen + 2 then Some []
          else do {
            p \<leftarrow> slice_from p wLen;
            h \<leftarrow> slice_of p 0 2; l \<leftarrow> be16 h;
            let paLen = unat l;
            p \<leftarrow> slice_from p 2;
            if length p < paLen then Some []
            else do {
              a \<leftarrow> walkAttrs (take paLen p) (drop paLen p)
                     \<lparr>mp_reach = None, mp_unreach = None, mp_rts = []\<rparr>;
              es1 \<leftarrow> (case mp_reach a of None \<Rightarrow> Some [] | Some v \<Rightarrow> handleMP peer v (mp_rts a) False);
              es2 \<leftarrow> (case mp_unreach a of None \<Rightarrow> Some [] | Some v \<Rightarrow> handleMP peer v [] True);
              Some (es1 @ es2) } } } })"

definition routeMon :: "bytes \<Rightarrow> eff list option" where
  "routeMon body = do {
     (peer, _, _, _, ok) \<leftarrow> perPeer body;
     if \<not> ok then Some []
     else do { m \<leftarrow> slice_from body bmpPerPeerLen; parseUpdate peer m } }"


section \<open>The connection loop\<close>

definition bmp_dispatch :: "link_list \<Rightarrow> byte \<Rightarrow> bytes \<Rightarrow> bmp \<Rightarrow> (bmp \<times> eff list) option" where
  "bmp_dispatch ll ty body b =
     (if ty = bmpPeerUp then peerState ll body True b
      else if ty = bmpPeerDown then peerState ll body False b
      else if ty = bmpRouteMon then map_option (\<lambda>es. (b, es)) (routeMon body)
      else Some (b, []))"

text \<open>
  \<^verbatim>\<open>BMP.handle\<close> on the bytes a connection delivers before it closes; \<open>env k\<close> is what the kernel
  answers to a link listing while message \<open>k\<close> is handled. The loop ends at the end of the stream,
  on a bad version, on a length below the header's, and in the middle of a message.
\<close>

function bmp_handle ::
    "(nat \<Rightarrow> link_list) \<Rightarrow> nat \<Rightarrow> bytes \<Rightarrow> bmp \<Rightarrow> (bmp \<times> eff list) option" where
  "bmp_handle env k inp b =
     (if length inp < bmpHdrLen then Some (b, [])
      else do {
        v \<leftarrow> idx inp 0;
        if v \<noteq> bmpVersion then Some (b, [])
        else do {
          h \<leftarrow> slice_of inp 1 5; l \<leftarrow> be32 h;
          let msgLen = unat l;
          if msgLen < bmpHdrLen then Some (b, [])
          else if length inp < msgLen then Some (b, [])
          else do {
            ty \<leftarrow> idx inp 5;
            body \<leftarrow> slice_of inp bmpHdrLen msgLen;
            (b', es) \<leftarrow> bmp_dispatch (env k) ty body b;
            (b'', es') \<leftarrow> bmp_handle env (Suc k) (drop msgLen inp) b';
            Some (b'', es @ es') } } })"
  by pat_completeness auto
termination
  by (relation "measure (\<lambda>(e, k, inp, b). length inp)") auto

declare bmp_handle.simps [simp del]

end
