(* ===== verification/Framing.thy ===== *)
theory Framing
  imports Gnmi
begin

text \<open>
  The contract the two connection loops share (\<^verbatim>\<open>BMP.handle\<close> and \<^verbatim>\<open>FPM.handle\<close>): a stream is a
  sequence of frames, each with a header that gives its whole length; the loop hands each complete
  frame to the component and stops at the end of the stream, inside a frame, or at a header it
  rejects. The locale fixes the loop and its parameters and assumes its unfolding; what the loop
  does with a sequence of frames is proved once here.
\<close>

fun fold_frames ::
    "(nat \<Rightarrow> bytes \<Rightarrow> 's \<Rightarrow> ('s \<times> eff list) option) \<Rightarrow> nat \<Rightarrow> bytes list \<Rightarrow> 's \<Rightarrow> ('s \<times> eff list) option" where
  "fold_frames d k [] s = Some (s, [])"
| "fold_frames d k (f # fs) s = do {
     (s', es) \<leftarrow> d k f s;
     (s'', es') \<leftarrow> fold_frames d (Suc k) fs s';
     Some (s'', es @ es') }"

locale framed_loop =
  fixes hdr :: nat
    and flen :: "bytes \<Rightarrow> nat option"
    and disp :: "nat \<Rightarrow> bytes \<Rightarrow> 's \<Rightarrow> ('s \<times> eff list) option"
    and loop :: "nat \<Rightarrow> bytes \<Rightarrow> 's \<Rightarrow> ('s \<times> eff list) option"
  assumes hdr_pos: "0 < hdr"
    and flen_ge: "flen f = Some n \<Longrightarrow> hdr \<le> n"
    and flen_hdr: "hdr \<le> length f \<Longrightarrow> flen (f @ r) = flen f"
    and loop_unfold:
      "loop k inp s =
         (if length inp < hdr then Some (s, [])
          else case flen inp of
            None \<Rightarrow> Some (s, [])
          | Some n \<Rightarrow>
              if length inp < n then Some (s, [])
              else do {
                (s', es) \<leftarrow> disp k (take n inp) s;
                (s'', es') \<leftarrow> loop (Suc k) (drop n inp) s';
                Some (s'', es @ es') })"
begin

lemma loop_frame:
  assumes "hdr \<le> length f" "flen f = Some (length f)"
  shows "loop k (f @ rest) s = do {
     (s', es) \<leftarrow> disp k f s;
     (s'', es') \<leftarrow> loop (Suc k) rest s';
     Some (s'', es @ es') }"
  using assms by (subst loop_unfold) (simp add: flen_hdr)

text \<open>The frames of a stream are handled one after the other, in order, and then the rest.\<close>

lemma loop_frames:
  assumes "\<And>f. f \<in> set fs \<Longrightarrow> flen f = Some (length f)"
  shows "loop k (concat fs @ rest) s = do {
     (s', es) \<leftarrow> fold_frames disp k fs s;
     (s'', es') \<leftarrow> loop (k + length fs) rest s';
     Some (s'', es @ es') }"
  using assms
proof (induction fs arbitrary: k s)
  case Nil
  show ?case by (cases "loop k rest s") auto
next
  case (Cons f fs)
  have f: "flen f = Some (length f)" by (rule Cons.prems) simp
  have "hdr \<le> length f" using flen_ge [OF f] .
  then have "loop k (concat (f # fs) @ rest) s = do {
     (s', es) \<leftarrow> disp k f s;
     (s'', es') \<leftarrow> loop (Suc k) (concat fs @ rest) s';
     Some (s'', es @ es') }"
    using loop_frame [OF _ f] by simp
  with Cons show ?case
    by (cases "disp k f s") (auto simp: bind_assoc split: Option.bind_splits)
qed

text \<open>An incomplete last frame is dropped.\<close>

lemma loop_incomplete:
  "length rest < hdr \<Longrightarrow> loop k rest s = Some (s, [])"
  "flen rest = Some n \<Longrightarrow> length rest < n \<Longrightarrow> loop k rest s = Some (s, [])"
  "flen rest = None \<Longrightarrow> loop k rest s = Some (s, [])"
  by (subst loop_unfold, simp)+

text \<open>If no frame is refused by its handler, the loop returns.\<close>

lemma loop_returns:
  assumes "\<And>k f s. \<exists>r. disp k f s = Some r"
  shows "\<exists>r. loop k inp s = Some r"
proof (induction inp arbitrary: k s rule: length_induct)
  case (1 inp)
  show ?case
  proof (cases "hdr \<le> length inp \<and> (\<exists>n. flen inp = Some n \<and> n \<le> length inp)")
    case False
    then show ?thesis by (subst loop_unfold) (auto simp: not_less split: option.splits)
  next
    case True
    then obtain n where n: "flen inp = Some n" "n \<le> length inp" by blast
    then have "length (drop n inp) < length inp"
      using flen_ge [OF n(1)] hdr_pos by simp
    with "1.IH" have IH: "\<exists>r. loop (Suc k) (drop n inp) s' = Some r" for s' by blast
    obtain s' es where d: "disp k (take n inp) s = Some (s', es)"
      using assms [of k "take n inp" s] by auto
    obtain s'' es' where "loop (Suc k) (drop n inp) s' = Some (s'', es')"
      using IH [of s'] by auto
    with True n d show ?thesis by (subst loop_unfold) simp
  qed
qed

end

end
