(* ===== verification/Bmp_Props.thy ===== *)
theory Bmp_Props
  imports Bmp Framing
begin

text \<open>
  What the BMP ingester does: framing of the stream, panic freedom up to one malformed input, the
  round trip of VPN routes from the wire to the cache, withdrawal, and the resolution of a peer's
  VRF. The properties of the manifest stand after the lemmas they use.
\<close>

section \<open>Framing\<close>

definition bmp_flen :: "bytes \<Rightarrow> nat option" where
  "bmp_flen f =
     (if f ! 0 \<noteq> 3 then None
      else let n = be_val (take 4 (drop 1 f)) in if n < 6 then None else Some n)"

interpretation bmp_stream: framed_loop 6 bmp_flen
  "\<lambda>k f b. bmp_dispatch (env k) (f ! 5) (drop 6 f) b" "bmp_handle env" for env
proof unfold_locales
  fix k inp and s :: bmp
  show "bmp_handle env k inp s =
         (if length inp < 6 then Some (s, [])
          else case bmp_flen inp of
            None \<Rightarrow> Some (s, [])
          | Some n \<Rightarrow>
              if length inp < n then Some (s, [])
              else do {
                (s', es) \<leftarrow> bmp_dispatch (env k) (take n inp ! 5) (drop 6 (take n inp)) s;
                (s'', es') \<leftarrow> bmp_handle env (Suc k) (drop n inp) s';
                Some (s'', es @ es') })"
    by (subst bmp_handle.simps)
       (simp add: bmp_flen_def go_simps not_less Let_def unat_be32 drop_take)
qed (auto simp: bmp_flen_def Let_def nth_append split: if_splits)

text \<open>The wire form of a message, and the reference: the messages handled one after the other.\<close>

definition bmp_frame :: "byte \<Rightarrow> bytes \<Rightarrow> bytes" where
  "bmp_frame ty body = 3 # be_enc 4 (6 + length body) @ ty # body"

fun bmp_run ::
    "(nat \<Rightarrow> link_list) \<Rightarrow> nat \<Rightarrow> (byte \<times> bytes) list \<Rightarrow> bmp \<Rightarrow> (bmp \<times> eff list) option" where
  "bmp_run env k [] b = Some (b, [])"
| "bmp_run env k ((ty, body) # ms) b = do {
     (b', es) \<leftarrow> bmp_dispatch (env k) ty body b;
     (b'', es') \<leftarrow> bmp_run env (Suc k) ms b';
     Some (b'', es @ es') }"

lemma length_bmp_frame [simp]: "length (bmp_frame ty body) = 6 + length body"
  by (simp add: bmp_frame_def)

lemma bmp_frame_parts:
  "bmp_frame ty body ! 0 = 3" "bmp_frame ty body ! 5 = ty" "drop 6 (bmp_frame ty body) = body"
  by (simp_all add: bmp_frame_def nth_append)

lemma bmp_flen_frame:
  "length body < 4294967290 \<Longrightarrow> bmp_flen (bmp_frame ty body @ r) = Some (6 + length body)"
  by (simp add: bmp_flen_def bmp_frame_def be_val_enc Let_def)

lemma fold_frames_bmp:
  "fold_frames (\<lambda>k f b. bmp_dispatch (env k) (f ! 5) (drop 6 f) b) k
     (map (\<lambda>(ty, body). bmp_frame ty body) ms) b = bmp_run env k ms b"
proof (induction ms arbitrary: k b)
  case (Cons m ms)
  then show ?case by (cases m) (simp add: bmp_frame_parts)
qed simp

lemma bmp_handle_cut:
  assumes "length body < 4294967290" "j < 6 + length body"
  shows "bmp_handle env k (take j (bmp_frame ty body)) b = Some (b, [])"
proof (cases "j < 6")
  case True
  then show ?thesis by (intro bmp_stream.loop_incomplete) simp
next
  case False
  then have "bmp_flen (take j (bmp_frame ty body)) = Some (6 + length body)"
    using bmp_flen_frame [OF assms(1), of ty "[]"]
      bmp_stream.flen_hdr [of "take j (bmp_frame ty body)" "drop j (bmp_frame ty body)"] assms(2)
    by simp
  then show ?thesis
    using assms(2) by (intro bmp_stream.loop_incomplete(2)) auto
qed

text \<open>
  C11: a BMP connection is handled message by message: on the wire form of any sequence of messages,
  followed by a message cut off anywhere before its end (the connection closes there), the loop
  handles exactly the complete messages, in order, and nothing of the incomplete one.
\<close>

theorem bmp_stream_in_order:
  assumes "\<And>ty body. (ty, body) \<in> set ms \<Longrightarrow> length body < 4294967290"
    and "length tail < 4294967290" and "j < 6 + length tail"
  shows "bmp_handle env k
      (concat (map (\<lambda>(ty, body). bmp_frame ty body) ms) @ take j (bmp_frame ty' tail)) b =
    bmp_run env k ms b"
proof -
  let ?fs = "map (\<lambda>(ty, body). bmp_frame ty body) ms"
  have "bmp_flen f = Some (length f)" if "f \<in> set ?fs" for f
    using that assms(1) bmp_flen_frame [where r = "[]"] by force
  then have "bmp_handle env k (concat ?fs @ take j (bmp_frame ty' tail)) b = do {
      (b', es) \<leftarrow> bmp_run env k ms b;
      (b'', es') \<leftarrow> bmp_handle env (k + length ?fs) (take j (bmp_frame ty' tail)) b';
      Some (b'', es @ es') }"
    by (subst bmp_stream.loop_frames) (simp_all add: fold_frames_bmp)
  then show ?thesis
    using assms(2,3) by (cases "bmp_run env k ms b") (auto simp: bmp_handle_cut)
qed

theorem bmp_stream_in_order_witness:
  "bmp_handle (\<lambda>_. None) 0 (bmp_frame 1 [7] @ take 3 (bmp_frame 0 [])) (NewBMP None) =
    Some (NewBMP None, [])"
  using bmp_stream_in_order [of "[(1, [7])]" "[]" 3 "\<lambda>_. None" 0 0 "NewBMP None"]
  by (simp add: bmp_dispatch_def)



section \<open>Panic freedom\<close>

lemma nlriLoop_total: "\<exists>es. nlriLoop peer nh rts wd p = Some es"
proof (induction p rule: length_induct)
  case (1 p)
  obtain rd pfx label n where n: "parseVPNNLRI p = Some (rd, pfx, label, n)"
    using parseVPNNLRI_total [of p] by auto
  show ?case
  proof (cases "p = [] \<or> n = 0")
    case True
    then show ?thesis by (subst nlriLoop.simps) (auto simp: n)
  next
    case False
    then have "\<exists>es. nlriLoop peer nh rts wd (drop n p) = Some es"
      using "1.IH" by simp
    with False show ?thesis
      using parseVPNNLRI_consumed [OF n] by (subst nlriLoop.simps) (auto simp: n go_simps)
  qed
qed

lemma handleMP_total: "\<exists>es. handleMP peer v rts wd = Some es"
  using nlriLoop_total
  by (auto simp: handleMP_def go_simps not_less Let_def)

text \<open>A BGP UPDATE as its five parts: the marker and length (18 bytes, not read), the withdrawn
  routes, the path attributes and the NLRI that follow them.\<close>

definition bgp_update :: "bytes \<Rightarrow> bytes \<Rightarrow> bytes \<Rightarrow> bytes \<Rightarrow> bytes" where
  "bgp_update mk wd attrs nlri =
     mk @ 2 # be_enc 2 (length wd) @ wd @ be_enc 2 (length attrs) @ attrs @ nlri"

abbreviation (input) no_mp :: mp_attrs where
  "no_mp \<equiv> \<lparr>mp_reach = None, mp_unreach = None, mp_rts = []\<rparr>"

definition mp_effects :: "ip \<Rightarrow> mp_attrs \<Rightarrow> eff list option" where
  "mp_effects peer a = do {
     es1 \<leftarrow> (case mp_reach a of None \<Rightarrow> Some [] | Some v \<Rightarrow> handleMP peer v (mp_rts a) False);
     es2 \<leftarrow> (case mp_unreach a of None \<Rightarrow> Some [] | Some v \<Rightarrow> handleMP peer v [] True);
     Some (es1 @ es2) }"

lemma mp_effects_total: "\<exists>es. mp_effects peer a = Some es"
proof -
  obtain es1 where "(case mp_reach a of None \<Rightarrow> Some [] | Some v \<Rightarrow> handleMP peer v (mp_rts a) False) = Some es1"
    using handleMP_total [of peer "the (mp_reach a)" "mp_rts a" False] by (cases "mp_reach a") auto
  moreover obtain es2 where "(case mp_unreach a of None \<Rightarrow> Some [] | Some v \<Rightarrow> handleMP peer v [] True) = Some es2"
    using handleMP_total [of peer "the (mp_unreach a)" "[]" True] by (cases "mp_unreach a") auto
  ultimately show ?thesis by (simp add: mp_effects_def)
qed

lemma parseUpdate_update:
  assumes "length mk = 18" "length wd < 65536" "length attrs < 65536"
  shows "parseUpdate peer (bgp_update mk wd attrs nlri) =
    do { a \<leftarrow> walkAttrs attrs nlri no_mp; mp_effects peer a }"
  using assms
  by (simp add: parseUpdate_def bgp_update_def mp_effects_def slice_from_def slice_of_def nth_append)

lemma parseUpdate_other:
  "length m < 19 \<or> m ! 18 \<noteq> 2 \<Longrightarrow> parseUpdate peer m = Some []"
  "length mk = 18 \<Longrightarrow> length p < 2 \<Longrightarrow> parseUpdate peer (mk @ 2 # p) = Some []"
  "length mk = 18 \<Longrightarrow> w < 65536 \<Longrightarrow> length q < w + 2 \<Longrightarrow>
    parseUpdate peer (mk @ 2 # be_enc 2 w @ q) = Some []"
  "length mk = 18 \<Longrightarrow> length wd < 65536 \<Longrightarrow> l < 65536 \<Longrightarrow> length r < l \<Longrightarrow>
    parseUpdate peer (mk @ 2 # be_enc 2 (length wd) @ wd @ be_enc 2 l @ r) = Some []"
  by (auto simp: parseUpdate_def slice_from_def slice_of_def nth_append)

text \<open>Every message is ignored or is an UPDATE with its parts.\<close>

lemma parseUpdate_cases:
  obtains (ignored) "parseUpdate peer m = Some []"
  | (update) mk wd attrs nlri where "m = bgp_update mk wd attrs nlri" "length mk = 18"
      "length wd < 65536" "length attrs < 65536"
proof (cases "length m < 19 \<or> m ! 18 \<noteq> 2")
  case True
  with that(1) show ?thesis by (simp add: parseUpdate_other)
next
  case False
  then have m: "m = take 18 m @ 2 # drop 19 m" "length (take 18 m) = 18"
    using id_take_nth_drop [of 18 m] by simp_all
  then obtain mk p where m: "m = mk @ 2 # p" "length mk = 18" by blast
  show ?thesis
  proof (cases "length p < 2")
    case True
    with that(1) m show ?thesis by (simp add: parseUpdate_other)
  next
    case False
    then obtain w q where p: "p = be_enc 2 w @ q" "w < 65536" by (auto elim: front2E simp: not_less)
    show ?thesis
    proof (cases "length q < w + 2")
      case True
      with that(1) m p show ?thesis by (simp add: parseUpdate_other)
    next
      case False
      then have "w \<le> length q" by simp
      then obtain wd q' where q: "q = wd @ q'" "length wd = w" by (rule splitE)
      with False have "2 \<le> length q'" by simp
      then obtain l r where q': "q' = be_enc 2 l @ r" "l < 65536" by (rule front2E)
      show ?thesis
      proof (cases "length r < l")
        case True
        with that(1) m p q q' parseUpdate_other(4) [of mk wd l r peer] show ?thesis by simp
      next
        case False
        then have "l \<le> length r" by simp
        then obtain attrs nlri where "r = attrs @ nlri" "length attrs = l" by (rule splitE)
        with m p q q' that(2) [of mk wd attrs nlri] show ?thesis by (simp add: bgp_update_def)
      qed
    qed
  qed
qed


lemma perPeer_prefix: "length h = 42 \<Longrightarrow> perPeer (h @ m) = perPeer h"
  by (simp add: perPeer_def slice_of_def idx_def nth_append)

lemma perPeer_42: "length h = 42 \<Longrightarrow> \<exists>peer as pt rd. perPeer h = Some (peer, as, pt, rd, True)"
  using perPeer_total [of h] perPeer_ok_iff [of h] by fastforce

lemma routeMon_42:
  assumes "length h = 42"
  obtains peer where "\<And>m. routeMon (h @ m) = parseUpdate peer m"
proof -
  obtain peer as pt rd where "perPeer h = Some (peer, as, pt, rd, True)"
    using perPeer_42 [OF assms] by blast
  with assms have "routeMon (h @ m) = parseUpdate peer m" for m
    by (simp add: routeMon_def perPeer_prefix slice_from_def)
  then show thesis by (rule that)
qed

lemma routeMon_short: "length body < 42 \<Longrightarrow> routeMon body = Some []"
  by (simp add: routeMon_def perPeer_def)

lemma learnVRF_total: "\<exists>r. learnVRF ll body up rd b = Some r"
  using peerUpVRF_total [of body] by (auto simp: learnVRF_def Let_def split: option.splits prod.splits list.splits)

lemma peerState_total: "\<exists>r. peerState ll body up b = Some r"
proof -
  obtain peer as pt rd ok where pp: "perPeer body = Some (peer, as, pt, rd, ok)"
    using perPeer_total [of body] by auto
  obtain v b' where "learnVRF ll body up rd b = Some (v, b')"
    using learnVRF_total [of ll body up rd b] by auto
  with pp show ?thesis by (auto simp: peerState_def Let_def)
qed

text \<open>The wire form of a path attribute and what the walk does with it.\<close>

record attr =
  at_flags :: byte
  at_type :: byte
  at_val :: bytes

definition attr_ext :: "attr \<Rightarrow> bool" where
  "attr_ext a \<longleftrightarrow> at_flags a AND 0x10 \<noteq> 0"

definition enc_attr :: "attr \<Rightarrow> bytes" where
  "enc_attr a =
     at_flags a # at_type a #
       (if attr_ext a then be_enc 2 (length (at_val a)) else [of_nat (length (at_val a))]) @ at_val a"

definition attr_wf :: "attr \<Rightarrow> bool" where
  "attr_wf a \<longleftrightarrow> length (at_val a) < (if attr_ext a then 65536 else 256)"

definition attr_step :: "mp_attrs \<Rightarrow> attr \<Rightarrow> mp_attrs" where
  "attr_step acc a =
     (if at_type a = 14 then acc\<lparr>mp_reach := Some (at_val a)\<rparr>
      else if at_type a = 15 then acc\<lparr>mp_unreach := Some (at_val a)\<rparr>
      else if at_type a = 16 then acc\<lparr>mp_rts := ret parseRTs (at_val a)\<rparr>
      else acc)"

lemma walkAttrs_attr:
  assumes "attr_wf a"
  shows "walkAttrs (enc_attr a @ r) beyond acc = walkAttrs r beyond (attr_step acc a)"
proof (cases "attr_ext a")
  case True
  with assms have len: "length (at_val a) < 65536" by (simp add: attr_wf_def)
  have "at_flags a AND 0x10 \<noteq> 0" using True by (simp add: attr_ext_def)
  with True len show ?thesis
    by (subst walkAttrs.simps)
       (simp add: enc_attr_def slice_of_def idx_def attr_step_def parseRTs_total)
next
  case False
  with assms have len: "length (at_val a) < 256" by (simp add: attr_wf_def)
  have "at_flags a AND 0x10 = 0" using False by (simp add: attr_ext_def)
  with False len show ?thesis
    by (subst walkAttrs.simps)
       (simp add: enc_attr_def slice_of_def idx_def attr_step_def parseRTs_total)
qed

text \<open>The walk visits every attribute once, in order, whatever their kinds and lengths.\<close>

lemma walkAttrs_enc:
  "list_all attr_wf as \<Longrightarrow>
    walkAttrs (concat (map enc_attr as) @ r) beyond acc = walkAttrs r beyond (foldl attr_step acc as)"
  by (induction as arbitrary: acc) (auto simp: walkAttrs_attr)

lemma walkAttrs_short: "length r < 3 \<Longrightarrow> walkAttrs r beyond acc = Some acc"
  by (subst walkAttrs.simps) simp

lemma walkAttrs_cut: "f AND 0x10 \<noteq> 0 \<Longrightarrow> walkAttrs [f, t, x] [] acc = None"
  by (subst walkAttrs.simps) (simp add: idx_def slice_of_def)

lemma routeMon_cut:
  assumes "length h = 42" "length mk = 18" "length wd < 65536"
    and "list_all attr_wf as" "length (concat (map enc_attr as)) < 65533" "f AND 0x10 \<noteq> 0"
  shows "routeMon (h @ bgp_update mk wd (concat (map enc_attr as) @ [f, t, x]) []) = None"
proof -
  obtain peer where "\<And>m. routeMon (h @ m) = parseUpdate peer m"
    using routeMon_42 [OF assms(1)] by metis
  then show ?thesis
    using assms by (simp add: parseUpdate_update walkAttrs_enc walkAttrs_cut del: length_concat length_map)
qed

text \<open>An attribute list starts with fewer than three bytes, is an extended-length header cut at its third
  byte, starts with a whole attribute, or with one that claims more than there is.\<close>

lemma attrs_cases:
  obtains (short) "length attrs < 3"
  | (cut) f t x where "attrs = [f, t, x]" "f AND 0x10 \<noteq> 0"
  | (whole) a r where "attrs = enc_attr a @ r" "attr_wf a"
  | (over) "\<And>acc. walkAttrs attrs [] acc = Some acc"
proof (cases "length attrs < 3")
  case True
  with short show thesis .
next
  case False
  then obtain f t p where p: "attrs = f # t # p" "1 \<le> length p"
    by (metis One_nat_def Suc_leI length_0_conv length_Cons list.exhaust nat_neq_iff not_less_eq numeral_3_eq_3
        zero_less_Suc linorder_not_le le_zero_eq less_Suc_eq_le)
  show thesis
  proof (cases "f AND 0x10 \<noteq> 0")
    case ext: True
    show thesis
    proof (cases "length p < 2")
      case True
      with p(2) obtain x where "p = [x]" by (cases p) auto
      with cut p(1) ext show thesis by blast
    next
      case False
      then obtain l r where q: "p = be_enc 2 l @ r" "l < 65536" by (auto elim: front2E simp: not_less)
      show thesis
      proof (cases "length r < l")
        case True
        have "walkAttrs attrs [] acc = Some acc" for acc
          using True ext by (subst walkAttrs.simps) (simp add: p q idx_def slice_of_def)
        with over show thesis .
      next
        case False
        then obtain v r' where "r = v @ r'" "length v = l" by (metis not_less splitE)
        with whole [of "\<lparr>at_flags = f, at_type = t, at_val = v\<rparr>" r'] ext p(1) q show thesis
          by (simp add: enc_attr_def attr_wf_def attr_ext_def)
      qed
    qed
  next
    case short_hdr: False
    from p(2) obtain x r where x: "p = x # r" by (cases p) auto
    show thesis
    proof (cases "length r < unat x")
      case True
      have "walkAttrs attrs [] acc = Some acc" for acc
        using True short_hdr by (subst walkAttrs.simps) (simp add: p x idx_def)
      with over show thesis .
    next
      case False
      then obtain v r' where "r = v @ r'" "length v = unat x" by (metis not_less splitE)
      with whole [of "\<lparr>at_flags = f, at_type = t, at_val = v\<rparr>" r'] short_hdr p(1) x show thesis
        by (simp add: enc_attr_def attr_wf_def attr_ext_def)
    qed
  qed
qed

lemma walkAttrs_None:
  "walkAttrs attrs [] acc = None \<Longrightarrow>
    \<exists>as f t x. attrs = concat (map enc_attr as) @ [f, t, x] \<and> list_all attr_wf as \<and> f AND 0x10 \<noteq> 0"
proof (induction "length attrs" arbitrary: attrs acc rule: less_induct)
  case less
  show ?case
  proof (cases rule: attrs_cases [of attrs])
    case short
    with less.prems show ?thesis by (simp add: walkAttrs_short)
  next
    case (cut f t x)
    then show ?thesis by (intro exI [of _ "[]"]) simp
  next
    case (whole a r)
    with less.prems have "walkAttrs r [] (attr_step acc a) = None" by (simp add: walkAttrs_attr)
    moreover have "length r < length attrs" using whole by (simp add: enc_attr_def)
    ultimately obtain as f t x where "r = concat (map enc_attr as) @ [f, t, x]" "list_all attr_wf as" "f AND 0x10 \<noteq> 0"
      using less.hyps by blast
    with whole show ?thesis by (intro exI [of _ "a # as"]) simp
  next
    case over
    with less.prems show ?thesis by simp
  qed
qed

text \<open>The messages that end in a cut header.\<close>

definition cut_update :: "bytes \<Rightarrow> bool" where
  "cut_update body \<longleftrightarrow>
     (\<exists>h mk wd as f t x. body = h @ bgp_update mk wd (concat (map enc_attr as) @ [f, t, x]) [] \<and>
       length h = 42 \<and> length mk = 18 \<and> length wd < 65536 \<and> length (concat (map enc_attr as)) < 65533 \<and>
       list_all attr_wf as \<and> f AND 0x10 \<noteq> 0)"

text \<open>
  C12: which BMP messages make the ingester panic: exactly the Route Monitoring messages whose UPDATE
  has whole path attributes followed by the first three bytes of a header with the extended-length
  flag, and nothing after them. One such message from the BGP speaker takes the whole process down,
  since no handler recovers; every other message, however malformed, is handled.
\<close>

theorem bmp_panics_iff_cut_update:
  "bmp_dispatch ll ty body b = None \<longleftrightarrow> ty = 0 \<and> cut_update body"
proof
  assume panic: "bmp_dispatch ll ty body b = None"
  have ty: "ty = 0" and rm: "routeMon body = None"
    using panic peerState_total [of ll body True b] peerState_total [of ll body False b]
    by (auto simp: bmp_dispatch_def split: if_splits)
  then have "42 \<le> length body"
    using routeMon_short [of body] by (cases "length body < 42") auto
  then obtain h m where h: "body = h @ m" "length h = 42" by (rule splitE)
  obtain peer where "\<And>m. routeMon (h @ m) = parseUpdate peer m"
    using routeMon_42 [OF h(2)] by metis
  with rm h have none: "parseUpdate peer m = None" by simp
  show "ty = 0 \<and> cut_update body"
  proof (cases rule: parseUpdate_cases [of peer m])
    case ignored
    with none show ?thesis by simp
  next
    case (update mk wd attrs nlri)
    with none have walk: "walkAttrs attrs nlri no_mp = None"
      using mp_effects_total [of peer "the (walkAttrs attrs nlri no_mp)"]
      by (cases "walkAttrs attrs nlri no_mp") (auto simp: parseUpdate_update)
    then have "nlri = []" using walkAttrs_total [of nlri attrs no_mp] by auto
    with walk obtain as f t x where as: "attrs = concat (map enc_attr as) @ [f, t, x]" "list_all attr_wf as" "f AND 0x10 \<noteq> 0"
      using walkAttrs_None by blast
    with update(4) have "length (concat (map enc_attr as)) < 65533" by simp
    with ty h update as \<open>nlri = []\<close> show ?thesis unfolding cut_update_def by blast
  qed
next
  assume "ty = 0 \<and> cut_update body"
  then show "bmp_dispatch ll ty body b = None"
    using routeMon_cut by (auto simp: cut_update_def bmp_dispatch_def simp del: length_concat)
qed

theorem bmp_panics_iff_cut_update_witness:
  "bmp_dispatch None 0
     (replicate 42 0 @ bgp_update (replicate 18 255) [] ([64, 1, 1, 0] @ [0x90, 14, 0]) []) (NewBMP None) = None"
proof -
  let ?a = "\<lparr>at_flags = 64, at_type = 1, at_val = [0]\<rparr> :: attr"
  have a: "concat (map enc_attr [?a]) = [64, 1, 1, 0]" "list_all attr_wf [?a]"
    by (simp_all add: enc_attr_def attr_wf_def attr_ext_def)
  have "cut_update (replicate 42 0 @ bgp_update (replicate 18 255) [] (concat (map enc_attr [?a]) @ [0x90, 14, 0]) [])"
    unfolding cut_update_def
    by (rule exI [of _ "replicate 42 0"], rule exI [of _ "replicate 18 255"], rule exI [of _ "[]"], rule exI [of _ "[?a]"],
        rule exI [of _ "0x90"], rule exI [of _ 14], rule exI [of _ 0]) (use a in simp)
  then show ?thesis using bmp_panics_iff_cut_update [of None 0 _ "NewBMP None"] by (simp only: a(1))
qed


section \<open>VPN routes from the wire to the cache\<close>

definition enc_mp_reach :: "ip \<Rightarrow> vpn_nlri list \<Rightarrow> bytes" where
  "enc_mp_reach nh vs =
     be_enc 2 1 @ 128 # 12 # replicate 8 0 @ nh @ 0 # concat (map enc_nlri vs)"

definition enc_mp_unreach :: "vpn_nlri list \<Rightarrow> bytes" where
  "enc_mp_unreach vs = be_enc 2 1 @ 128 # concat (map enc_nlri vs)"

text \<open>What one NLRI makes the ingester do.\<close>

definition nlri_effs :: "ip \<Rightarrow> ip \<Rightarrow> string list \<Rightarrow> bool \<Rightarrow> vpn_nlri \<Rightarrow> eff list" where
  "nlri_effs peer nh rts wd v =
     writeVPNRoute peer (show_rd (v_rd v)) (nlri_prefix v) (of_nat (last (v_labels v))) nh rts wd"

lemma enc_nlri_not_Nil [simp]: "enc_nlri v \<noteq> []"
  by (simp add: enc_nlri_def)

lemma nlriLoop_enc:
  "list_all nlri_wf vs \<Longrightarrow>
    nlriLoop peer nh rts wd (concat (map enc_nlri vs)) = Some (concat (map (nlri_effs peer nh rts wd) vs))"
proof (induction vs)
  case Nil
  then show ?case by (simp add: nlriLoop.simps)
next
  case (Cons v vs)
  then show ?case
    by (subst nlriLoop.simps) (simp add: parseVPNNLRI_enc slice_from_def nlri_effs_def [abs_def])
qed

lemma handleMP_reach:
  assumes "length nh = 4" "list_all nlri_wf vs"
  shows "handleMP peer (enc_mp_reach nh vs) rts False = Some (concat (map (nlri_effs peer nh rts False) vs))"
  using assms be16_enc [of 1 "[]"]
  by (simp add: handleMP_def enc_mp_reach_def slice_of_def slice_from_def idx_def nth_append nlriLoop_enc)

lemma handleMP_unreach:
  "list_all nlri_wf vs \<Longrightarrow>
    handleMP peer (enc_mp_unreach vs) rts True = Some (concat (map (nlri_effs peer [] rts True) vs))"
  using be16_enc [of 1 "[]"]
  by (simp add: handleMP_def enc_mp_unreach_def slice_of_def slice_from_def idx_def nth_append nlriLoop_enc)

lemma foldl_attr_step:
  "mp_reach (foldl attr_step acc as) =
     (case filter (\<lambda>a. at_type a = 14) as of [] \<Rightarrow> mp_reach acc | xs \<Rightarrow> Some (at_val (last xs)))"
  "mp_unreach (foldl attr_step acc as) =
     (case filter (\<lambda>a. at_type a = 15) as of [] \<Rightarrow> mp_unreach acc | xs \<Rightarrow> Some (at_val (last xs)))"
  "mp_rts (foldl attr_step acc as) =
     (case filter (\<lambda>a. at_type a = 16) as of [] \<Rightarrow> mp_rts acc | xs \<Rightarrow> ret parseRTs (at_val (last xs)))"
  by (induction as arbitrary: acc) (auto simp: attr_step_def split: list.splits)


lemma routeMon_enc:
  assumes "length h = 42" "perPeer h = Some (peer, asn, pt, rd, True)"
    and "length mk = 18" "length wd < 65536" "length (concat (map enc_attr as)) < 65536"
    and "list_all attr_wf as"
  shows "routeMon (h @ bgp_update mk wd (concat (map enc_attr as)) nlri) =
    mp_effects peer (foldl attr_step no_mp as)"
  using assms walkAttrs_enc [of as "[]" nlri no_mp]
  by (simp add: routeMon_def perPeer_prefix slice_from_def parseUpdate_update walkAttrs_short
      del: length_concat length_map)

text \<open>
  C13: the VPN routes of a BGP UPDATE reach the cache as they were announced. For an UPDATE with one
  MP_REACH_NLRI, one MP_UNREACH_NLRI and one extended-communities attribute, in any order among any
  other attributes, in short or extended form, the ingester announces each reachable route, then
  withdraws each unreachable one, in their order, each with the distinguisher, the prefix, the
  bottom label, the next hop and all route targets the speaker encoded.
\<close>

theorem bmp_update_routes:
  assumes "length h = 42" "perPeer h = Some (peer, asn, pt, rd, True)"
    and "length mk = 18" "length wd < 65536" "length (concat (map enc_attr as)) < 65536"
    and "list_all attr_wf as"
    and "filter (\<lambda>a. at_type a = 14) as = [r]" "at_val r = enc_mp_reach nh vs"
    and "filter (\<lambda>a. at_type a = 15) as = [u]" "at_val u = enc_mp_unreach ws"
    and "filter (\<lambda>a. at_type a = 16) as = [c]" "at_val c = concat (map enc_comm cs)"
    and "length nh = 4" "list_all nlri_wf vs" "list_all nlri_wf ws" "list_all comm_wf cs"
  shows "bmp_dispatch ll 0 (h @ bgp_update mk wd (concat (map enc_attr as)) nlri) b =
    Some (b, concat (map (nlri_effs peer nh (concat (map comm_rts cs)) False) vs)
           @ concat (map (nlri_effs peer [] [] True) ws))"
proof -
  have "mp_reach (foldl attr_step no_mp as) = Some (enc_mp_reach nh vs)"
    "mp_unreach (foldl attr_step no_mp as) = Some (enc_mp_unreach ws)"
    "mp_rts (foldl attr_step no_mp as) = concat (map comm_rts cs)"
    using assms(7-12) parseRTs_enc [OF assms(16)] by (simp_all add: foldl_attr_step ret_eq)
  then show ?thesis
    using assms(13-15) routeMon_enc [OF assms(1-6), of nlri]
    by (simp add: bmp_dispatch_def mp_effects_def handleMP_reach handleMP_unreach)
qed

text \<open>A sample UPDATE: one route target, one reachable route, no withdrawal.\<close>

definition sample_nlri :: vpn_nlri where
  "sample_nlri = \<lparr>v_labels = [80], v_rd = RdAs2 65000 100, v_ip = [10, 1, 0, 0], v_plen = 16\<rparr>"

definition sample_attrs :: "attr list" where
  "sample_attrs =
     [\<lparr>at_flags = 192, at_type = 16, at_val = concat (map enc_comm [Rt (RdAs2 65000 1)])\<rparr>,
      \<lparr>at_flags = 0x90, at_type = 14, at_val = enc_mp_reach [10, 0, 0, 1] [sample_nlri]\<rparr>,
      \<lparr>at_flags = 0x80, at_type = 15, at_val = enc_mp_unreach []\<rparr>]"

lemma sample_wf:
  "list_all attr_wf sample_attrs" "length (concat (map enc_attr sample_attrs)) < 65536"
  "list_all nlri_wf [sample_nlri]"
  by (simp_all add: sample_attrs_def sample_nlri_def attr_wf_def attr_ext_def enc_attr_def enc_mp_reach_def
      enc_mp_unreach_def enc_nlri_def octets_def nlri_wf_def nlri_bits_def)

lemma sample_peer: "perPeer (replicate 42 0) = Some ([0, 0, 0, 0], 0, 0, [], True)"
proof -
  have "be_val (replicate n 0) = 0" for n by (induction n) auto
  moreover have "replicate 4 0 = [0, 0, 0, (0 :: byte)]" by (simp add: numeral_eq_Suc)
  ultimately show ?thesis
    by (simp add: perPeer_def idx_def slice_of_def allZero_def be32_def list_all_iff)
qed

theorem bmp_update_routes_witness:
  "bmp_dispatch None 0
      (replicate 42 0 @ bgp_update (replicate 18 255) [] (concat (map enc_attr sample_attrs)) []) (NewBMP None) =
    Some (NewBMP None,
      concat (map (nlri_effs [0, 0, 0, 0] [10, 0, 0, 1] (concat (map comm_rts [Rt (RdAs2 65000 1)])) False)
        [sample_nlri]) @ concat (map (nlri_effs [0, 0, 0, 0] [] [] True) []))"
  by (rule bmp_update_routes [where r = "sample_attrs ! 1" and u = "sample_attrs ! 2" and c = "sample_attrs ! 0"])
     (use sample_wf sample_peer in \<open>simp_all add: sample_attrs_def\<close>)

end
