(* ===== verification/Bmp_Store.thy ===== *)
theory Bmp_Store
  imports Bmp_Props
begin

text \<open>
  What a gNMI client sees of the BMP ingester: the table of VPN routes in the cache as a map keyed
  by distinguisher and prefix, the withdrawal that misses its route, and the neighbours' session
  states under the VRF their route distinguisher resolves to.
\<close>

section \<open>The table of VPN routes\<close>

lemma vpnRouteElems_eq [simp]:
  "vpnRouteElems rd pfx leaf = vpnRouteElems rd' pfx' leaf' \<longleftrightarrow> rd = rd' \<and> pfx = pfx' \<and> leaf = leaf'"
  by (auto simp: vpnRouteElems_def)

lemma vpnRouteElems_prefix [simp]:
  "prefix (vpnRouteElems rd pfx []) (vpnRouteElems rd' pfx' leaf) \<longleftrightarrow> rd = rd' \<and> pfx = pfx'"
  by (auto simp: vpnRouteElems_def)

text \<open>A route operation of the ingester and its effects; the table of a store, a row per key.\<close>

datatype vpn_op =
    Announce ip string string u32 ip "string list"
  | Withdraw ip string string

fun op_effs :: "vpn_op \<Rightarrow> eff list" where
  "op_effs (Announce peer rd pfx label nh rts) = writeVPNRoute peer rd pfx label nh rts False"
| "op_effs (Withdraw peer rd pfx) = writeVPNRoute peer rd pfx 0 [] [] True"

type_synonym vpn_row = "tval option list"

definition vpn_table :: "store \<Rightarrow> string \<times> string \<Rightarrow> vpn_row" where
  "vpn_table st = (\<lambda>(rd, pfx).
     map (\<lambda>leaf. store_look st ''frr'' (vpnRouteElems rd pfx leaf))
       [''label'', ''next-hop'', ''route-target'', ''peer''])"

text \<open>The specification: announcing sets the row of the key, withdrawing clears it.\<close>

fun op_spec :: "(string \<times> string \<Rightarrow> vpn_row) \<Rightarrow> vpn_op \<Rightarrow> (string \<times> string \<Rightarrow> vpn_row)" where
  "op_spec m (Announce peer rd pfx label nh rts) =
     m((rd, pfx) := map (\<lambda>s. Some (StringVal s))
         [dec (unat label), if nh \<noteq> [] then ip_string nh else ''-'', join '','' rts, ip_string peer])"
| "op_spec m (Withdraw peer rd pfx) = m((rd, pfx) := [None, None, None, None])"

lemma vpn_table_op: "vpn_table (apply_effs st (op_effs op)) = op_spec (vpn_table st) op"
  by (cases op)
     (auto simp: fun_eq_iff vpn_table_def writeVPNRoute_def leafUpdate_def strVal_def
       look_apply_upd look_apply_del simp del: apply_eff.simps(1))

text \<open>
  The VPN routes in the cache are a map from (distinguisher, prefix) to label, next hop, route
  targets and peer: for any sequence of announcements and withdrawals, applied to any cache, the
  rows a client reads are those of the map after the same sequence of insertions and deletions.
  Routes of other keys are never touched, and a withdrawal leaves nothing of its route behind.
\<close>

theorem vpn_table_refines:
  "vpn_table (apply_effs st (concat (map op_effs ops))) = foldl op_spec (vpn_table st) ops"
  by (induction ops arbitrary: st) (simp_all add: vpn_table_op)

text \<open>
  The rows are not kept for each peer: when two peers (two route reflectors, say) announce a route, the
  withdrawal by one of them clears the row, although the other still announces the route.
\<close>

theorem vpn_withdraw_of_other_peer:
  "vpn_table (apply_effs st (op_effs (Announce p1 rd pfx label nh rts) @ op_effs (Announce p2 rd pfx label' nh' rts') @
      op_effs (Withdraw p2 rd pfx))) (rd, pfx) = [None, None, None, None]"
  by (simp add: vpn_table_op del: op_effs.simps)


section \<open>The withdrawal that misses its route\<close>

text \<open>The withdrawal of a route with the three label octets of RFC 8277, whose lowest bit the RFC
  leaves open (its recommended value is \<^verbatim>\<open>0x800000\<close>).\<close>

definition enc_withdraw :: "byte \<Rightarrow> byte \<Rightarrow> byte \<Rightarrow> rd \<Rightarrow> nat \<Rightarrow> ip \<Rightarrow> bytes" where
  "enc_withdraw l0 l1 l2 r plen addr =
     be_enc 2 1 @ 128 # of_nat (88 + plen) # l0 # l1 # l2 # enc_rd r @ take (octets plen) addr"

lemma show_rd_not_Nil [simp]: "show_rd r \<noteq> []"
  by (cases r) auto

lemma formatRD_other: "2 \<le> be_val (take 2 b) \<and> 3 \<le> be_val (take 2 b) \<Longrightarrow> length b = 8 \<Longrightarrow> formatRD b = Some []"
  using unat_be16 [of b] by (auto simp: formatRD_def go_simps word_unat_eq_iff)

lemma parse_eaten_rd:
  assumes "even (unat l2)" "a < 65536" "odd (a div 256)" "a mod 256 \<noteq> 0" "plen \<le> 32" "length addr = 4"
    and d: "d = l0 # l1 # l2 # enc_rd (RdAs2 a n) @ take (octets plen) addr"
  shows "\<exists>pfx label k. parseVPNNLRI (of_nat (88 + plen) # d) = Some ('''', pfx, label, k)
    \<and> (k = 0 \<or> k = 1 + length d)"
proof -
  let ?k = "octets plen"
  have k: "?k \<le> 4" using assms(5) by (simp add: octets_def)
  have len: "length d = 11 + ?k" using d k assms(6) by (simp add: enc_rd_def)
  have total: "(88 + plen + 7) div 8 = 11 + ?k" by (simp add: octets_def)
  have e2: "be_enc 2 x = [of_nat (x div 256), of_nat (x mod 256)]" for x
    by (simp add: numeral_2_eq_2)
  have dd: "d = l0 # l1 # l2 # 0 # 0 # of_nat (a div 256) # of_nat (a mod 256) # be_enc 4 n @ take ?k addr"
    by (simp add: d enc_rd_def e2)
  have "a div 256 < 256" using assms(2) by auto
  then have "labelStack (l0 # l1 # l2 # 0 # 0 # of_nat (a div 256) # r) 3 l =
      (6, label_entry 0 0 (of_nat (a div 256)))" for r l
    using labelStack_entry [of "[l0, l1, l2]" 0 0 "of_nat (a div 256)" r l] assms(3)
    by (simp add: low_bit_iff numeral_3_eq_3 [symmetric] del: One_nat_def)
  then have "labelStack d 0 0 = (6, label_entry 0 0 (of_nat (a div 256)))"
    using labelStack_entry [of "[]" l0 l1 l2 _ 0] assms(1) by (simp add: dd low_bit_iff)
  moreover have "formatRD (take 8 (drop 6 d)) = Some []" if "14 \<le> length d"
    by (rule formatRD_other) (use that assms(4) in \<open>auto simp: dd numeral_2_eq_2\<close>)
  moreover have "unat (of_nat (88 + plen) :: byte) = 88 + plen"
    by (rule unat_of_nat_byte) (use assms(5) in simp)
  ultimately show ?thesis
    using assms(5) len k total
    by (auto simp: parseVPNNLRI_def idx_def slice_of_def slice_from_def Let_def simp del: of_nat_add)
qed

lemma handleMP_eaten:
  assumes "even (unat l2)" "a < 65536" "odd (a div 256)" "a mod 256 \<noteq> 0" "plen \<le> 32" "length addr = 4"
  shows "handleMP peer (enc_withdraw l0 l1 l2 (RdAs2 a n) plen addr) rts True = Some []
    \<or> (\<exists>pfx label. handleMP peer (enc_withdraw l0 l1 l2 (RdAs2 a n) plen addr) rts True =
         Some (writeVPNRoute peer '''' pfx label [] rts True))"
proof -
  let ?d = "l0 # l1 # l2 # enc_rd (RdAs2 a n) @ take (octets plen) addr"
  obtain pfx label k where p: "parseVPNNLRI (of_nat (88 + plen) # ?d) = Some ('''', pfx, label, k)"
      "k = 0 \<or> k = 1 + length ?d"
    using parse_eaten_rd [OF assms refl, of l0 l1] by blast
  have "nlriLoop peer [] rts True (of_nat (88 + plen) # ?d) = Some []
    \<or> nlriLoop peer [] rts True (of_nat (88 + plen) # ?d) =
        Some (writeVPNRoute peer '''' pfx label [] rts True)"
    using p by (subst (1 2) nlriLoop.simps) (auto simp: slice_from_def nlriLoop.simps [of _ _ _ _ "[]"])
  then show ?thesis
    using be16_enc [of 1 "[]"]
    by (auto simp: handleMP_def enc_withdraw_def slice_of_def slice_from_def idx_def nth_append
        simp del: of_nat_add)
qed

text \<open>
  C15: a withdrawal whose label octets leave the bottom-of-stack bit clear, as RFC 8277 recommends for
  withdrawals, removes nothing: the label loop runs on into the route distinguisher, so what is
  deleted, if anything, is filed under an empty distinguisher. For every two-octet-AS distinguisher
  whose high byte is odd and whose low byte is not zero, every row of that distinguisher, the
  withdrawn route's included, is after the message what it was before.
\<close>

theorem bmp_withdraw_clear_bos_keeps_route:
  assumes "even (unat l2)" "a < 65536" "odd (a div 256)" "a mod 256 \<noteq> 0" "plen \<le> 32" "length addr = 4"
    and "handleMP peer (enc_withdraw l0 l1 l2 (RdAs2 a n) plen addr) rts True = Some es"
  shows "vpn_table (apply_effs st es) (show_rd (RdAs2 a n), pfx) = vpn_table st (show_rd (RdAs2 a n), pfx)"
proof -
  consider "es = []" | pfx' where "es = op_effs (Withdraw peer '''' pfx')"
    using handleMP_eaten [OF assms(1-6), of peer l0 l1 n rts] assms(7)
    by (fastforce simp: writeVPNRoute_def)
  then show ?thesis
    using show_rd_not_Nil [of "RdAs2 a n"] by cases (auto simp: vpn_table_op simp del: op_effs.simps)
qed

theorem bmp_withdraw_clear_bos_keeps_route_witness:
  "\<exists>es. handleMP [10, 0, 0, 9] (enc_withdraw 0x80 0 0 (RdAs2 300 1) 24 [10, 1, 0, 0]) [] True = Some es \<and>
    vpn_table (apply_effs (apply_effs (\<lambda>_. None) (op_effs (Announce [10, 0, 0, 9] ''300:1'' ''10.1.0.0/24'' 80 [] []))) es)
      (''300:1'', ''10.1.0.0/24'') =
    [Some (StringVal ''80''), Some (StringVal ''-''), Some (StringVal []), Some (StringVal ''10.0.0.9'')]"
proof -
  let ?m = "enc_withdraw 0x80 0 0 (RdAs2 300 1) 24 [10, 1, 0, 0]"
  let ?ann = "Announce [10, 0, 0, 9] ''300:1'' ''10.1.0.0/24'' 80 [] []"
  obtain es where es: "handleMP [10, 0, 0, 9] ?m [] True = Some es"
    using handleMP_total by blast
  have rd: "show_rd (RdAs2 300 1) = ''300:1''" by (simp add: dec_eval)
  have "vpn_table (apply_effs (apply_effs (\<lambda>_. None) (op_effs ?ann)) es) (''300:1'', ''10.1.0.0/24'') =
      vpn_table (apply_effs (\<lambda>_. None) (op_effs ?ann)) (''300:1'', ''10.1.0.0/24'')"
    using bmp_withdraw_clear_bos_keeps_route [OF _ _ _ _ _ _ es,
        of "apply_effs (\<lambda>_. None) (op_effs ?ann)" "''10.1.0.0/24''"]
    unfolding rd by simp
  with es show ?thesis
    by (simp add: vpn_table_op ip_string_4 dotted_def dec_eval del: op_effs.simps)
qed

end
