(* ===== verification/Bmp_Session.thy ===== *)
theory Bmp_Session
  imports Bmp_Store
begin

text \<open>
  The neighbours' session states: which network instance a peer is filed under, that a learned route
  distinguisher keeps its name, so that a Peer Down reaches the leaf its Peer Up wrote, and the case
  in which it does not.
\<close>

section \<open>Where a neighbour is filed\<close>

lemma neighborElems_eq [simp]:
  "neighborElems vrf peer leaf = neighborElems vrf' peer' leaf' \<longleftrightarrow>
    vrf = vrf' \<and> peer = peer' \<and> leaf = leaf'"
  by (auto simp: neighborElems_def)

definition session_leaf :: "store \<Rightarrow> string \<Rightarrow> ip \<Rightarrow> tval option" where
  "session_leaf st vrf peer =
     store_look st ''openconfig'' (neighborElems vrf (ip_string peer) ''session-state'')"

definition session_val :: "bool \<Rightarrow> tval option" where
  "session_val up = Some (StringVal (if up then ''ESTABLISHED'' else ''IDLE''))"

lemma peerState_effect:
  assumes "perPeer body = Some (peer, asn, pt, rd, True)" "\<not> is_unspecified peer"
    and "(if rd \<noteq> [] then learnVRF ll body up rd b else Some (''default'', b)) = Some (vrf, b')"
  shows "\<exists>es. peerState ll body up b = Some (b', es) \<and> list_all (eff_origin_ok ''openconfig'') es \<and>
    (\<forall>st vrf' peer'. session_leaf (apply_effs st es) vrf' peer' =
      (if vrf' = vrf \<and> ip_string peer' = ip_string peer then session_val up else session_leaf st vrf' peer'))"
  using assms
  by (auto simp: peerState_def Let_def session_leaf_def session_val_def leafUpdate_def strVal_def
      look_apply_upd simp del: apply_eff.simps(1))

text \<open>A learned name is never replaced.\<close>

lemma learnVRF_keeps:
  "b_rdVRF b rd = Some v \<Longrightarrow> learnVRF ll body up rd' b = Some (n, b') \<Longrightarrow> b_rdVRF b' rd = Some v"
  by (cases "rd' = rd")
     (auto simp: learnVRF_def Let_def split: option.splits prod.splits list.splits if_splits bind_splits)

lemma peerState_keeps:
  "b_rdVRF b rd = Some v \<Longrightarrow> peerState ll body up b = Some (b', es) \<Longrightarrow> b_rdVRF b' rd = Some v"
  by (auto simp: peerState_def Let_def split: if_splits bind_splits dest: learnVRF_keeps)

lemma bmp_dispatch_keeps:
  "b_rdVRF b rd = Some v \<Longrightarrow> bmp_dispatch ll ty body b = Some (b', es) \<Longrightarrow> b_rdVRF b' rd = Some v"
  by (auto simp: bmp_dispatch_def split: if_splits dest: peerState_keeps)

lemma bmp_run_keeps:
  "b_rdVRF b rd = Some v \<Longrightarrow> bmp_run env k ms b = Some (b', es) \<Longrightarrow> b_rdVRF b' rd = Some v"
proof (induction ms arbitrary: k b es)
  case (Cons m ms)
  obtain ty body where m: "m = (ty, body)" by (cases m)
  with Cons.prems(2) obtain b1 es1 es2 where
    "bmp_dispatch (env k) ty body b = Some (b1, es1)" "bmp_run env (Suc k) ms b1 = Some (b', es2)"
    by (auto split: bind_splits)
  then show ?case using Cons.IH Cons.prems(1) bmp_dispatch_keeps by blast
qed simp

lemma bmp_run_append:
  "bmp_run env k (ms @ ms') b = do {
     (b', es) \<leftarrow> bmp_run env k ms b;
     (b'', es') \<leftarrow> bmp_run env (k + length ms) ms' b';
     Some (b'', es @ es') }"
proof (induction ms arbitrary: k b)
  case Nil
  show ?case by (cases "bmp_run env k ms' b") auto
next
  case (Cons m ms)
  show ?case
    by (cases m) (auto simp: Cons.IH bind_assoc split: Option.bind_splits)
qed

text \<open>
  Once a route distinguisher is bound to a VRF name, it stays so: after any sequence of messages
  (Peer Up with other names, Route Monitoring, changes of the node's devices), a Peer Up or Peer Down
  of any peer under the distinguisher sets the session state of exactly that neighbour of the VRF,
  so a session that was announced up is cleared by its Peer Down.
\<close>

theorem bmp_session_follows_peer:
  assumes "b_rdVRF b rd = Some v" "rd \<noteq> []"
    and "bmp_run env k ms b = Some (b1, es1)"
    and "perPeer body = Some (peer, asn, pt, rd, True)" "\<not> is_unspecified peer"
  shows "\<exists>b2 es2.
    bmp_run env k (ms @ [(if up then 3 else 2, body)]) b = Some (b2, es1 @ es2) \<and>
    (\<forall>st vrf' peer'. session_leaf (apply_effs st (es1 @ es2)) vrf' peer' =
      (if vrf' = v \<and> ip_string peer' = ip_string peer then session_val up
       else session_leaf (apply_effs st es1) vrf' peer'))"
proof -
  have "b_rdVRF b1 rd = Some v" by (rule bmp_run_keeps [OF assms(1,3)])
  then have "(if rd \<noteq> [] then learnVRF (env (k + length ms)) body up rd b1 else Some (''default'', b1)) =
      Some (v, b1)"
    using assms(2) by (simp add: learnVRF_def)
  from peerState_effect [OF assms(4,5) this] obtain es where es:
      "peerState (env (k + length ms)) body up b1 = Some (b1, es)"
      "\<forall>st vrf' peer'. session_leaf (apply_effs st es) vrf' peer' =
        (if vrf' = v \<and> ip_string peer' = ip_string peer then session_val up else session_leaf st vrf' peer')"
    by blast
  then have "bmp_run env k (ms @ [(if up then 3 else 2, body)]) b = Some (b1, es1 @ es)"
    using assms(3) by (auto simp: bmp_run_append bmp_dispatch_def)
  with es(2) show ?thesis by auto
qed

text \<open>A per-peer header of an IPv4 peer in the VRF with the given distinguisher.\<close>

definition peer_header :: "rd \<Rightarrow> ip \<Rightarrow> nat \<Rightarrow> bytes" where
  "peer_header r addr asn =
     [1, 0] @ enc_rd r @ replicate 12 0 @ addr @ be_enc 4 asn @ replicate 12 0"

lemma enc_rd_not_zero: "rd_wf (RdAs2 a n) \<Longrightarrow> 0 < a \<Longrightarrow> \<not> allZero (enc_rd (RdAs2 a n))"
proof
  assume a: "rd_wf (RdAs2 a n)" "0 < a" "allZero (enc_rd (RdAs2 a n))"
  have "be_val xs = 0" if "allZero xs" for xs
    using that by (induction xs) (auto simp: allZero_def)
  moreover have "allZero (be_enc 2 a)"
    using a(3) by (simp add: enc_rd_def allZero_def)
  ultimately show False using be_val_enc [of a 2] a(1,2) by simp
qed

lemma perPeer_header:
  assumes "rd_wf (RdAs2 a n)" "0 < a" "length addr = 4" "asn < 4294967296"
  shows "perPeer (peer_header (RdAs2 a n) addr asn @ rest) =
    Some (addr, of_nat asn, 1, show_rd (RdAs2 a n), True)"
proof -
  have rd: "take 8 (enc_rd (RdAs2 a n) @ q) = enc_rd (RdAs2 a n)" for q
    using assms(1) by simp
  have "be32 (be_enc 4 asn) = Some (of_nat asn)" using assms(4) by simp
  then show ?thesis
    using assms(1,3) enc_rd_not_zero [OF assms(1,2)] formatRD_enc [OF assms(1)]
    by (simp add: perPeer_def peer_header_def slice_of_def idx_def del: be_enc.simps)
qed

definition sample_body :: bytes where
  "sample_body = peer_header (RdAs2 65000 1) [10, 0, 0, 2] 65001"

lemma sample_body_perPeer:
  "perPeer sample_body = Some ([10, 0, 0, 2], of_nat 65001, 1, ''65000:1'', True)"
proof -
  have "show_rd (RdAs2 65000 1) = ''65000:1''" by (simp add: dec_eval)
  then show ?thesis
    using perPeer_header [of 65000 1 "[10, 0, 0, 2]" 65001 "[]"]
    by (simp add: sample_body_def del: of_nat_numeral)
qed

lemma length_sample_body: "length sample_body = 42"
  by (simp add: sample_body_def peer_header_def enc_rd_def)

lemma sample_peer_specified: "\<not> is_unspecified [10, 0, 0, 2]"
  by (simp add: is_unspecified_def to4_def)

theorem bmp_session_follows_peer_witness:
  "\<exists>b2 es2. bmp_run (\<lambda>_. None) 0 [(4, []), (2, sample_body)]
       \<lparr>b_vrf = NewVRFResolver None, b_rdVRF = [''65000:1'' \<mapsto> ''cust'']\<rparr> = Some (b2, [] @ es2) \<and>
     session_leaf (apply_effs (\<lambda>_. None) ([] @ es2)) ''cust'' [10, 0, 0, 2] = session_val False"
proof -
  let ?b = "\<lparr>b_vrf = NewVRFResolver None, b_rdVRF = [''65000:1'' \<mapsto> ''cust'']\<rparr>"
  have "bmp_run (\<lambda>_. None) 0 [(4, [])] ?b = Some (?b, [])"
    by (simp add: bmp_dispatch_def)
  from bmp_session_follows_peer [OF _ _ this sample_body_perPeer sample_peer_specified,
      of "''cust''" False]
  show ?thesis by fastforce
qed


section \<open>The session that stays up\<close>

text \<open>
  A distinguisher that no name could be found for when its Peer Up came is not remembered, and
  the neighbour is filed under the distinguisher itself. If the node has exactly one VRF device when
  the Peer Down comes, the Peer Down is filed under that device: the neighbour's session state under
  the distinguisher says ESTABLISHED for ever.
\<close>

theorem bmp_unlearned_session_stays_up:
  assumes "b_rdVRF b rd = None" "rd \<noteq> []"
    and "perPeer up = Some (peer, asn, pt, rd, True)" "perPeer down = Some (peer, asn', pt', rd, True)"
    and "\<not> is_unspecified peer" "peerUpVRF up = Some []"
    and "length (fst (NonDefaultNames (env 0) (b_vrf b))) \<noteq> 1"
    and "env 1 = Some links" "map snd (refresh_map links) = [v]" "v \<noteq> []" "v \<noteq> rd"
  shows "\<exists>b' es. bmp_run env 0 [(3, up), (2, down)] b = Some (b', es) \<and>
    (\<forall>st. session_leaf (apply_effs st es) rd peer = session_val True \<and>
          session_leaf (apply_effs st es) v peer = session_val False)"
proof -
  obtain names r where names: "NonDefaultNames (env 0) (b_vrf b) = (names, r)" by fastforce
  let ?b1 = "b\<lparr>b_vrf := r\<rparr>"
  have "learnVRF (env 0) up True rd b = Some (rd, ?b1)"
    using assms(1,6,7) names by (auto simp: learnVRF_def Let_def split: list.splits)
  then have "(if rd \<noteq> [] then learnVRF (env 0) up True rd b else Some (''default'', b)) = Some (rd, ?b1)"
    using assms(2) by simp
  from peerState_effect [OF assms(3,5) this] obtain es1 where es1:
      "peerState (env 0) up True b = Some (?b1, es1)"
      "\<And>st vrf' peer'. session_leaf (apply_effs st es1) vrf' peer' =
        (if vrf' = rd \<and> ip_string peer' = ip_string peer then session_val True else session_leaf st vrf' peer')"
    by blast
  obtain b2 where "learnVRF (env 1) down False rd ?b1 = Some (v, b2)"
    using assms(1,8-10) by (simp add: learnVRF_def NonDefaultNames_def Refresh_def Let_def)
  then have "(if rd \<noteq> [] then learnVRF (env 1) down False rd ?b1 else Some (''default'', ?b1)) = Some (v, b2)"
    using assms(2) by simp
  from peerState_effect [OF assms(4,5) this] obtain es2 where es2:
      "peerState (env 1) down False ?b1 = Some (b2, es2)"
      "\<And>st vrf' peer'. session_leaf (apply_effs st es2) vrf' peer' =
        (if vrf' = v \<and> ip_string peer' = ip_string peer then session_val False else session_leaf st vrf' peer')"
    by blast
  have "bmp_run env 0 [(3, up), (2, down)] b = Some (b2, es1 @ es2)"
    using es1(1) es2(1) by (simp add: bmp_dispatch_def)
  then show ?thesis using es1(2) es2(2) assms(11) by auto
qed

theorem bmp_unlearned_session_stays_up_witness:
  "\<exists>b' es. bmp_run (\<lambda>k. Some (if k = 0 then [] else [VrfLink 10 ''cust''])) 0
       [(3, sample_body), (2, sample_body)] (NewBMP None) = Some (b', es) \<and>
    (\<forall>st. session_leaf (apply_effs st es) ''65000:1'' [10, 0, 0, 2] = session_val True \<and>
          session_leaf (apply_effs st es) ''cust'' [10, 0, 0, 2] = session_val False)"
  by (rule bmp_unlearned_session_stays_up
      [OF _ _ sample_body_perPeer sample_body_perPeer sample_peer_specified,
        where links = "[VrfLink 10 ''cust'']"])
     (simp_all add: NewBMP_def peerUpVRF_def length_sample_body slice_from_def NonDefaultNames_def
        Refresh_def refresh_map_def)

end
