(* ===== verification/Fpm.thy ===== *)
theory Fpm
  imports Vrf GoNet Gnmi
begin

text \<open>
  The FPM ingester of \<^verbatim>\<open>internal/ingest/fpm.go\<close>: the walk over netlink attributes, the MPLS label
  stacks, the nexthop objects and the routes zebra streams, and the connection loop. As for BMP, a
  handler returns the new state and its calls to the cache and the correlator, and \<^const>\<open>None\<close> is a
  run-time panic.
\<close>

section \<open>Constants\<close>

abbreviation (input) fpmHdrLen :: nat where "fpmHdrLen \<equiv> 4"
abbreviation (input) fpmTypeNL :: byte where "fpmTypeNL \<equiv> 1"
abbreviation (input) nlHdrLen :: nat where "nlHdrLen \<equiv> 16"
abbreviation (input) rtMsgLen :: nat where "rtMsgLen \<equiv> 12"
abbreviation (input) nhMsgLen :: nat where "nhMsgLen \<equiv> 8"
abbreviation (input) rtmNewRoute :: u16 where "rtmNewRoute \<equiv> 24"
abbreviation (input) rtmDelRoute :: u16 where "rtmDelRoute \<equiv> 25"
abbreviation (input) rtmNewNexthop :: u16 where "rtmNewNexthop \<equiv> 104"
abbreviation (input) rtmDelNexthop :: u16 where "rtmDelNexthop \<equiv> 105"
abbreviation (input) afInet :: byte where "afInet \<equiv> 2"
abbreviation (input) afInet6 :: byte where "afInet6 \<equiv> 10"
abbreviation (input) rtaDST :: u16 where "rtaDST \<equiv> 1"
abbreviation (input) rtaOIF :: u16 where "rtaOIF \<equiv> 4"
abbreviation (input) rtaGateway :: u16 where "rtaGateway \<equiv> 5"
abbreviation (input) rtaTable :: u16 where "rtaTable \<equiv> 15"
abbreviation (input) rtaEncapType :: u16 where "rtaEncapType \<equiv> 21"
abbreviation (input) rtaEncap :: u16 where "rtaEncap \<equiv> 22"
abbreviation (input) rtaNHID :: u16 where "rtaNHID \<equiv> 30"
abbreviation (input) nhaID :: u16 where "nhaID \<equiv> 1"
abbreviation (input) nhaGroup :: u16 where "nhaGroup \<equiv> 2"
abbreviation (input) nhaBlackhole :: u16 where "nhaBlackhole \<equiv> 3"
abbreviation (input) nhaOIF :: u16 where "nhaOIF \<equiv> 5"
abbreviation (input) nhaGateway :: u16 where "nhaGateway \<equiv> 6"
abbreviation (input) nhaEncapType :: u16 where "nhaEncapType \<equiv> 7"
abbreviation (input) nhaEncap :: u16 where "nhaEncap \<equiv> 8"
abbreviation (input) lwtEncapMPLS :: u16 where "lwtEncapMPLS \<equiv> 1"
abbreviation (input) mplsIptunnelDst :: u16 where "mplsIptunnelDst \<equiv> 1"
abbreviation (input) rtnBlackhole :: byte where "rtnBlackhole \<equiv> 6"
abbreviation (input) rtnUnreachable :: byte where "rtnUnreachable \<equiv> 7"
abbreviation (input) rtnProhibit :: byte where "rtnProhibit \<equiv> 8"
abbreviation (input) nlaTypeMask :: u16 where "nlaTypeMask \<equiv> 0x3fff"


section \<open>Netlink attributes\<close>

text \<open>
  \<^verbatim>\<open>forEachAttr\<close>: the callback updates variables it captures, so it is a function on the tuple of
  those variables, and it may panic. The last step, \<^verbatim>\<open>attrs[(alen+3)&^3:]\<close>, panics when the padding
  of an attribute reaches past the end.
\<close>

definition nla_align :: "nat \<Rightarrow> nat" where
  "nla_align n = (n + 3) div 4 * 4"

function forEachAttr :: "(u16 \<Rightarrow> bytes \<Rightarrow> 's \<Rightarrow> 's option) \<Rightarrow> bytes \<Rightarrow> 's \<Rightarrow> 's option" where
  "forEachAttr fn attrs s =
     (if length attrs < 4 then Some s
      else do {
        h \<leftarrow> slice_of attrs 0 2; alen \<leftarrow> le16 h;
        h \<leftarrow> slice_of attrs 2 4; t \<leftarrow> le16 h;
        let atype = t AND nlaTypeMask;
        if unat alen < 4 \<or> length attrs < unat alen then Some s
        else do {
          p \<leftarrow> slice_of attrs 4 (unat alen);
          s' \<leftarrow> fn atype p s;
          q \<leftarrow> slice_from attrs (nla_align (unat alen));
          forEachAttr fn q s' } })"
  by pat_completeness auto
termination
  by (relation "measure (\<lambda>(fn, attrs, s). length attrs)")
     (auto simp: slice_from_def nla_align_def split: if_splits)

declare forEachAttr.simps [simp del]

text \<open>A netlink MPLS label stack: big-endian entries, the label in the top 20 bits.\<close>

fun decodeMPLSStack :: "bytes \<Rightarrow> u32 list" where
  "decodeMPLSStack (a # b # c # d # p) =
     (let entry = of_nat (be_val [a, b, c, d]) :: u32
      in drop_bit 12 entry # (if entry AND 0x100 \<noteq> 0 then [] else decodeMPLSStack p))"
| "decodeMPLSStack _ = []"

definition parseMPLSEncap :: "bytes \<Rightarrow> u32 list option" where
  "parseMPLSEncap p =
     forEachAttr (\<lambda>t v labels. Some (if t = mplsIptunnelDst then decodeMPLSStack v else labels)) p []"

definition labelsCSV :: "u32 list \<Rightarrow> string" where
  "labelsCSV l =
     fst (foldl (\<lambda>(s, i). \<lambda>x. (s @ (if 0 < i then '','' else []) @ dec (unat x), Suc i)) ([], 0 :: nat) l)"


section \<open>State\<close>

record nexthop =
  nh_gw :: ip
  nh_oif :: u32
  nh_group :: "u32 list"
  nh_labels :: "u32 list"
  nh_blackhole :: bool

record fpm =
  f_vrf :: vrf_resolver
  f_nh :: "u32 \<Rightarrow> nexthop option"

definition NewFPM :: "link_list \<Rightarrow> fpm" where
  "NewFPM ll = \<lparr>f_vrf = NewVRFResolver ll, f_nh = Map.empty\<rparr>"


section \<open>Nexthop objects\<close>

record nh_acc =
  na_id :: u32
  na_oif :: u32
  na_gw :: ip
  na_group :: "u32 list"
  na_labels :: "u32 list"
  na_encap :: u16
  na_bh :: bool

text \<open>The members of a group attribute: arrays of \<^verbatim>\<open>struct nexthop_grp\<close>, eight bytes each.\<close>

fun groupMembers :: "bytes \<Rightarrow> u32 list" where
  "groupMembers (a # b # c # d # e # f # g # h # p) = of_nat (le_val [a, b, c, d]) # groupMembers p"
| "groupMembers _ = []"

definition nh_attr :: "u16 \<Rightarrow> bytes \<Rightarrow> nh_acc \<Rightarrow> nh_acc option" where
  "nh_attr t p s =
     (if t = nhaID then (if 4 \<le> length p then do { v \<leftarrow> le32 p; Some (s\<lparr>na_id := v\<rparr>) } else Some s)
      else if t = nhaOIF then (if 4 \<le> length p then do { v \<leftarrow> le32 p; Some (s\<lparr>na_oif := v\<rparr>) } else Some s)
      else if t = nhaGateway then Some (s\<lparr>na_gw := p\<rparr>)
      else if t = nhaBlackhole then Some (s\<lparr>na_bh := True\<rparr>)
      else if t = nhaEncapType then (if 2 \<le> length p then do { v \<leftarrow> le16 p; Some (s\<lparr>na_encap := v\<rparr>) } else Some s)
      else if t = nhaEncap then do { l \<leftarrow> parseMPLSEncap p; Some (s\<lparr>na_labels := l\<rparr>) }
      else if t = nhaGroup then Some (s\<lparr>na_group := na_group s @ groupMembers p\<rparr>)
      else Some s)"

definition handleNexthop :: "bytes \<Rightarrow> bool \<Rightarrow> fpm \<Rightarrow> fpm option" where
  "handleNexthop b del f =
     (if length b < nlHdrLen + nhMsgLen then Some f
      else do {
        attrs \<leftarrow> slice_from b (nlHdrLen + nhMsgLen);
        s \<leftarrow> forEachAttr nh_attr attrs
               \<lparr>na_id = 0, na_oif = 0, na_gw = [], na_group = [], na_labels = [], na_encap = 0, na_bh = False\<rparr>;
        if na_id s = 0 then Some f
        else
          (let labels = (if na_encap s \<noteq> 0 \<and> na_encap s \<noteq> lwtEncapMPLS then [] else na_labels s)
           in Some (f\<lparr>f_nh := (f_nh f)(na_id s :=
                (if del then None
                 else Some \<lparr>nh_gw = na_gw s, nh_oif = na_oif s, nh_group = na_group s,
                            nh_labels = labels, nh_blackhole = na_bh s\<rparr>))\<rparr>)) })"

function resolveNH :: "(u32 \<Rightarrow> nexthop option) \<Rightarrow> u32 \<Rightarrow> nat \<Rightarrow> ip \<times> u32 \<times> bool \<times> u32 list" where
  "resolveNH nhs nid depth =
     (if 4 < depth then ([], 0, False, [])
      else case nhs nid of
        None \<Rightarrow> ([], 0, False, [])
      | Some nh \<Rightarrow>
          if nh_blackhole nh then ([], 0, True, [])
          else if nh_gw nh \<noteq> [] \<or> nh_oif nh \<noteq> 0 then (nh_gw nh, nh_oif nh, False, nh_labels nh)
          else if nh_group nh \<noteq> [] then resolveNH nhs (hd (nh_group nh)) (depth + 1)
          else ([], 0, False, []))"
  by pat_completeness auto
termination by (relation "measure (\<lambda>(nhs, nid, depth). 5 - depth)") auto

declare resolveNH.simps [simp del]


section \<open>Routes\<close>

record rt_acc =
  ra_dst :: ip
  ra_gw :: ip
  ra_oif :: u32
  ra_tbl :: u32
  ra_nhid :: u32
  ra_labels :: "u32 list"
  ra_encap :: u16

definition rt_attr :: "u16 \<Rightarrow> bytes \<Rightarrow> rt_acc \<Rightarrow> rt_acc option" where
  "rt_attr t p s =
     (if t = rtaDST then Some (s\<lparr>ra_dst := p\<rparr>)
      else if t = rtaGateway then Some (s\<lparr>ra_gw := p\<rparr>)
      else if t = rtaOIF then (if 4 \<le> length p then do { v \<leftarrow> le32 p; Some (s\<lparr>ra_oif := v\<rparr>) } else Some s)
      else if t = rtaTable then (if 4 \<le> length p then do { v \<leftarrow> le32 p; Some (s\<lparr>ra_tbl := v\<rparr>) } else Some s)
      else if t = rtaEncapType then (if 2 \<le> length p then do { v \<leftarrow> le16 p; Some (s\<lparr>ra_encap := v\<rparr>) } else Some s)
      else if t = rtaEncap then do { l \<leftarrow> parseMPLSEncap p; Some (s\<lparr>ra_labels := l\<rparr>) }
      else if t = rtaNHID then (if 4 \<le> length p then do { v \<leftarrow> le32 p; Some (s\<lparr>ra_nhid := v\<rparr>) } else Some s)
      else Some s)"

definition formatPrefix :: "byte \<Rightarrow> ip \<Rightarrow> byte \<Rightarrow> string \<times> string" where
  "formatPrefix family dst dstLen =
     (if family = afInet then
        (let ip = take 4 (to4 dst @ replicate 4 0)
         in (ip_string ip @ ''/'' @ dec (unat dstLen), ''ipv4-unicast''))
      else if family = afInet6 then
        (let ip = take 16 (dst @ replicate 16 0)
         in (ip_string ip @ ''/'' @ dec (unat dstLen), ''ipv6-unicast''))
      else ('''', ''''))"

definition aftPath :: "string \<Rightarrow> string \<Rightarrow> string \<Rightarrow> string \<Rightarrow> elems" where
  "aftPath vrf afName pfx leaf =
     (let entry = (if afName = ''ipv6-unicast'' then ''ipv6-entry'' else ''ipv4-entry'')
      in [el ''network-instances'',
          elk ''network-instance'' [(''name'', vrf)],
          el ''afts'',
          el afName,
          elk entry [(''prefix'', pfx)],
          el ''state'',
          el leaf])"

text \<open>The gateway, output interface, blackhole flag and labels of a route: those of the route itself, or
  of the nexthop object it names when it has no gateway of its own.\<close>

definition route_nexthop ::
    "(u32 \<Rightarrow> nexthop option) \<Rightarrow> byte \<Rightarrow> rt_acc \<Rightarrow> u32 list \<Rightarrow> ip \<times> u32 \<times> bool \<times> u32 list" where
  "route_nexthop nhs rtType s encapLabels =
     (let blackhole = (rtType = rtnBlackhole \<or> rtType = rtnUnreachable \<or> rtType = rtnProhibit)
      in if ra_gw s = [] \<and> ra_nhid s \<noteq> 0 then
           (let (g, oif', bh, lbls) = resolveNH nhs (ra_nhid s) 0
            in (g, (if oif' \<noteq> 0 then oif' else ra_oif s), blackhole \<or> bh,
                (if encapLabels = [] then lbls else encapLabels)))
         else (ra_gw s, ra_oif s, blackhole, encapLabels))"

definition route_effects :: "string \<Rightarrow> string \<Rightarrow> string \<Rightarrow> string \<Rightarrow> u32 list \<Rightarrow> bool \<Rightarrow> eff list" where
  "route_effects vrf afName pfx nhStr pushLabels del =
     (let kind = (if del then ''route-del'' else ''route-add'');
          nhPath = aftPath vrf afName pfx ''next-hop'';
          lblPath = aftPath vrf afName pfx ''pushed-mpls-label-stack'';
          emit = Emit ''fpm'' kind pfx (''vrf='' @ vrf @ '' nh='' @ nhStr) False
      in if del then [emit, CacheUpdate ''openconfig'' [] [nhPath, lblPath]]
         else if pushLabels \<noteq> [] then
           [emit, CacheUpdate ''openconfig'' [(nhPath, strVal nhStr), (lblPath, strVal (labelsCSV pushLabels))] []]
         else
           [emit, CacheUpdate ''openconfig'' [] [lblPath], CacheUpdate ''openconfig'' [(nhPath, strVal nhStr)] []])"

definition handleRoute :: "link_list \<Rightarrow> bytes \<Rightarrow> bool \<Rightarrow> fpm \<Rightarrow> (fpm \<times> eff list) option" where
  "handleRoute ll b del f =
     (if length b < nlHdrLen + rtMsgLen then Some (f, [])
      else do {
        rtm \<leftarrow> slice_from b nlHdrLen;
        family \<leftarrow> idx rtm 0;
        dstLen \<leftarrow> idx rtm 1;
        rtType \<leftarrow> idx rtm 7;
        t8 \<leftarrow> idx rtm 4;
        attrs \<leftarrow> slice_from rtm rtMsgLen;
        s \<leftarrow> forEachAttr rt_attr attrs
               \<lparr>ra_dst = [], ra_gw = [], ra_oif = 0, ra_tbl = 0, ra_nhid = 0, ra_labels = [], ra_encap = 0\<rparr>;
        let table = (if ra_tbl s \<noteq> 0 then ra_tbl s else ucast t8);
        let encapLabels = (if ra_encap s \<noteq> 0 \<and> ra_encap s \<noteq> lwtEncapMPLS then [] else ra_labels s);
        let (pfx, afName) = formatPrefix family (ra_dst s) dstLen;
        if pfx = '''' then Some (f, [])
        else
          (let (gw, oif, blackhole, pushLabels) = route_nexthop (f_nh f) rtType s encapLabels;
               nhStr = (if blackhole then ''blackhole'' else if gw \<noteq> [] then ip_string gw else ''-'');
               (vrf, r) = vrf_Name ll table (f_vrf f)
           in Some (f\<lparr>f_vrf := r\<rparr>, route_effects vrf afName pfx nhStr pushLabels del)) })"


section \<open>The connection loop\<close>

definition handleNetlink :: "link_list \<Rightarrow> bytes \<Rightarrow> fpm \<Rightarrow> (fpm \<times> eff list) option" where
  "handleNetlink ll b f =
     (if length b < nlHdrLen then Some (f, [])
      else do {
        h \<leftarrow> slice_of b 4 6; t \<leftarrow> le16 h;
        if t = rtmNewNexthop then map_option (\<lambda>f. (f, [])) (handleNexthop b False f)
        else if t = rtmDelNexthop then map_option (\<lambda>f. (f, [])) (handleNexthop b True f)
        else if t = rtmNewRoute then handleRoute ll b False f
        else if t = rtmDelRoute then handleRoute ll b True f
        else Some (f, []) })"

text \<open>\<^verbatim>\<open>FPM.handle\<close> on the bytes of a connection; \<open>env k\<close> is the link listing during frame \<open>k\<close>.\<close>

function fpm_handle ::
    "(nat \<Rightarrow> link_list) \<Rightarrow> nat \<Rightarrow> bytes \<Rightarrow> fpm \<Rightarrow> (fpm \<times> eff list) option" where
  "fpm_handle env k inp f =
     (if length inp < fpmHdrLen then Some (f, [])
      else do {
        h \<leftarrow> slice_of inp 2 4; l \<leftarrow> be16 h;
        let msgLen = unat l;
        if msgLen < fpmHdrLen then Some (f, [])
        else if length inp < msgLen then Some (f, [])
        else do {
          ty \<leftarrow> idx inp 1;
          body \<leftarrow> slice_of inp fpmHdrLen msgLen;
          (f', es) \<leftarrow> (if ty \<noteq> fpmTypeNL then Some (f, []) else handleNetlink (env k) body f);
          (f'', es') \<leftarrow> fpm_handle env (Suc k) (drop msgLen inp) f';
          Some (f'', es @ es') } })"
  by pat_completeness auto
termination
  by (relation "measure (\<lambda>(e, k, inp, f). length inp)") auto

declare fpm_handle.simps [simp del]

end
