(* ===== verification/Fpm_Codec.thy ===== *)
theory Fpm_Codec
  imports Fpm
begin

text \<open>
  Encoders for the netlink messages zebra streams, from the layouts of rtnetlink: attributes with
  their padding, MPLS label stacks, nexthop objects and routes; and what the walk of the ingester
  reads back from them.
\<close>

section \<open>Attributes\<close>

record nlattr =
  nl_type :: nat
  nl_val :: bytes

definition nla_len :: "nlattr \<Rightarrow> nat" where
  "nla_len a = 4 + length (nl_val a)"

definition nla_wf :: "nlattr \<Rightarrow> bool" where
  "nla_wf a \<longleftrightarrow> nla_len a < 65536 \<and> nl_type a < 65536"

text \<open>The attribute without its padding, and with it.\<close>

definition enc_nla_bare :: "nlattr \<Rightarrow> bytes" where
  "enc_nla_bare a = le_enc 2 (nla_len a) @ le_enc 2 (nl_type a) @ nl_val a"

definition enc_nla :: "nlattr \<Rightarrow> bytes" where
  "enc_nla a = enc_nla_bare a @ replicate (nla_align (nla_len a) - nla_len a) 0"

definition nla_key :: "nlattr \<Rightarrow> u16" where
  "nla_key a = of_nat (nl_type a) AND 0x3fff"

fun fold_attrs :: "(u16 \<Rightarrow> bytes \<Rightarrow> 's \<Rightarrow> 's option) \<Rightarrow> nlattr list \<Rightarrow> 's \<Rightarrow> 's option" where
  "fold_attrs fn [] s = Some s"
| "fold_attrs fn (a # as) s = do { s' \<leftarrow> fn (nla_key a) (nl_val a) s; fold_attrs fn as s' }"

lemma nla_align_ge: "n \<le> nla_align n"
  by (simp add: nla_align_def)

lemma nla_align_le: "n \<le> m \<Longrightarrow> nla_align m = m \<Longrightarrow> nla_align n \<le> m"
  unfolding nla_align_def by (metis add_le_mono1 div_le_mono mult_le_mono1)

lemma length_enc_nla_bare [simp]: "length (enc_nla_bare a) = nla_len a"
  by (simp add: enc_nla_bare_def nla_len_def)

lemma length_enc_nla [simp]: "length (enc_nla a) = nla_align (nla_len a)"
  using nla_align_ge [of "nla_len a"] by (simp add: enc_nla_def)

lemma forEachAttr_short: "length p < 4 \<Longrightarrow> forEachAttr fn p s = Some s"
  by (subst forEachAttr.simps) simp

lemma forEachAttr_bare:
  assumes "nla_wf a"
  shows "forEachAttr fn (enc_nla_bare a @ r) s = do {
     s' \<leftarrow> fn (nla_key a) (nl_val a) s;
     q \<leftarrow> slice_from (enc_nla_bare a @ r) (nla_align (nla_len a));
     forEachAttr fn q s' }"
proof -
  from assms have "nla_len a < 65536" "nl_type a < 65536" "4 \<le> nla_len a"
      "length (nl_val a) = nla_len a - 4"
    by (simp_all add: nla_wf_def nla_len_def)
  moreover from this have "take (nla_len a - 4) (nl_val a @ r) = nl_val a"
      "\<not> Suc (Suc (Suc (Suc (nla_len a + length r - 4)))) < nla_len a"
    by simp_all
  ultimately show ?thesis
    by (subst forEachAttr.simps)
       (simp add: slice_of_def enc_nla_bare_def nla_key_def Let_def not_less del: le_enc.simps)
qed

lemma forEachAttr_attr:
  assumes "nla_wf a"
  shows "forEachAttr fn (enc_nla a @ r) s = do {
     s' \<leftarrow> fn (nla_key a) (nl_val a) s; forEachAttr fn r s' }"
proof -
  let ?pad = "replicate (nla_align (nla_len a) - nla_len a) (0 :: byte)"
  have "slice_from (enc_nla_bare a @ ?pad @ r) (nla_align (nla_len a)) = Some r"
    using nla_align_ge [of "nla_len a"] by (simp add: slice_from_def)
  then show ?thesis
    using forEachAttr_bare [OF assms, of fn "?pad @ r" s] by (simp add: enc_nla_def)
qed

text \<open>The walk visits every attribute once, in order.\<close>

lemma forEachAttr_enc:
  "list_all nla_wf as \<Longrightarrow>
    forEachAttr fn (concat (map enc_nla as) @ r) s = do { s' \<leftarrow> fold_attrs fn as s; forEachAttr fn r s' }"
  by (induction as arbitrary: s) (auto simp: forEachAttr_attr bind_assoc)

lemma forEachAttr_all:
  "list_all nla_wf as \<Longrightarrow> forEachAttr fn (concat (map enc_nla as)) s = fold_attrs fn as s"
  using forEachAttr_enc [of as fn "[]" s] by (simp add: forEachAttr_short)

text \<open>An attribute at the end of the buffer without its padding makes the walk panic.\<close>

lemma forEachAttr_unpadded:
  assumes "nla_wf a" "nla_len a mod 4 \<noteq> 0"
  shows "forEachAttr fn (enc_nla_bare a) s = None"
proof -
  have "nla_len a < nla_align (nla_len a)"
    using assms(2) by (auto simp: nla_align_def) presburger
  then show ?thesis
    using forEachAttr_bare [OF assms(1), of fn "[]" s]
    by (simp add: slice_from_def split: Option.bind_splits)
qed


section \<open>MPLS label stacks\<close>

text \<open>An entry of a stack: label, traffic class and time to live; the last one is marked.\<close>

type_synonym mpls_entry = "nat \<times> nat \<times> nat"

fun mpls_word :: "bool \<Rightarrow> mpls_entry \<Rightarrow> nat" where
  "mpls_word bos (l, tc, ttl) = 4096 * l + 512 * tc + (if bos then 256 else 0) + ttl"

fun mpls_wf :: "mpls_entry \<Rightarrow> bool" where
  "mpls_wf (l, tc, ttl) \<longleftrightarrow> l < 2 ^ 20 \<and> tc < 8 \<and> ttl < 256"

fun enc_mpls :: "mpls_entry list \<Rightarrow> bytes" where
  "enc_mpls [] = []"
| "enc_mpls [e] = be_enc 4 (mpls_word True e)"
| "enc_mpls (e # es) = be_enc 4 (mpls_word False e) @ enc_mpls es"

lemma mpls_word_props:
  assumes "mpls_wf e"
  shows "mpls_word bos e < 4294967296" "mpls_word bos e div 4096 = fst e" "odd (mpls_word bos e div 256) \<longleftrightarrow> bos"
proof -
  obtain l tc ttl where e: "e = (l, tc, ttl)" by (cases e)
  with assms have *: "l < 1048576" "tc < 8" "ttl < 256" by simp_all
  then show "mpls_word bos e < 4294967296" by (simp add: e)
  show "mpls_word bos e div 4096 = fst e" using * by (cases bos; simp add: e; presburger)
  have "mpls_word bos e div 256 = 2 * (8 * l + tc) + (if bos then 1 else 0)"
    using * by (cases bos; simp add: e; presburger)
  then show "odd (mpls_word bos e div 256) \<longleftrightarrow> bos" by simp
qed

lemma u32_drop12: "n < 4294967296 \<Longrightarrow> drop_bit 12 (of_nat n :: u32) = of_nat (n div 4096)"
  by (simp add: word_unat_eq_iff unat_drop_bit_eq unat_of_nat drop_bit_eq_div unat_div_distrib)

lemma u32_bit8: "(of_nat n :: u32) AND 0x100 \<noteq> 0 \<longleftrightarrow> odd (n div 256)"
proof -
  have "(256 :: u32) = 2 ^ 8" by simp
  then have "bit (256 :: u32) k \<longleftrightarrow> k = 8" for k :: nat
    by (simp only: bit_exp_iff) auto
  then have "bit ((of_nat n :: u32) AND 0x100) k \<longleftrightarrow> k = 8 \<and> bit (of_nat n :: u32) 8" for k :: nat
    by (simp only: bit_and_iff) auto
  then have "(of_nat n :: u32) AND 0x100 \<noteq> 0 \<longleftrightarrow> bit (of_nat n :: u32) 8"
    by (subst bit_eq_iff) auto
  also have "\<dots> \<longleftrightarrow> odd (n div 256)"
    by (simp only: bit_of_nat_iff) (simp add: bit_iff_odd)
  finally show ?thesis .
qed

lemma decodeMPLSStack_entry:
  assumes "n < 4294967296"
  shows "decodeMPLSStack (be_enc 4 n @ r) =
    of_nat (n div 4096) # (if odd (n div 256) then [] else decodeMPLSStack r)"
proof -
  obtain a b c d where abcd: "be_enc 4 n = [a, b, c, d]"
    by (rule length_4E [OF length_be_enc [of 4 n]])
  moreover have "be_val [a, b, c, d] = n"
    using be_val_enc [of n 4] assms abcd by simp
  ultimately show ?thesis
    using u32_drop12 [OF assms] u32_bit8 [of n] by (simp del: be_val.simps be_enc.simps add: Let_def)
qed

lemma enc_mpls_Cons: "es \<noteq> [] \<Longrightarrow> enc_mpls (e # es) = be_enc 4 (mpls_word False e) @ enc_mpls es"
  by (cases es) auto

lemma decodeMPLSStack_enc:
  "es \<noteq> [] \<Longrightarrow> list_all mpls_wf es \<Longrightarrow> decodeMPLSStack (enc_mpls es @ r) = map (of_nat \<circ> fst) es"
proof (induction es)
  case (Cons e es)
  then show ?case
    by (cases "es = []")
       (auto simp: enc_mpls_Cons decodeMPLSStack_entry mpls_word_props simp del: be_enc.simps)
qed simp

lemma length_enc_mpls [simp]: "length (enc_mpls es) = 4 * length es"
  by (induction es rule: enc_mpls.induct) auto

lemma labelsCSV_join: "labelsCSV l = join '','' (map (\<lambda>x. dec (unat x)) l)"
proof -
  have *: "fst (foldl (\<lambda>(s, i). \<lambda>x. (s @ (if 0 < i then '','' else []) @ dec (unat x), Suc i)) (s, i) l) =
      s @ (if 0 < i \<and> l \<noteq> [] then '','' else []) @ join '','' (map (\<lambda>x. dec (unat x)) l)"
    for s :: string and i and l :: "u32 list"
  proof (induction l arbitrary: s i)
    case (Cons x l)
    show ?case by (simp add: Cons.IH) (cases l; simp)
  qed simp
  show ?thesis unfolding labelsCSV_def * by simp
qed

text \<open>The encapsulation attribute of a route or nexthop: its one child is the stack.\<close>

definition enc_encap :: "mpls_entry list \<Rightarrow> bytes" where
  "enc_encap es = enc_nla \<lparr>nl_type = 1, nl_val = enc_mpls es\<rparr>"

lemma parseMPLSEncap_enc:
  assumes "es \<noteq> []" "list_all mpls_wf es" "length es < 16000"
  shows "parseMPLSEncap (enc_encap es) = Some (map (of_nat \<circ> fst) es)"
proof -
  let ?a = "\<lparr>nl_type = 1, nl_val = enc_mpls es\<rparr>"
  have "nla_wf ?a" using assms(3) by (simp add: nla_wf_def nla_len_def)
  then have "forEachAttr fn (enc_nla ?a) s = fn (nla_key ?a) (nl_val ?a) s"
    for fn :: "u16 \<Rightarrow> bytes \<Rightarrow> u32 list \<Rightarrow> u32 list option" and s
    using forEachAttr_all [of "[?a]" fn s] by (cases "fn (nla_key ?a) (nl_val ?a) s") simp_all
  then show ?thesis
    using decodeMPLSStack_enc [OF assms(1,2), of "[]"]
    by (simp add: parseMPLSEncap_def enc_encap_def nla_key_def)
qed

end
