(* ===== verification/Fpm_Props.thy ===== *)
theory Fpm_Props
  imports Fpm_Codec Framing
begin

text \<open>
  What the FPM ingester does: framing of the stream, the routes and nexthop objects as zebra encodes
  them, the resolution of nexthop ids, and the forwarding table a client reads from the cache.
\<close>

section \<open>Messages\<close>

definition nl_msg :: "nat \<Rightarrow> bytes \<Rightarrow> bytes" where
  "nl_msg ty payload = le_enc 4 (16 + length payload) @ le_enc 2 ty @ replicate 10 0 @ payload"

text \<open>The attributes of a route that the ingester reads, and any other one.\<close>

datatype rt_item =
    RtDst ip
  | RtGw ip
  | RtOif nat
  | RtTable nat
  | RtNhId nat
  | RtEncapType nat
  | RtEncap "mpls_entry list"
  | RtOther nat bytes

fun rt_nla :: "rt_item \<Rightarrow> nlattr" where
  "rt_nla (RtDst a) = \<lparr>nl_type = 1, nl_val = a\<rparr>"
| "rt_nla (RtGw a) = \<lparr>nl_type = 5, nl_val = a\<rparr>"
| "rt_nla (RtOif n) = \<lparr>nl_type = 4, nl_val = le_enc 4 n\<rparr>"
| "rt_nla (RtTable n) = \<lparr>nl_type = 15, nl_val = le_enc 4 n\<rparr>"
| "rt_nla (RtNhId n) = \<lparr>nl_type = 30, nl_val = le_enc 4 n\<rparr>"
| "rt_nla (RtEncapType n) = \<lparr>nl_type = 21, nl_val = le_enc 2 n\<rparr>"
| "rt_nla (RtEncap es) = \<lparr>nl_type = 0x8000 + 22, nl_val = enc_encap es\<rparr>"
| "rt_nla (RtOther t v) = \<lparr>nl_type = t, nl_val = v\<rparr>"

fun rt_item_wf :: "rt_item \<Rightarrow> bool" where
  "rt_item_wf (RtDst a) \<longleftrightarrow> length a \<le> 16"
| "rt_item_wf (RtGw a) \<longleftrightarrow> length a \<le> 16"
| "rt_item_wf (RtOif n) \<longleftrightarrow> n < 4294967296"
| "rt_item_wf (RtTable n) \<longleftrightarrow> n < 4294967296"
| "rt_item_wf (RtNhId n) \<longleftrightarrow> n < 4294967296"
| "rt_item_wf (RtEncapType n) \<longleftrightarrow> n < 65536"
| "rt_item_wf (RtEncap es) \<longleftrightarrow> es \<noteq> [] \<and> list_all mpls_wf es \<and> length es < 16000"
| "rt_item_wf (RtOther t v) \<longleftrightarrow>
     t < 0x4000 \<and> t \<notin> {1, 4, 5, 15, 21, 22, 30} \<and> length v < 65532"

fun rt_step :: "rt_acc \<Rightarrow> rt_item \<Rightarrow> rt_acc" where
  "rt_step s (RtDst a) = s\<lparr>ra_dst := a\<rparr>"
| "rt_step s (RtGw a) = s\<lparr>ra_gw := a\<rparr>"
| "rt_step s (RtOif n) = s\<lparr>ra_oif := of_nat n\<rparr>"
| "rt_step s (RtTable n) = s\<lparr>ra_tbl := of_nat n\<rparr>"
| "rt_step s (RtNhId n) = s\<lparr>ra_nhid := of_nat n\<rparr>"
| "rt_step s (RtEncapType n) = s\<lparr>ra_encap := of_nat n\<rparr>"
| "rt_step s (RtEncap es) = s\<lparr>ra_labels := map (of_nat \<circ> fst) es\<rparr>"
| "rt_step s (RtOther t v) = s"

lemma length_enc_encap: "length (enc_encap es) = 4 + 4 * length es"
  by (simp add: enc_encap_def nla_len_def nla_align_def)

lemma key_small: "t < 0x4000 \<Longrightarrow> (of_nat t AND 0x3fff :: u16) = of_nat t"
proof -
  assume t: "t < 0x4000"
  have "(0x3fff :: u16) = mask 14" by (simp add: mask_eq_exp_minus_1)
  moreover have "take_bit 14 (of_nat t :: u16) = of_nat t"
    using t by (simp add: take_bit_of_nat take_bit_nat_eq_self)
  ultimately show ?thesis by (simp add: take_bit_eq_mask)
qed

lemma of_nat_u16_eq: "t < 65536 \<Longrightarrow> n < 65536 \<Longrightarrow> (of_nat t :: u16) = of_nat n \<longleftrightarrow> t = n"
  by (metis unat_of_nat_u16)

lemma rt_nla_wf: "rt_item_wf i \<Longrightarrow> nla_wf (rt_nla i)"
  by (cases i) (auto simp: nla_wf_def nla_len_def length_enc_encap)

lemma rt_attr_step:
  assumes "rt_item_wf i"
  shows "rt_attr (nla_key (rt_nla i)) (nl_val (rt_nla i)) s = Some (rt_step s i)"
proof (cases i)
  case (RtOther t v)
  with assms have t: "t < 0x4000" "t \<notin> {1, 4, 5, 15, 21, 22, 30}" by simp_all
  then have "(of_nat t :: u16) \<noteq> n" if "n \<in> {1, 4, 5, 15, 21, 22, 30}" for n
    using of_nat_u16_eq [of t] that by (auto simp: word_unat_eq_iff)
  with t RtOther show ?thesis by (simp add: rt_attr_def nla_key_def key_small)
qed (use assms in \<open>simp_all add: rt_attr_def nla_key_def parseMPLSEncap_enc del: le_enc.simps\<close>)

lemma fold_rt_attrs:
  "list_all rt_item_wf is \<Longrightarrow> fold_attrs rt_attr (map rt_nla is) s = Some (foldl rt_step s is)"
  by (induction "is" arbitrary: s) (simp_all add: rt_attr_step)

abbreviation (input) rt_init :: rt_acc where
  "rt_init \<equiv> \<lparr>ra_dst = [], ra_gw = [], ra_oif = 0, ra_tbl = 0, ra_nhid = 0, ra_labels = [], ra_encap = 0\<rparr>"

record route =
  r_family :: byte
  r_plen :: byte
  r_table8 :: byte
  r_kind :: byte
  r_items :: "rt_item list"

definition enc_route :: "bool \<Rightarrow> route \<Rightarrow> bytes" where
  "enc_route del r =
     nl_msg (if del then 25 else 24)
       ([r_family r, r_plen r, 0, 0, r_table8 r, 0, 0, r_kind r, 0, 0, 0, 0] @
        concat (map (enc_nla \<circ> rt_nla) (r_items r)))"

definition route_wf :: "route \<Rightarrow> bool" where
  "route_wf r \<longleftrightarrow> r_family r \<in> {2, 10} \<and> list_all rt_item_wf (r_items r)"

lemma nl_msg_fields:
  "length (nl_msg ty p) = 16 + length p" "take 2 (drop 4 (nl_msg ty p)) = le_enc 2 ty" "drop 16 (nl_msg ty p) = p"
  by (simp_all add: nl_msg_def del: le_enc.simps)

lemma handleNetlink_msg:
  assumes "ty < 65536"
  shows "handleNetlink ll (nl_msg ty p) f =
     (if ty = 104 then map_option (\<lambda>f. (f, [])) (handleNexthop (nl_msg ty p) False f)
      else if ty = 105 then map_option (\<lambda>f. (f, [])) (handleNexthop (nl_msg ty p) True f)
      else if ty = 24 then handleRoute ll (nl_msg ty p) False f
      else if ty = 25 then handleRoute ll (nl_msg ty p) True f
      else Some (f, []))"
  using assms of_nat_u16_eq [OF assms, of 104] of_nat_u16_eq [OF assms, of 105]
    of_nat_u16_eq [OF assms, of 24] of_nat_u16_eq [OF assms, of 25]
  by (simp add: handleNetlink_def nl_msg_fields slice_of_def del: le_enc.simps)

section \<open>The forwarding table in the cache\<close>

lemma aftPath_eq [simp]:
  "aftPath vrf af pfx leaf = aftPath vrf' af' pfx' leaf' \<longleftrightarrow>
    vrf = vrf' \<and> af = af' \<and> pfx = pfx' \<and> leaf = leaf'"
  by (auto simp: aftPath_def Let_def)

lemma aftPath_prefix [simp]:
  "prefix (aftPath vrf af pfx leaf) (aftPath vrf' af' pfx' leaf') \<longleftrightarrow>
    vrf = vrf' \<and> af = af' \<and> pfx = pfx' \<and> leaf = leaf'"
  by (auto simp: aftPath_def Let_def)

type_synonym aft_key = "string \<times> string \<times> string"
type_synonym aft_row = "tval option \<times> tval option"

text \<open>A row per network instance, address family and prefix: the next hop and the pushed labels.\<close>

definition aft_table :: "store \<Rightarrow> aft_key \<Rightarrow> aft_row" where
  "aft_table st = (\<lambda>(vrf, af, pfx).
     (store_look st ''openconfig'' (aftPath vrf af pfx ''next-hop''),
      store_look st ''openconfig'' (aftPath vrf af pfx ''pushed-mpls-label-stack'')))"

definition aft_entry :: "string \<Rightarrow> u32 list \<Rightarrow> aft_row" where
  "aft_entry nh labels =
     (Some (StringVal nh),
      if labels = [] then None else Some (StringVal (join '','' (map (\<lambda>x. dec (unat x)) labels))))"

lemma aft_table_effects:
  "aft_table (apply_effs st (route_effects vrf af pfx nhStr labels del)) =
    (aft_table st)((vrf, af, pfx) := (if del then (None, None) else aft_entry nhStr labels))"
  by (auto simp: fun_eq_iff aft_table_def route_effects_def aft_entry_def strVal_def Let_def labelsCSV_join
      look_apply_upd look_apply_del simp del: apply_eff.simps(1))

text \<open>The key and the entry of a route message, given the state of the ingester.\<close>

definition route_acc :: "route \<Rightarrow> rt_acc" where
  "route_acc r = foldl rt_step rt_init (r_items r)"

definition route_table :: "route \<Rightarrow> u32" where
  "route_table r = (if ra_tbl (route_acc r) \<noteq> 0 then ra_tbl (route_acc r) else ucast (r_table8 r))"

definition route_key :: "link_list \<Rightarrow> fpm \<Rightarrow> route \<Rightarrow> aft_key" where
  "route_key ll f r =
     (let (pfx, af) = formatPrefix (r_family r) (ra_dst (route_acc r)) (r_plen r)
      in (fst (vrf_Name ll (route_table r) (f_vrf f)), af, pfx))"

definition route_entry :: "fpm \<Rightarrow> route \<Rightarrow> aft_row" where
  "route_entry f r =
     (let s = route_acc r;
          own = (if ra_encap s \<in> {0, 1} then ra_labels s else []);
          (g, _, bh, ls) = (if ra_gw s = [] \<and> ra_nhid s \<noteq> 0 then resolveNH (f_nh f) (ra_nhid s) 0
                            else (ra_gw s, 0, False, []))
      in aft_entry
           (if bh \<or> r_kind r \<in> {6, 7, 8} then ''blackhole'' else if g \<noteq> [] then ip_string g else ''-'')
           (if own \<noteq> [] then own else ls))"

lemma formatPrefix_not_Nil: "fam \<in> {2, 10} \<Longrightarrow> formatPrefix fam dst n = (pfx, af) \<Longrightarrow> pfx \<noteq> []"
  by (auto simp: formatPrefix_def Let_def)

lemma route_entry_nexthop:
  assumes "route_nexthop (f_nh f) (r_kind r) (route_acc r)
      (if ra_encap (route_acc r) \<noteq> 0 \<and> ra_encap (route_acc r) \<noteq> 1 then [] else ra_labels (route_acc r)) =
      (gw, oif, bh, push)"
  shows "route_entry f r =
    aft_entry (if bh then ''blackhole'' else if gw \<noteq> [] then ip_string gw else ''-'') push"
proof -
  define s where "s = route_acc r"
  define own where "own = (if ra_encap s \<in> {0, 1} then ra_labels s else [])"
  define dead where "dead \<longleftrightarrow> r_kind r \<in> {6, 7, 8}"
  obtain g oif' bh' ls where res: "resolveNH (f_nh f) (ra_nhid s) 0 = (g, oif', bh', ls)"
    by (cases "resolveNH (f_nh f) (ra_nhid s) 0")
  have own': "(if ra_encap s \<noteq> 0 \<and> ra_encap s \<noteq> 1 then [] else ra_labels s) = own"
    by (simp add: own_def)
  have dead': "(r_kind r = 6 \<or> r_kind r = 7 \<or> r_kind r = 8) = dead"
    by (simp add: dead_def)
  have "route_nexthop (f_nh f) (r_kind r) s own =
      (if ra_gw s = [] \<and> ra_nhid s \<noteq> 0
       then (g, (if oif' \<noteq> 0 then oif' else ra_oif s), dead \<or> bh', (if own = [] then ls else own))
       else (ra_gw s, ra_oif s, dead, own))"
    by (simp only: route_nexthop_def Let_def res dead' prod.case)
  moreover have "route_entry f r =
      (if ra_gw s = [] \<and> ra_nhid s \<noteq> 0
       then aft_entry (if bh' \<or> dead then ''blackhole'' else if g \<noteq> [] then ip_string g else ''-'')
              (if own \<noteq> [] then own else ls)
       else aft_entry (if dead then ''blackhole'' else if ra_gw s \<noteq> [] then ip_string (ra_gw s) else ''-'') own)"
    by (simp add: route_entry_def s_def [symmetric] Let_def res own_def [symmetric] dead_def [symmetric]
        del: insert_iff)
  moreover have "route_nexthop (f_nh f) (r_kind r) s own = (gw, oif, bh, push)"
    using assms by (simp only: s_def [symmetric] own')
  ultimately show ?thesis
  proof (cases "ra_gw s = [] \<and> ra_nhid s \<noteq> 0")
    case True
    with \<open>route_nexthop _ _ s own = (gw, oif, bh, push)\<close> \<open>route_nexthop _ _ s own = (if _ then _ else _)\<close>
    have "gw = g" "bh = (bh' \<or> dead)" "push = (if own \<noteq> [] then own else ls)" by auto
    with True \<open>route_entry f r = _\<close> show ?thesis by (simp only: if_True simp_thms)
  next
    case False
    with \<open>route_nexthop _ _ s own = (gw, oif, bh, push)\<close> \<open>route_nexthop _ _ s own = (if _ then _ else _)\<close>
    have "gw = ra_gw s" "bh = dead" "push = own" by auto
    with False \<open>route_entry f r = _\<close> show ?thesis by (simp only: if_False)
  qed
qed

definition nh_text :: "bool \<Rightarrow> ip \<Rightarrow> string" where
  "nh_text bh gw = (if bh then ''blackhole'' else if gw \<noteq> [] then ip_string gw else ''-'')"

lemma handleRoute_effects:
  assumes "route_wf r"
  obtains bh gw push where "route_entry f r = aft_entry (nh_text bh gw) push"
    "handleRoute ll (enc_route del r) del f =
      Some (f\<lparr>f_vrf := snd (vrf_Name ll (route_table r) (f_vrf f))\<rparr>,
        (let (pfx, af) = formatPrefix (r_family r) (ra_dst (route_acc r)) (r_plen r)
         in route_effects (fst (vrf_Name ll (route_table r) (f_vrf f))) af pfx (nh_text bh gw) push del))"
proof -
  let ?as = "concat (map (enc_nla \<circ> rt_nla) (r_items r))"
  let ?p = "[r_family r, r_plen r, 0, 0, r_table8 r, 0, 0, r_kind r, 0, 0, 0, 0] @ ?as"
  let ?s = "route_acc r"
  have attrs: "forEachAttr rt_attr ?as rt_init = Some ?s"
    using assms forEachAttr_all [of "map rt_nla (r_items r)" rt_attr rt_init] fold_rt_attrs [of "r_items r"]
    by (auto simp: route_wf_def route_acc_def list_all_iff rt_nla_wf)
  obtain pfx af where pfx: "formatPrefix (r_family r) (ra_dst ?s) (r_plen r) = (pfx, af)" by fastforce
  have "pfx \<noteq> []" using formatPrefix_not_Nil [OF _ pfx] assms by (simp add: route_wf_def)
  obtain vrf rs where vrf: "vrf_Name ll (route_table r) (f_vrf f) = (vrf, rs)" by fastforce
  let ?labels = "if ra_encap ?s \<noteq> 0 \<and> ra_encap ?s \<noteq> 1 then [] else ra_labels ?s"
  obtain gw oif bh push where nh: "route_nexthop (f_nh f) (r_kind r) ?s ?labels = (gw, oif, bh, push)"
    by (cases "route_nexthop (f_nh f) (r_kind r) ?s ?labels")
  let ?nh = "if bh then ''blackhole'' else if gw \<noteq> [] then ip_string gw else ''-''"
  have entry: "route_entry f r = aft_entry (nh_text bh gw) push"
    unfolding nh_text_def by (rule route_entry_nexthop [OF nh])
  have msg: "slice_from (enc_route del r) 16 = Some ?p" "\<not> length (enc_route del r) < 16 + 12"
    using nl_msg_fields [of _ ?p] by (simp_all add: enc_route_def slice_from_def)
  have parts: "idx ?p 0 = Some (r_family r)" "idx ?p 1 = Some (r_plen r)" "idx ?p 7 = Some (r_kind r)"
      "idx ?p 4 = Some (r_table8 r)" "slice_from ?p 12 = Some ?as"
    by (simp_all add: idx_def slice_from_def)
  have tbl: "(if ra_tbl ?s \<noteq> 0 then ra_tbl ?s else ucast (r_table8 r)) = route_table r"
    by (simp add: route_table_def)
  have "handleRoute ll (enc_route del r) del f =
      Some (f\<lparr>f_vrf := rs\<rparr>, route_effects vrf af pfx ?nh push del)"
    unfolding handleRoute_def Let_def
    by (simp only: msg parts attrs tbl pfx vrf nh \<open>pfx \<noteq> []\<close> bind.simps if_False prod.case simp_thms)
  then show thesis
    using vrf pfx entry by (intro that [of bh gw push]) (simp_all add: nh_text_def)
qed

lemma handleRoute_enc:
  assumes "route_wf r"
  shows "\<exists>es. handleRoute ll (enc_route del r) del f =
      Some (f\<lparr>f_vrf := snd (vrf_Name ll (route_table r) (f_vrf f))\<rparr>, es) \<and>
    (\<forall>st. aft_table (apply_effs st es) =
      (aft_table st)(route_key ll f r := (if del then (None, None) else route_entry f r)))"
proof -
  obtain bh gw push where entry: "route_entry f r = aft_entry (nh_text bh gw) push"
    and eq: "handleRoute ll (enc_route del r) del f =
      Some (f\<lparr>f_vrf := snd (vrf_Name ll (route_table r) (f_vrf f))\<rparr>,
        (let (pfx, af) = formatPrefix (r_family r) (ra_dst (route_acc r)) (r_plen r)
         in route_effects (fst (vrf_Name ll (route_table r) (f_vrf f))) af pfx (nh_text bh gw) push del))"
    using handleRoute_effects [OF assms, where f = f and ll = ll and del = del] by blast
  obtain pfx af where pfx: "formatPrefix (r_family r) (ra_dst (route_acc r)) (r_plen r) = (pfx, af)" by fastforce
  show ?thesis using eq by (simp add: pfx aft_table_effects entry route_key_def)
qed

text \<open>
  A route that zebra streams becomes exactly one row of the forwarding table in the cache. For
  any IPv4 or IPv6 route message, with its attributes in any order and others between them, NEW sets
  the row of its network instance and prefix to the route's next hop (its own, or that of the
  nexthop object it names, or a blackhole) and its label stack, clearing the stack when it pushes no
  label; DEL clears the row; no other row changes, and the handler does not panic.
\<close>

theorem fpm_route_row:
  assumes "route_wf r"
  shows "\<exists>f' es. handleNetlink ll (enc_route del r) f = Some (f', es) \<and> f_nh f' = f_nh f \<and>
    (\<forall>st. aft_table (apply_effs st es) =
      (aft_table st)(route_key ll f r := (if del then (None, None) else route_entry f r)))"
proof -
  have "handleNetlink ll (enc_route del r) f = handleRoute ll (enc_route del r) del f"
    by (cases del) (simp_all add: enc_route_def handleNetlink_msg)
  then show ?thesis using handleRoute_enc [OF assms, of ll del f] by auto
qed

text \<open>A sample route: 10.1.0.0/24 in the main table, through 10.0.0.2, pushing the labels 18 and 80.\<close>

definition sample_route :: route where
  "sample_route = \<lparr>r_family = 2, r_plen = 24, r_table8 = 254, r_kind = 1,
     r_items = [RtDst [10, 1, 0, 0], RtOther 6 [0, 0, 0, 20], RtGw [10, 0, 0, 2], RtOif 3,
       RtEncapType 1, RtEncap [(18, 0, 64), (80, 0, 64)]]\<rparr>"

lemma sample_route_wf: "route_wf sample_route"
  by (simp add: route_wf_def sample_route_def)

lemma sample_route_row:
  "route_key ll f sample_route = (''default'', ''ipv4-unicast'', ''10.1.0.0/24'')"
  "route_entry f sample_route = (Some (StringVal ''10.0.0.2''), Some (StringVal ''18,80''))"
  by (simp_all add: route_key_def route_entry_def route_acc_def sample_route_def formatPrefix_def
      route_table_def vrf_Name_def aft_entry_def ip_string_4 dotted_def dec_eval Let_def)

theorem fpm_route_row_witness:
  "\<exists>f' es. handleNetlink None (enc_route False sample_route) (NewFPM None) = Some (f', es) \<and>
    aft_table (apply_effs (\<lambda>_. None) es) (''default'', ''ipv4-unicast'', ''10.1.0.0/24'') =
      (Some (StringVal ''10.0.0.2''), Some (StringVal ''18,80''))"
  using fpm_route_row [OF sample_route_wf, of None False "NewFPM None"]
  unfolding sample_route_row by fastforce


section \<open>Nexthop objects\<close>

datatype nh_item =
    NhOif nat
  | NhGw ip
  | NhBlackhole
  | NhEncapType nat
  | NhEncap "mpls_entry list"
  | NhGroup "(nat \<times> byte) list"
  | NhOther nat bytes

fun nh_nla :: "nh_item \<Rightarrow> nlattr" where
  "nh_nla (NhOif n) = \<lparr>nl_type = 5, nl_val = le_enc 4 n\<rparr>"
| "nh_nla (NhGw a) = \<lparr>nl_type = 6, nl_val = a\<rparr>"
| "nh_nla NhBlackhole = \<lparr>nl_type = 3, nl_val = []\<rparr>"
| "nh_nla (NhEncapType n) = \<lparr>nl_type = 7, nl_val = le_enc 2 n\<rparr>"
| "nh_nla (NhEncap es) = \<lparr>nl_type = 0x8000 + 8, nl_val = enc_encap es\<rparr>"
| "nh_nla (NhGroup ms) = \<lparr>nl_type = 2, nl_val = concat (map (\<lambda>(i, w). le_enc 4 i @ [w, 0, 0, 0]) ms)\<rparr>"
| "nh_nla (NhOther t v) = \<lparr>nl_type = t, nl_val = v\<rparr>"

fun nh_item_wf :: "nh_item \<Rightarrow> bool" where
  "nh_item_wf (NhOif n) \<longleftrightarrow> n < 4294967296"
| "nh_item_wf (NhGw a) \<longleftrightarrow> length a \<le> 16"
| "nh_item_wf NhBlackhole \<longleftrightarrow> True"
| "nh_item_wf (NhEncapType n) \<longleftrightarrow> n < 65536"
| "nh_item_wf (NhEncap es) \<longleftrightarrow> es \<noteq> [] \<and> list_all mpls_wf es \<and> length es < 16000"
| "nh_item_wf (NhGroup ms) \<longleftrightarrow> list_all (\<lambda>(i, w). i < 4294967296) ms \<and> length ms < 8000"
| "nh_item_wf (NhOther t v) \<longleftrightarrow> t < 0x4000 \<and> t \<notin> {1, 2, 3, 5, 6, 7, 8} \<and> length v < 65532"

fun nh_step :: "nh_acc \<Rightarrow> nh_item \<Rightarrow> nh_acc" where
  "nh_step s (NhOif n) = s\<lparr>na_oif := of_nat n\<rparr>"
| "nh_step s (NhGw a) = s\<lparr>na_gw := a\<rparr>"
| "nh_step s NhBlackhole = s\<lparr>na_bh := True\<rparr>"
| "nh_step s (NhEncapType n) = s\<lparr>na_encap := of_nat n\<rparr>"
| "nh_step s (NhEncap es) = s\<lparr>na_labels := map (of_nat \<circ> fst) es\<rparr>"
| "nh_step s (NhGroup ms) = s\<lparr>na_group := na_group s @ map (of_nat \<circ> fst) ms\<rparr>"
| "nh_step s (NhOther t v) = s"

lemma nh_nla_wf: "nh_item_wf i \<Longrightarrow> nla_wf (nh_nla i)"
proof (cases i)
  case (NhGroup ms)
  have "length (concat (map (\<lambda>(i, w). le_enc 4 i @ [w, 0, 0, 0]) ms)) = 8 * length ms"
    by (induction ms) auto
  moreover assume "nh_item_wf i"
  ultimately show ?thesis using NhGroup by (simp add: nla_wf_def nla_len_def del: length_concat)
qed (auto simp: nla_wf_def nla_len_def length_enc_encap)

lemma groupMembers_enc:
  "list_all (\<lambda>(i, w). i < 4294967296) ms \<Longrightarrow>
    groupMembers (concat (map (\<lambda>(i, w). le_enc 4 i @ [w, 0, 0, 0]) ms)) = map (of_nat \<circ> fst) ms"
proof (induction ms)
  case (Cons m ms)
  obtain i w where m: "m = (i, w)" by (cases m)
  obtain a b c d where abcd: "le_enc 4 i = [a, b, c, d]"
    by (rule length_4E [OF length_le_enc [of 4 i]])
  have "le_val [a, b, c, d] = i"
    using le_val_enc [of i 4] Cons.prems m abcd by simp
  with Cons m abcd show ?case by (simp del: le_enc.simps le_val.simps)
qed simp

lemma nh_attr_step:
  assumes "nh_item_wf i"
  shows "nh_attr (nla_key (nh_nla i)) (nl_val (nh_nla i)) s = Some (nh_step s i)"
proof (cases i)
  case (NhOther t v)
  with assms have t: "t < 0x4000" "t \<notin> {1, 2, 3, 5, 6, 7, 8}" by simp_all
  then have "(of_nat t :: u16) \<noteq> n" if "n \<in> {1, 2, 3, 5, 6, 7, 8}" for n
    using of_nat_u16_eq [of t] that by (auto simp: word_unat_eq_iff)
  with t NhOther show ?thesis by (simp add: nh_attr_def nla_key_def key_small)
qed (use assms in \<open>simp_all add: nh_attr_def nla_key_def parseMPLSEncap_enc groupMembers_enc del: le_enc.simps\<close>)

lemma fold_nh_attrs:
  "list_all nh_item_wf is \<Longrightarrow> fold_attrs nh_attr (map nh_nla is) s = Some (foldl nh_step s is)"
  by (induction "is" arbitrary: s) (simp_all add: nh_attr_step)

definition enc_nexthop :: "bool \<Rightarrow> nat \<Rightarrow> nh_item list \<Rightarrow> bytes" where
  "enc_nexthop del i items =
     nl_msg (if del then 105 else 104)
       (replicate 8 0 @ enc_nla \<lparr>nl_type = 1, nl_val = le_enc 4 i\<rparr> @ concat (map (enc_nla \<circ> nh_nla) items))"

abbreviation (input) nh_init :: "u32 \<Rightarrow> nh_acc" where
  "nh_init i \<equiv> \<lparr>na_id = i, na_oif = 0, na_gw = [], na_group = [], na_labels = [], na_encap = 0, na_bh = False\<rparr>"

text \<open>The object the items describe.\<close>

definition nexthop_of :: "nh_item list \<Rightarrow> nexthop" where
  "nexthop_of items =
     (let s = foldl nh_step (nh_init 0) items
      in \<lparr>nh_gw = na_gw s, nh_oif = na_oif s, nh_group = na_group s,
          nh_labels = (if na_encap s \<in> {0, 1} then na_labels s else []), nh_blackhole = na_bh s\<rparr>)"

lemma nh_step_id: "nh_step (s\<lparr>na_id := i\<rparr>) x = (nh_step s x)\<lparr>na_id := i\<rparr>"
  by (cases x) simp_all

lemma foldl_nh_id: "foldl nh_step (s\<lparr>na_id := i\<rparr>) xs = (foldl nh_step s xs)\<lparr>na_id := i\<rparr>"
  by (induction xs arbitrary: s) (simp_all add: nh_step_id)

lemma handleNexthop_enc:
  assumes "0 < i" "i < 4294967296" "list_all nh_item_wf items"
  shows "handleNexthop (enc_nexthop del i items) del f =
    Some (f\<lparr>f_nh := (f_nh f)(of_nat i := (if del then None else Some (nexthop_of items)))\<rparr>)"
proof -
  let ?id = "\<lparr>nl_type = 1, nl_val = le_enc 4 i\<rparr>"
  let ?as = "enc_nla ?id @ concat (map (enc_nla \<circ> nh_nla) items)"
  let ?s = "(foldl nh_step (nh_init 0) items)\<lparr>na_id := of_nat i\<rparr>"
  have "nh_attr (nla_key ?id) (nl_val ?id) (nh_init 0) = Some ((nh_init 0)\<lparr>na_id := of_nat i\<rparr>)"
    using assms(2) by (simp add: nh_attr_def nla_key_def del: le_enc.simps)
  moreover have "nla_wf ?id" by (simp add: nla_wf_def nla_len_def)
  moreover have "forEachAttr nh_attr (concat (map (enc_nla \<circ> nh_nla) items)) s = Some (foldl nh_step s items)" for s
    using assms(3) forEachAttr_all [of "map nh_nla items" nh_attr s] fold_nh_attrs [of items s]
    by (auto simp: list_all_iff nh_nla_wf)
  ultimately have attrs: "forEachAttr nh_attr ?as (nh_init 0) = Some ?s"
    by (simp only: forEachAttr_attr bind.simps foldl_nh_id)
  have msg: "slice_from (enc_nexthop del i items) 24 = Some ?as" "\<not> length (enc_nexthop del i items) < 24"
    by (simp_all add: enc_nexthop_def nl_msg_def slice_from_def)
  have "(of_nat i :: u32) \<noteq> 0" using assms(1,2) by (metis unat_of_nat_u32 unsigned_0 less_irrefl)
  then show ?thesis
    using attrs msg by (simp add: handleNexthop_def nexthop_of_def Let_def)
qed

lemma handleNetlink_nexthop:
  assumes "0 < i" "i < 4294967296" "list_all nh_item_wf items"
  shows "handleNetlink ll (enc_nexthop del i items) f =
    Some (f\<lparr>f_nh := (f_nh f)(of_nat i := (if del then None else Some (nexthop_of items)))\<rparr>, [])"
proof -
  have "handleNetlink ll (enc_nexthop del i items) f =
      map_option (\<lambda>f. (f, [])) (handleNexthop (enc_nexthop del i items) del f)"
    by (cases del) (simp_all add: enc_nexthop_def handleNetlink_msg)
  then show ?thesis using handleNexthop_enc [OF assms] by simp
qed


section \<open>Resolution of nexthop ids\<close>

definition is_group :: "nexthop \<Rightarrow> bool" where
  "is_group n \<longleftrightarrow> \<not> nh_blackhole n \<and> nh_gw n = [] \<and> nh_oif n = 0 \<and> nh_group n \<noteq> []"

text \<open>A path of ids, each the first member of the group before it.\<close>

fun group_path :: "(u32 \<Rightarrow> nexthop option) \<Rightarrow> u32 list \<Rightarrow> bool" where
  "group_path nhs (i # j # is) \<longleftrightarrow>
     (\<exists>n. nhs i = Some n \<and> is_group n \<and> hd (nh_group n) = j) \<and> group_path nhs (j # is)"
| "group_path nhs _ \<longleftrightarrow> True"

text \<open>What an object that is not a group stands for.\<close>

definition concrete :: "nexthop option \<Rightarrow> ip \<times> u32 \<times> bool \<times> u32 list" where
  "concrete v =
     (case v of None \<Rightarrow> ([], 0, False, [])
      | Some n \<Rightarrow> if nh_blackhole n then ([], 0, True, []) else (nh_gw n, nh_oif n, False,
          if nh_gw n = [] \<and> nh_oif n = 0 then [] else nh_labels n))"

lemma resolveNH_group:
  "depth \<le> 4 \<Longrightarrow> nhs i = Some n \<Longrightarrow> is_group n \<Longrightarrow>
    resolveNH nhs i depth = resolveNH nhs (hd (nh_group n)) (depth + 1)"
  by (subst resolveNH.simps) (simp add: is_group_def)

lemma resolveNH_concrete:
  "depth \<le> 4 \<Longrightarrow> (\<And>n. nhs i = Some n \<Longrightarrow> \<not> is_group n) \<Longrightarrow> resolveNH nhs i depth = concrete (nhs i)"
  by (subst resolveNH.simps) (auto simp: is_group_def concrete_def split: option.splits)

lemma resolveNH_path:
  assumes "group_path nhs (i # is)" "length is + depth \<le> 4" "\<And>n. nhs (last (i # is)) = Some n \<Longrightarrow> \<not> is_group n"
  shows "resolveNH nhs i depth = concrete (nhs (last (i # is)))"
  using assms
proof (induction "is" arbitrary: i depth)
  case Nil
  then show ?case using resolveNH_concrete by simp
next
  case (Cons j "is")
  then obtain n where n: "nhs i = Some n" "is_group n" "hd (nh_group n) = j" by auto
  have "resolveNH nhs j (depth + 1) = concrete (nhs (last (j # is)))"
    using Cons.prems by (intro Cons.IH) auto
  with n Cons.prems(2) show ?case using resolveNH_group [of depth nhs i n] by simp
qed

lemma resolveNH_long:
  assumes "group_path nhs (i # is)" "depth \<le> 5" "length is + depth = 5"
  shows "resolveNH nhs i depth = ([], 0, False, [])"
  using assms
proof (induction "is" arbitrary: i depth)
  case Nil
  then show ?case by (subst resolveNH.simps) simp
next
  case (Cons j "is")
  then obtain n where n: "nhs i = Some n" "is_group n" "hd (nh_group n) = j" by auto
  have "resolveNH nhs j (depth + 1) = ([], 0, False, [])"
    using Cons.prems by (intro Cons.IH) auto
  with n Cons.prems(3) show ?case using resolveNH_group [of depth nhs i n] by simp
qed

text \<open>
  C17: a nexthop id resolves through nested groups. Along a path of first members, of at most four
  groups, it resolves to the object at the end of the path: its gateway, interface and labels, or a
  blackhole, or nothing if it is unknown. A path of five groups, a cycle in particular, resolves to
  nothing, and the resolution always ends. (The comment of the code speaks of one level of groups.)
\<close>

theorem fpm_resolve_follows_groups:
  assumes "group_path nhs (i # js)"
    and "length js = 5 \<or> length js \<le> 4 \<and> (\<forall>n. nhs (last (i # js)) = Some n \<longrightarrow> \<not> is_group n)"
  shows "resolveNH nhs i 0 =
    (if length js \<le> 4 then concrete (nhs (last (i # js))) else ([], 0, False, []))"
  using assms resolveNH_path [of nhs i js 0] resolveNH_long [of nhs i js 0] by auto

theorem fpm_resolve_follows_groups_witness:
  "resolveNH [1 \<mapsto> \<lparr>nh_gw = [], nh_oif = 0, nh_group = [2], nh_labels = [], nh_blackhole = False\<rparr>,
      2 \<mapsto> \<lparr>nh_gw = [], nh_oif = 0, nh_group = [3, 9], nh_labels = [], nh_blackhole = False\<rparr>,
      3 \<mapsto> \<lparr>nh_gw = [10, 0, 0, 2], nh_oif = 4, nh_group = [], nh_labels = [80], nh_blackhole = False\<rparr>] 1 0 =
    ([10, 0, 0, 2], 4, False, [80])"
  by (subst fpm_resolve_follows_groups [where js = "[2, 3]"]) (simp_all add: is_group_def concrete_def)

end
