(* ===== verification/Fpm_Stream.thy ===== *)
theory Fpm_Stream
  imports Fpm_Props
begin

text \<open>
  The whole path of the FPM ingester, from the bytes of zebra's connection to the forwarding table in
  the cache, and the input on which it panics.
\<close>

section \<open>Framing\<close>

definition fpm_flen :: "bytes \<Rightarrow> nat option" where
  "fpm_flen f = (let n = be_val (take 2 (drop 2 f)) in if n < 4 then None else Some n)"

definition fpm_disp :: "link_list \<Rightarrow> bytes \<Rightarrow> fpm \<Rightarrow> (fpm \<times> eff list) option" where
  "fpm_disp ll f s = (if f ! 1 \<noteq> 1 then Some (s, []) else handleNetlink ll (drop 4 f) s)"

interpretation fpm_stream: framed_loop 4 fpm_flen "\<lambda>k. fpm_disp (env k)" "fpm_handle env" for env
proof unfold_locales
  fix k inp and s :: fpm
  show "fpm_handle env k inp s =
         (if length inp < 4 then Some (s, [])
          else case fpm_flen inp of
            None \<Rightarrow> Some (s, [])
          | Some n \<Rightarrow>
              if length inp < n then Some (s, [])
              else do {
                (s', es) \<leftarrow> fpm_disp (env k) (take n inp) s;
                (s'', es') \<leftarrow> fpm_handle env (Suc k) (drop n inp) s';
                Some (s'', es @ es') })"
    by (subst fpm_handle.simps)
       (simp add: fpm_flen_def fpm_disp_def go_simps not_less Let_def unat_be16 drop_take)
qed (auto simp: fpm_flen_def Let_def nth_append split: if_splits)

definition fpm_frame :: "byte \<Rightarrow> bytes \<Rightarrow> bytes" where
  "fpm_frame ty body = [1, ty] @ be_enc 2 (4 + length body) @ body"

lemma length_fpm_frame [simp]: "length (fpm_frame ty body) = 4 + length body"
  by (simp add: fpm_frame_def)

lemma fpm_flen_frame:
  "length body < 65532 \<Longrightarrow> fpm_flen (fpm_frame ty body @ r) = Some (4 + length body)"
  by (simp add: fpm_flen_def fpm_frame_def be_val_enc Let_def)

lemma fpm_disp_frame:
  "fpm_disp ll (fpm_frame ty body) s = (if ty = 1 then handleNetlink ll body s else Some (s, []))"
  by (simp add: fpm_disp_def fpm_frame_def)


section \<open>From the stream to the forwarding table\<close>

datatype fpm_msg =
    Route bool route
  | Nexthop bool nat "nh_item list"
  | Foreign byte bytes

fun fpm_msg_frame :: "fpm_msg \<Rightarrow> bytes" where
  "fpm_msg_frame (Route del r) = fpm_frame 1 (enc_route del r)"
| "fpm_msg_frame (Nexthop del i items) = fpm_frame 1 (enc_nexthop del i items)"
| "fpm_msg_frame (Foreign ty body) = fpm_frame ty body"

fun fpm_msg_wf :: "fpm_msg \<Rightarrow> bool" where
  "fpm_msg_wf (Route del r) \<longleftrightarrow> route_wf r \<and> length (enc_route del r) < 65532"
| "fpm_msg_wf (Nexthop del i items) \<longleftrightarrow>
     0 < i \<and> i < 4294967296 \<and> list_all nh_item_wf items \<and> length (enc_nexthop del i items) < 65532"
| "fpm_msg_wf (Foreign ty body) \<longleftrightarrow> ty \<noteq> 1 \<and> length body < 65532"

text \<open>The specification: a nexthop message changes the map of nexthops, a route message a row of the
  table, a frame of another type nothing.\<close>

type_synonym fpm_abs = "fpm \<times> (aft_key \<Rightarrow> aft_row)"

fun fpm_spec :: "link_list \<Rightarrow> fpm_msg \<Rightarrow> fpm_abs \<Rightarrow> fpm_abs" where
  "fpm_spec ll (Route del r) (f, tbl) =
     (f\<lparr>f_vrf := snd (vrf_Name ll (route_table r) (f_vrf f))\<rparr>,
      tbl(route_key ll f r := (if del then (None, None) else route_entry f r)))"
| "fpm_spec ll (Nexthop del i items) (f, tbl) =
     (f\<lparr>f_nh := (f_nh f)(of_nat i := (if del then None else Some (nexthop_of items)))\<rparr>, tbl)"
| "fpm_spec ll (Foreign ty body) (f, tbl) = (f, tbl)"

fun fpm_specs :: "(nat \<Rightarrow> link_list) \<Rightarrow> nat \<Rightarrow> fpm_msg list \<Rightarrow> fpm_abs \<Rightarrow> fpm_abs" where
  "fpm_specs env k [] a = a"
| "fpm_specs env k (m # ms) a = fpm_specs env (Suc k) ms (fpm_spec (env k) m a)"

lemma fpm_disp_msg:
  assumes "fpm_msg_wf m"
  shows "\<exists>es. fpm_disp ll (fpm_msg_frame m) f = Some (fst (fpm_spec ll m (f, tbl)), es) \<and>
    (\<forall>st. aft_table (apply_effs st es) = snd (fpm_spec ll m (f, aft_table st)))"
proof (cases m)
  case (Route del r)
  then show ?thesis
    using assms handleRoute_enc [of r ll del f]
    by (cases del) (simp_all add: fpm_disp_frame enc_route_def handleNetlink_msg)
next
  case (Nexthop del i items)
  then show ?thesis using assms by (simp add: fpm_disp_frame handleNetlink_nexthop)
next
  case (Foreign ty body)
  then show ?thesis using assms by (simp add: fpm_disp_frame)
qed

lemma fold_frames_fpm:
  assumes "list_all fpm_msg_wf ms"
  shows "\<exists>es. fold_frames (\<lambda>k. fpm_disp (env k)) k (map fpm_msg_frame ms) f =
      Some (fst (fpm_specs env k ms (f, tbl)), es) \<and>
    (\<forall>st. aft_table (apply_effs st es) = snd (fpm_specs env k ms (f, aft_table st)))"
  using assms
proof (induction ms arbitrary: k f tbl)
  case (Cons m ms)
  let ?f = "fst (fpm_spec (env k) m (f, tbl))"
  have fst_tbl: "fst (fpm_spec (env k) m (f, t)) = ?f" for t
    by (cases m) simp_all
  obtain es1 where es1: "fpm_disp (env k) (fpm_msg_frame m) f = Some (?f, es1)"
      "\<And>st. aft_table (apply_effs st es1) = snd (fpm_spec (env k) m (f, aft_table st))"
    using Cons.prems fpm_disp_msg [of m "env k" f tbl] by auto
  obtain es2 where es2: "fold_frames (\<lambda>k. fpm_disp (env k)) (Suc k) (map fpm_msg_frame ms) ?f =
        Some (fst (fpm_specs env (Suc k) ms (?f, snd (fpm_spec (env k) m (f, tbl)))), es2)"
      "\<And>st. aft_table (apply_effs st es2) = snd (fpm_specs env (Suc k) ms (?f, aft_table st))"
    using Cons.IH [of "Suc k" ?f "snd (fpm_spec (env k) m (f, tbl))"] Cons.prems by auto
  have "fpm_spec (env k) m (f, t) = (?f, snd (fpm_spec (env k) m (f, t)))" for t
    using fst_tbl [of t] by (metis prod.collapse)
  with es1 es2 show ?case by (auto simp del: fpm_spec.simps)
qed simp

text \<open>
  C18: from the bytes of zebra's connection to the table a client reads: on the wire form of any
  sequence of route and nexthop messages, interleaved with frames of other types, followed by an
  incomplete frame, the ingester returns, its nexthop map and VRF map are those of the
  specification, and the forwarding table in the cache is the one the specification computes from
  the table before.
\<close>

theorem fpm_stream_refines:
  assumes "list_all fpm_msg_wf ms" and "length rest < 4"
  shows "\<exists>es. fpm_handle env k (concat (map fpm_msg_frame ms) @ rest) f =
      Some (fst (fpm_specs env k ms (f, tbl)), es) \<and>
    (\<forall>st. aft_table (apply_effs st es) = snd (fpm_specs env k ms (f, aft_table st)))"
proof -
  have "fpm_flen (fpm_msg_frame m) = Some (length (fpm_msg_frame m))" if "m \<in> set ms" for m
    using assms(1) that fpm_flen_frame [where r = "[]"] by (cases m) (auto simp: list_all_iff)
  then have "fpm_handle env k (concat (map fpm_msg_frame ms) @ rest) f = do {
      (s', es) \<leftarrow> fold_frames (\<lambda>k. fpm_disp (env k)) k (map fpm_msg_frame ms) f;
      (s'', es') \<leftarrow> fpm_handle env (k + length (map fpm_msg_frame ms)) rest s';
      Some (s'', es @ es') }"
    by (intro fpm_stream.loop_frames) auto
  moreover obtain es where "fold_frames (\<lambda>k. fpm_disp (env k)) k (map fpm_msg_frame ms) f =
        Some (fst (fpm_specs env k ms (f, tbl)), es)"
      "\<forall>st. aft_table (apply_effs st es) = snd (fpm_specs env k ms (f, aft_table st))"
    using fold_frames_fpm [OF assms(1)] by blast
  ultimately show ?thesis
    using fpm_stream.loop_incomplete(1) [OF assms(2)] by auto
qed

definition sample_msgs :: "fpm_msg list" where
  "sample_msgs =
     [Nexthop False 7 [NhGw [10, 0, 0, 2], NhOif 3, NhEncap [(18, 0, 64)]],
      Foreign 2 [1, 2, 3],
      Nexthop False 9 [NhGroup [(7, 0)]],
      Route False \<lparr>r_family = 2, r_plen = 24, r_table8 = 254, r_kind = 1,
        r_items = [RtDst [10, 1, 0, 0], RtNhId 9]\<rparr>]"

lemma sample_msgs_wf: "list_all fpm_msg_wf sample_msgs"
  by (simp add: sample_msgs_def route_wf_def enc_route_def enc_nexthop_def nl_msg_def nla_len_def
      nla_align_def length_enc_encap)

lemma sample_resolve:
  "resolveNH (\<lambda>x. if x = 9 then Some (nexthop_of [NhGroup [(7, 0)]])
      else if x = 7 then Some (nexthop_of [NhGw [10, 0, 0, 2], NhOif 3, NhEncap [(18, 0, 64)]]) else None) 9 0 =
    ([10, 0, 0, 2], 3, False, [18])"
  by (subst resolveNH.simps, simp add: nexthop_of_def) (subst resolveNH.simps, simp add: nexthop_of_def)

lemma sample_msgs_row:
  "snd (fpm_specs (\<lambda>_. None) 0 sample_msgs (NewFPM None, tbl)) (''default'', ''ipv4-unicast'', ''10.1.0.0/24'') =
    (Some (StringVal ''10.0.0.2''), Some (StringVal ''18''))"
  using sample_resolve
  by (simp add: sample_msgs_def NewFPM_def route_key_def route_entry_def route_acc_def formatPrefix_def
      route_table_def vrf_Name_def aft_entry_def ip_string_4 dotted_def dec_eval Let_def fun_upd_def)

theorem fpm_stream_refines_witness:
  "\<exists>f' es. fpm_handle (\<lambda>_. None) 0 (concat (map fpm_msg_frame sample_msgs) @ [1, 1]) (NewFPM None) = Some (f', es) \<and>
    aft_table (apply_effs (\<lambda>_. None) es) (''default'', ''ipv4-unicast'', ''10.1.0.0/24'') =
      (Some (StringVal ''10.0.0.2''), Some (StringVal ''18''))"
  using fpm_stream_refines [OF sample_msgs_wf, of "[1, 1]" "\<lambda>_. None" 0 "NewFPM None"] sample_msgs_row
  by fastforce


section \<open>The input that panics\<close>

text \<open>
  C19: a route message whose last attribute fills the message without its padding makes the ingester
  slice past the end of the message and panic, whatever attributes precede it.
\<close>

theorem fpm_unpadded_attr_panics:
  assumes "length hdr = 12" "list_all rt_item_wf items" "nla_wf a" "nla_len a mod 4 \<noteq> 0"
  shows "handleNetlink ll
     (nl_msg (if del then 25 else 24) (hdr @ concat (map (enc_nla \<circ> rt_nla) items) @ enc_nla_bare a)) f = None"
proof -
  let ?as = "concat (map (enc_nla \<circ> rt_nla) items) @ enc_nla_bare a"
  let ?b = "nl_msg (if del then 25 else 24) (hdr @ ?as)"
  have "list_all nla_wf (map rt_nla items)" using assms(2) by (auto simp: list_all_iff rt_nla_wf)
  from forEachAttr_enc [OF this, of rt_attr "enc_nla_bare a" rt_init]
  have attrs: "forEachAttr rt_attr ?as rt_init = None"
    using forEachAttr_unpadded [OF assms(3,4), of rt_attr] by (auto split: Option.bind_splits)
  have msg: "slice_from ?b 16 = Some (hdr @ ?as)" "\<not> length ?b < 16 + 12"
    using assms(1) nl_msg_fields [of _ "hdr @ ?as"] by (simp_all add: slice_from_def)
  have parts: "slice_from (hdr @ ?as) 12 = Some ?as" "idx (hdr @ ?as) 0 = Some (hdr ! 0)"
      "idx (hdr @ ?as) 1 = Some (hdr ! 1)" "idx (hdr @ ?as) 7 = Some (hdr ! 7)"
      "idx (hdr @ ?as) 4 = Some (hdr ! 4)"
    using assms(1) by (simp_all add: slice_from_def idx_def nth_append)
  have "handleRoute ll ?b del f = None"
    unfolding handleRoute_def Let_def
    by (simp only: msg parts attrs bind.simps if_False)
  moreover have "handleNetlink ll ?b f = handleRoute ll ?b del f"
    by (cases del) (simp_all add: handleNetlink_msg)
  ultimately show ?thesis by simp
qed

theorem fpm_unpadded_attr_panics_witness:
  "handleNetlink None (nl_msg 24 (replicate 12 0 @ [6, 0, 21, 0, 1, 0])) (NewFPM None) = None"
  using fpm_unpadded_attr_panics [of "replicate 12 0" "[]" "\<lparr>nl_type = 21, nl_val = [1, 0]\<rparr>" None False]
  by (simp add: nla_wf_def nla_len_def enc_nla_bare_def numeral_2_eq_2)

end
