(* ===== verification/Correlate.thy ===== *)
theory Correlate
  imports GoStrings
begin

text \<open>
  \<^verbatim>\<open>internal/correlate/correlate.go\<close>: the correlator that groups the events of the ingesters into
  convergence traces. Times are nanoseconds; \<^verbatim>\<open>Time.Sub\<close> saturates at the range of \<^verbatim>\<open>int64\<close>. The
  buffered channel is the list \<open>c_ch\<close>. One round of the loop of \<^verbatim>\<open>Run\<close> is \<open>run_event\<close> or \<open>run_tick\<close>,
  and the step relation \<open>corr_step\<close> interleaves them with the calls to \<^verbatim>\<open>Emit\<close>.
\<close>

section \<open>Data\<close>

record event =
  ev_bus :: string
  ev_kind :: string
  ev_key :: string
  ev_detail :: string
  ev_root :: bool
  ev_ts :: int

record span =
  sp_offset :: int
  sp_bus :: string
  sp_kind :: string
  sp_key :: string
  sp_detail :: string

record trace =
  t_node :: string
  t_id :: int
  t_root :: string
  t_start :: int
  t_span :: int
  t_spans :: "span list"

record correlator =
  c_node :: string
  c_ch :: "event list"
  c_window :: int
  c_idle :: int
  c_warmup :: int
  c_started :: int
  c_ring :: "trace list"
  c_max :: nat
  c_seq :: int

record acc =
  a_start :: int
  a_last :: int
  a_root :: string
  a_churn :: bool
  a_events :: "event list"

abbreviation (input) seconds :: int where "seconds \<equiv> 1000000000"

definition corr_New :: "string \<Rightarrow> correlator" where
  "corr_New node =
     \<lparr>c_node = node, c_ch = [], c_window = 3 * seconds, c_idle = 3 * seconds,
      c_warmup = 15 * seconds, c_started = 0, c_ring = [], c_max = 50, c_seq = 0\<rparr>"

text \<open>\<^verbatim>\<open>Time.Sub\<close> and \<^verbatim>\<open>Duration.Milliseconds\<close>.\<close>

definition time_sub :: "int \<Rightarrow> int \<Rightarrow> int" where
  "time_sub a b = max (- (2 ^ 63)) (min (2 ^ 63 - 1) (a - b))"

definition millis :: "int \<Rightarrow> int" where
  "millis d = tdiv d 1000000"

lemma millis_mono: "d \<le> d' \<Longrightarrow> millis d \<le> millis d'"
  by (simp add: millis_def tdiv_mono)


section \<open>Operations\<close>

text \<open>\<^verbatim>\<open>Emit\<close> on a correlator that may be nil: a full buffer drops the event.\<close>

abbreviation (input) chanCap :: nat where "chanCap \<equiv> 1024"

definition corr_Emit ::
    "string \<Rightarrow> string \<Rightarrow> string \<Rightarrow> string \<Rightarrow> bool \<Rightarrow> int \<Rightarrow> correlator option \<Rightarrow> correlator option" where
  "corr_Emit bus kind key detail root now oc =
     (case oc of None \<Rightarrow> None
      | Some c \<Rightarrow>
          Some (if length (c_ch c) < chanCap
                then c\<lparr>c_ch := c_ch c @ [\<lparr>ev_bus = bus, ev_kind = kind, ev_key = key, ev_detail = detail,
                          ev_root = root, ev_ts = now\<rparr>]\<rparr>
                else c))"

definition span_of :: "int \<Rightarrow> event \<Rightarrow> span" where
  "span_of start e =
     \<lparr>sp_offset = millis (time_sub (ev_ts e) start), sp_bus = ev_bus e, sp_kind = ev_kind e,
      sp_key = ev_key e, sp_detail = ev_detail e\<rparr>"

definition flush :: "acc option \<Rightarrow> correlator \<Rightarrow> correlator" where
  "flush oa c =
     (case oa of None \<Rightarrow> c
      | Some a \<Rightarrow>
          if a_events a = [] then c
          else if a_churn a \<and> length (a_events a) < 3 then c
          else
            (let seq = c_seq c + 1;
                 spans = map (span_of (a_start a)) (a_events a);
                 t = \<lparr>t_node = c_node c, t_id = seq, t_root = a_root a, t_start = a_start a,
                      t_span = millis (time_sub (a_last a) (a_start a)), t_spans = spans\<rparr>;
                 ring = c_ring c @ [t];
                 ring = (if c_max c < length ring then drop (length ring - c_max c) ring else ring)
             in c\<lparr>c_seq := seq, c_ring := ring\<rparr>))"

definition open_trace :: "event \<Rightarrow> acc" where
  "open_trace e =
     (if \<not> ev_root e
      then \<lparr>a_start = ev_ts e, a_last = ev_ts e,
            a_root = ''churn/'' @ ev_bus e @ ''-'' @ ev_kind e @ '' '' @ ev_key e, a_churn = True, a_events = []\<rparr>
      else \<lparr>a_start = ev_ts e, a_last = ev_ts e,
            a_root = ev_bus e @ ''/'' @ ev_kind e @ '' '' @ ev_key e, a_churn = False, a_events = []\<rparr>)"

definition join_trace :: "event \<Rightarrow> acc \<Rightarrow> acc" where
  "join_trace e a = a\<lparr>a_last := ev_ts e, a_events := a_events a @ [e]\<rparr>"

type_synonym run_state = "correlator \<times> acc option"

text \<open>The arm of the select that receives an event, at time \<open>now\<close>.\<close>

definition run_event :: "event \<Rightarrow> int \<Rightarrow> run_state \<Rightarrow> run_state" where
  "run_event e now s =
     (let (c, active) = s;
          late = (case active of None \<Rightarrow> False | Some a \<Rightarrow> c_window c < time_sub (ev_ts e) (a_last a));
          (c, active) = (if late then (flush active c, None) else (c, active))
      in case active of
           Some a \<Rightarrow> (c, Some (join_trace e a))
         | None \<Rightarrow>
             if \<not> ev_root e \<and> time_sub now (c_started c) < c_warmup c then (c, None)
             else (c, Some (join_trace e (open_trace e))))"

text \<open>The arm of the ticker.\<close>

definition run_tick :: "int \<Rightarrow> run_state \<Rightarrow> run_state" where
  "run_tick now s =
     (let (c, active) = s
      in case active of
           None \<Rightarrow> s
         | Some a \<Rightarrow> if c_idle c < time_sub now (a_last a) then (flush active c, None) else s)"

definition run_start :: "int \<Rightarrow> correlator \<Rightarrow> run_state" where
  "run_start now c = (c\<lparr>c_started := now\<rparr>, None)"

definition ServeHTTP :: "correlator \<Rightarrow> trace list" where
  "ServeHTTP c = c_ring c"

text \<open>The interleavings: \<^verbatim>\<open>Emit\<close> by an ingester, and the two arms of the loop (the select takes any arm
  that is ready).\<close>

inductive corr_step :: "run_state \<Rightarrow> run_state \<Rightarrow> bool" where
  emit: "corr_Emit bus kind key detail root now (Some c) = Some c' \<Longrightarrow> corr_step (c, a) (c', a)"
| recv: "c_ch c = e # es \<Longrightarrow> corr_step (c, a) (run_event e now (c\<lparr>c_ch := es\<rparr>, a))"
| tick: "corr_step (c, a) (run_tick now (c, a))"

inductive corr_reach :: "string \<Rightarrow> run_state \<Rightarrow> bool" for node where
  init: "corr_reach node (run_start now (corr_New node))"
| step: "corr_reach node s \<Longrightarrow> corr_step s s' \<Longrightarrow> corr_reach node s'"

inductive_cases corr_stepE: "corr_step s s'"

inductive_simps corr_step_pair: "corr_step (c, a) s'"

end
