(* ===== verification/Correlate_Props.thy ===== *)
theory Correlate_Props
  imports Correlate
begin

text \<open>
  What the correlator does: the invariant of its reachable states, the partition of an event stream
  into bursts as its specification, and the cases in which events are lost.
\<close>

section \<open>Reachable states\<close>

definition acc_ok :: "acc \<Rightarrow> bool" where
  "acc_ok a \<longleftrightarrow>
     a_events a \<noteq> [] \<and> a_start a = ev_ts (hd (a_events a)) \<and> a_last a = ev_ts (last (a_events a)) \<and>
     a_churn a = (\<not> ev_root (hd (a_events a)))"

definition ring_ok :: "correlator \<Rightarrow> bool" where
  "ring_ok c \<longleftrightarrow>
     0 \<le> c_seq c \<and> int (length (c_ring c)) = min (int (c_max c)) (c_seq c) \<and>
     map t_id (c_ring c) = [c_seq c - int (length (c_ring c)) + 1..c_seq c] \<and>
     list_all (\<lambda>t. t_node t = c_node c \<and> t_spans t \<noteq> [] \<and> sp_offset (hd (t_spans t)) = 0) (c_ring c)"

definition corr_inv :: "string \<Rightarrow> run_state \<Rightarrow> bool" where
  "corr_inv node s \<longleftrightarrow>
     (let (c, active) = s
      in c_node c = node \<and> c_max c = 50 \<and> length (c_ch c) \<le> 1024 \<and> ring_ok c \<and>
         (case active of None \<Rightarrow> True | Some a \<Rightarrow> acc_ok a))"

lemma time_sub_self [simp]: "time_sub t t = 0"
  by (simp add: time_sub_def)

lemma millis_0 [simp]: "millis 0 = 0"
  by (simp add: millis_def tdiv_def)

lemma flush_fields [simp]:
  "c_node (flush a c) = c_node c" "c_max (flush a c) = c_max c" "c_ch (flush a c) = c_ch c"
  "c_window (flush a c) = c_window c" "c_idle (flush a c) = c_idle c"
  "c_warmup (flush a c) = c_warmup c" "c_started (flush a c) = c_started c"
  by (auto simp: flush_def Let_def split: option.splits)

lemma flush_ch: "flush a (c\<lparr>c_ch := es\<rparr>) = (flush a c)\<lparr>c_ch := es\<rparr>"
  by (auto simp: flush_def Let_def split: option.splits)

text \<open>A burst of events, as the trace it becomes (number \<open>i\<close>), and whether it becomes one.\<close>

definition acc_of :: "event list \<Rightarrow> acc" where
  "acc_of es = (open_trace (hd es))\<lparr>a_last := ev_ts (last es), a_events := es\<rparr>"

definition kept :: "event list \<Rightarrow> bool" where
  "kept es \<longleftrightarrow> ev_root (hd es) \<or> 3 \<le> length es"

definition trace_of :: "string \<Rightarrow> int \<Rightarrow> event list \<Rightarrow> trace" where
  "trace_of node i es =
     \<lparr>t_node = node, t_id = i,
      t_root = (if ev_root (hd es) then ev_bus (hd es) @ ''/'' @ ev_kind (hd es) @ '' '' @ ev_key (hd es)
                else ''churn/'' @ ev_bus (hd es) @ ''-'' @ ev_kind (hd es) @ '' '' @ ev_key (hd es)),
      t_start = ev_ts (hd es),
      t_span = millis (time_sub (ev_ts (last es)) (ev_ts (hd es))),
      t_spans = map (span_of (ev_ts (hd es))) es\<rparr>"

definition lastn :: "nat \<Rightarrow> 'a list \<Rightarrow> 'a list" where
  "lastn n xs = drop (length xs - n) xs"



lemma flush_acc_of:
  "es \<noteq> [] \<Longrightarrow> flush (Some (acc_of es)) c =
    (if kept es
     then c\<lparr>c_seq := c_seq c + 1,
            c_ring := lastn (c_max c) (c_ring c @ [trace_of (c_node c) (c_seq c + 1) es])\<rparr>
     else c)"
  by (auto simp: flush_def acc_of_def open_trace_def kept_def trace_of_def lastn_def Let_def)

lemma drop_upto: "drop k [i..j] = [i + int k..j]"
proof (induction k arbitrary: i)
  case (Suc k)
  then show ?case by (cases "i \<le> j") (simp_all add: upto_rec1 [of i j] algebra_simps)
qed simp

lemma ring_ok_flush:
  assumes "ring_ok c" "acc_ok a"
  shows "ring_ok (flush (Some a) c)"
proof (cases "a_churn a \<and> length (a_events a) < 3")
  case True
  with assms show ?thesis by (simp add: flush_def)
next
  case False
  define n where "n = length (c_ring c)"
  define seq where "seq = c_seq c"
  define t where "t = \<lparr>t_node = c_node c, t_id = seq + 1, t_root = a_root a, t_start = a_start a,
      t_span = millis (time_sub (a_last a) (a_start a)), t_spans = map (span_of (a_start a)) (a_events a)\<rparr>"
  have flush: "flush (Some a) c = c\<lparr>c_seq := seq + 1, c_ring := lastn (c_max c) (c_ring c @ [t])\<rparr>"
    using False assms(2) by (auto simp: flush_def acc_ok_def Let_def lastn_def t_def seq_def)
  have ids: "map t_id (c_ring c @ [t]) = [seq - int n + 1..seq + 1]"
    using assms(1) by (simp add: ring_ok_def n_def seq_def t_def upto_rec2)
  have len: "int n = min (int (c_max c)) seq" "0 \<le> seq"
    using assms(1) by (simp_all add: ring_ok_def n_def seq_def)
  have t: "t_node t = c_node c" "t_spans t \<noteq> []" "sp_offset (hd (t_spans t)) = 0"
    using assms(2) by (auto simp: t_def acc_ok_def span_of_def hd_map)

  let ?r = "lastn (c_max c) (c_ring c @ [t])"
  have len_r: "length ?r = Suc n - (Suc n - c_max c)"
    by (simp add: lastn_def n_def)
  have "map t_id ?r = drop (Suc n - c_max c) (map t_id (c_ring c @ [t]))"
    by (simp only: lastn_def drop_map) (simp add: n_def)
  also have "\<dots> = [seq - int n + 1 + int (Suc n - c_max c)..seq + 1]"
    by (simp only: ids drop_upto)
  also have "seq - int n + 1 + int (Suc n - c_max c) = seq + 1 - int (length ?r) + 1"
    unfolding len_r by linarith
  finally have "map t_id ?r = [seq + 1 - int (length ?r) + 1..seq + 1]" .
  moreover have "int (length ?r) = min (int (c_max c)) (seq + 1)"
    unfolding len_r using len by linarith
  moreover have "list_all (\<lambda>t. t_node t = c_node c \<and> t_spans t \<noteq> [] \<and> sp_offset (hd (t_spans t)) = 0) ?r"
    using assms(1) t by (auto simp: lastn_def ring_ok_def list_all_iff dest: in_set_dropD)
  ultimately show ?thesis
    unfolding flush ring_ok_def using len(2) by simp
qed

lemma acc_ok_open: "acc_ok (join_trace e (open_trace e))"
  by (simp add: acc_ok_def join_trace_def open_trace_def)

lemma acc_ok_join: "acc_ok a \<Longrightarrow> acc_ok (join_trace e a)"
  by (auto simp: acc_ok_def join_trace_def)

lemma ring_ok_flush': "ring_ok c \<Longrightarrow> (case oa of None \<Rightarrow> True | Some a \<Rightarrow> acc_ok a) \<Longrightarrow> ring_ok (flush oa c)"
  using ring_ok_flush by (cases oa) (auto simp: flush_def)

lemma corr_inv_event:
  assumes "corr_inv node (c, a)"
  shows "corr_inv node (run_event e now (c, a))"
proof -
  have ring: "ring_ok (flush a c)" using assms ring_ok_flush' by (auto simp: corr_inv_def)
  show ?thesis
    using assms ring acc_ok_open acc_ok_join
    by (auto simp: corr_inv_def run_event_def Let_def split: option.splits)
qed

lemma corr_inv_tick: "corr_inv node (c, a) \<Longrightarrow> corr_inv node (run_tick now (c, a))"
  using ring_ok_flush' [of c a] by (auto simp: corr_inv_def run_tick_def split: option.splits)

lemma corr_inv_step: "corr_step s s' \<Longrightarrow> corr_inv node s \<Longrightarrow> corr_inv node s'"
proof (induction rule: corr_step.induct)
  case (emit bus kind key detail root now c c' a)
  then show ?case by (auto simp: corr_Emit_def corr_inv_def ring_ok_def split: if_splits)
next
  case (recv c e es a now)
  then have "corr_inv node (c\<lparr>c_ch := es\<rparr>, a)" by (auto simp: corr_inv_def ring_ok_def)
  then show ?case by (rule corr_inv_event)
next
  case (tick c a now)
  then show ?case by (intro corr_inv_tick)
qed

lemma corr_reach_inv: "corr_reach node s \<Longrightarrow> corr_inv node s"
proof (induction rule: corr_reach.induct)
  case init
  show ?case by (simp add: corr_inv_def run_start_def corr_New_def ring_ok_def)
next
  case (step s s')
  then show ?case using corr_inv_step by blast
qed

text \<open>
  C20: in every reachable state of the correlator, under any interleaving of emissions, receptions and
  ticks at any times, the buffer holds at most 1024 events and the page it serves at most 50 traces:
  the latest ones, numbered consecutively up to the number of traces made so far, each of this node,
  with at least one span and its first span at offset 0.
\<close>

theorem corr_ring_invariant:
  assumes "corr_reach node (c, a)"
  shows "length (c_ch c) \<le> 1024 \<and> int (length (ServeHTTP c)) = min 50 (c_seq c) \<and>
    map t_id (ServeHTTP c) = [c_seq c - int (length (ServeHTTP c)) + 1..c_seq c] \<and>
    list_all (\<lambda>t. t_node t = node \<and> t_spans t \<noteq> [] \<and> sp_offset (hd (t_spans t)) = 0) (ServeHTTP c)"
  using corr_reach_inv [OF assms] by (auto simp: corr_inv_def ring_ok_def ServeHTTP_def)

definition sample_event :: event where
  "sample_event = \<lparr>ev_bus = ''netlink'', ev_kind = ''link-down'', ev_key = ''eth0'', ev_detail = ''DOWN'',
     ev_root = True, ev_ts = 20 * seconds\<rparr>"

definition sample_state :: run_state where
  "sample_state = run_tick (30 * seconds) (run_event sample_event (20 * seconds) (run_start 0 (corr_New ''r1'')))"

lemma sample_reach: "corr_reach ''r1'' sample_state"
proof -
  let ?c = "fst (run_start 0 (corr_New ''r1''))"
  have s1: "corr_reach ''r1'' (?c, None)"
    using corr_reach.init [of "''r1''" 0] by (simp add: run_start_def)
  have s2: "corr_step (?c, None) (?c\<lparr>c_ch := [sample_event]\<rparr>, None)"
    by (rule corr_step.emit [where bus = "''netlink''" and kind = "''link-down''" and key = "''eth0''" and
          detail = "''DOWN''" and root = True and now = "20 * seconds"])
       (simp add: corr_Emit_def sample_event_def run_start_def corr_New_def)
  have s3: "corr_step (?c\<lparr>c_ch := [sample_event]\<rparr>, None)
      (run_event sample_event (20 * seconds) (?c\<lparr>c_ch := [sample_event], c_ch := []\<rparr>, None))"
    by (rule corr_step.recv) simp
  have s0: "(?c\<lparr>c_ch := [sample_event], c_ch := []\<rparr>, None) = run_start 0 (corr_New ''r1'')"
    by (simp add: run_start_def corr_New_def)
  have reach: "corr_reach ''r1'' (run_event sample_event (20 * seconds) (run_start 0 (corr_New ''r1'')))"
    using corr_reach.step [OF corr_reach.step [OF s1 s2] s3] unfolding s0 .
  obtain c a where ca: "run_event sample_event (20 * seconds) (run_start 0 (corr_New ''r1'')) = (c, a)"
    by (rule prod.exhaust)
  show ?thesis
    using corr_reach.step [OF reach [unfolded ca] corr_step.tick] by (simp only: sample_state_def ca)
qed

lemma sample_ring: "map t_root (ServeHTTP (fst sample_state)) = [''netlink/link-down eth0'']"
  by (simp add: sample_state_def run_tick_def run_event_def run_start_def corr_New_def sample_event_def
      time_sub_def join_trace_def open_trace_def flush_def ServeHTTP_def Let_def)

theorem corr_ring_invariant_witness:
  "map t_root (ServeHTTP (fst sample_state)) = [''netlink/link-down eth0''] \<and>
   int (length (ServeHTTP (fst sample_state))) = min 50 (c_seq (fst sample_state))"
proof -
  have "corr_reach ''r1'' (fst sample_state, snd sample_state)" using sample_reach by simp
  from corr_ring_invariant [OF this] show ?thesis using sample_ring by blast
qed


section \<open>Bursts\<close>

text \<open>The specification: a stream of events falls into bursts, separated by gaps of more than \<open>w\<close>.\<close>

fun bursts :: "int \<Rightarrow> event list \<Rightarrow> event list list" where
  "bursts w [] = []"
| "bursts w (e # es) =
     (case bursts w es of
        b # bs \<Rightarrow> if ev_ts (hd b) - ev_ts e \<le> w then (e # b) # bs else [e] # b # bs
      | [] \<Rightarrow> [[e]])"

fun close :: "int \<Rightarrow> event list \<Rightarrow> bool" where
  "close w (e # f # es) \<longleftrightarrow> ev_ts f - ev_ts e \<le> w \<and> close w (f # es)"
| "close w _ \<longleftrightarrow> True"

lemma bursts_not_Nil: "b \<in> set (bursts w es) \<Longrightarrow> b \<noteq> []"
  by (induction es arbitrary: b) (auto split: list.splits if_splits)

lemma concat_bursts: "concat (bursts w es) = es"
  by (induction es) (auto split: list.splits)

lemma hd_bursts: "es \<noteq> [] \<Longrightarrow> bursts w es = b # bs \<Longrightarrow> hd b = hd es"
  by (cases es) (auto split: list.splits if_splits)

lemma bursts_close: "b \<in> set (bursts w es) \<Longrightarrow> close w b"
proof (induction es arbitrary: b)
  case (Cons e es)
  have "close w (e # x)" if "close w x" "x \<noteq> []" "ev_ts (hd x) - ev_ts e \<le> w" for x
    using that by (cases x) auto
  with Cons bursts_not_Nil [of _ w es] show ?case by (auto split: list.splits if_splits)
qed simp

text \<open>The gap between two bursts is more than \<open>w\<close>.\<close>

lemma bursts_gap:
  "bursts w es = xs @ b # c # ys \<Longrightarrow> w < ev_ts (hd c) - ev_ts (last b)"
proof (induction es arbitrary: xs b)
  case (Cons e es)
  show ?case
  proof (cases "bursts w es")
    case Nil
    with Cons.prems show ?thesis by (cases xs) auto
  next
    case (Cons b' bs')
    have ne: "b' \<noteq> []" using bursts_not_Nil [of b' w es] Cons by simp
    show ?thesis
    proof (cases "ev_ts (hd b') - ev_ts e \<le> w")
      case True
      then have eq: "(e # b') # bs' = xs @ b # c # ys" using Cons Cons.prems by simp
      show ?thesis
      proof (cases xs)
        case Nil
        with eq Cons Cons.IH [of "[]" b'] ne show ?thesis by auto
      next
        case (Cons x xs')
        with eq \<open>bursts w es = b' # bs'\<close> Cons.IH [of "b' # xs'" b] show ?thesis by simp
      qed
    next
      case False
      then have eq: "[e] # b' # bs' = xs @ b # c # ys" using Cons Cons.prems by simp
      show ?thesis
      proof (cases xs)
        case Nil
        with eq False show ?thesis by auto
      next
        case (Cons x xs')
        with eq \<open>bursts w es = b' # bs'\<close> Cons.IH [of xs' b] show ?thesis by simp
      qed
    qed
  qed
qed simp

lemma bursts_one: "es \<noteq> [] \<Longrightarrow> close w es \<Longrightarrow> bursts w es = [es]"
  by (induction w es rule: close.induct) auto

lemma bursts_split:
  "cur \<noteq> [] \<Longrightarrow> close w cur \<Longrightarrow> w < ev_ts e - ev_ts (last cur) \<Longrightarrow>
    bursts w (cur @ e # es) = cur # bursts w (e # es)"
proof (induction cur)
  case (Cons x cur)
  show ?case
  proof (cases cur)
    case Nil
    have "bursts w (e # es) \<noteq> []" using concat_bursts [of w "e # es"] by force
    then obtain b bs where b: "bursts w (e # es) = b # bs"
      by (cases "bursts w (e # es)") auto
    then have "hd b = e" using hd_bursts [of "e # es" w b bs] by simp
    with b Nil Cons.prems show ?thesis
      by (simp del: bursts.simps(2) add: bursts.simps(2) [of w x])
  next
    case (Cons y zs)
    with Cons.IH Cons.prems show ?thesis by simp
  qed
qed simp

lemma close_snoc: "close w cur \<Longrightarrow> cur \<noteq> [] \<Longrightarrow> ev_ts e - ev_ts (last cur) \<le> w \<Longrightarrow> close w (cur @ [e])"
  by (induction w cur rule: close.induct) auto


section \<open>The loop against its specification\<close>

datatype corr_in = Ev event int | Tick int

fun in_time :: "corr_in \<Rightarrow> int" where
  "in_time (Ev e now) = ev_ts e"
| "in_time (Tick now) = now"

fun in_events :: "corr_in list \<Rightarrow> event list" where
  "in_events [] = []"
| "in_events (Ev e now # ins) = e # in_events ins"
| "in_events (Tick now # ins) = in_events ins"

fun run_in :: "run_state \<Rightarrow> corr_in \<Rightarrow> run_state" where
  "run_in s (Ev e now) = run_event e now s"
| "run_in s (Tick now) = run_tick now s"

definition run_all :: "run_state \<Rightarrow> corr_in list \<Rightarrow> run_state" where
  "run_all = foldl run_in"

definition finish :: "run_state \<Rightarrow> correlator" where
  "finish s = flush (snd s) (fst s)"

text \<open>Inputs with times that an \<^verbatim>\<open>int64\<close> can subtract, received after the warm-up.\<close>

fun in_ok :: "correlator \<Rightarrow> corr_in \<Rightarrow> bool" where
  "in_ok c (Ev e now) \<longleftrightarrow>
     0 \<le> ev_ts e \<and> ev_ts e < 2 ^ 62 \<and> c_warmup c \<le> time_sub now (c_started c)"
| "in_ok c (Tick now) \<longleftrightarrow> 0 \<le> now \<and> now < 2 ^ 62"

definition flush_all :: "correlator \<Rightarrow> event list list \<Rightarrow> correlator" where
  "flush_all = foldl (\<lambda>c b. flush (Some (acc_of b)) c)"

lemma acc_of_snoc: "cur \<noteq> [] \<Longrightarrow> join_trace e (acc_of cur) = acc_of (cur @ [e])"
  by (simp add: join_trace_def acc_of_def)

lemma acc_of_open: "join_trace e (open_trace e) = acc_of [e]"
  by (simp add: join_trace_def acc_of_def open_trace_def)

lemma time_sub_small: "0 \<le> a \<Longrightarrow> a < 2 ^ 62 \<Longrightarrow> 0 \<le> b \<Longrightarrow> b < 2 ^ 62 \<Longrightarrow> time_sub a b = a - b"
  by (simp add: time_sub_def)

lemma in_ok_flush [simp]: "in_ok (flush a c) = in_ok c"
  by (rule ext) (case_tac x; simp)

lemma sorted_in_events:
  "sorted (map in_time (i # ins)) \<Longrightarrow> in_events ins = e # es \<Longrightarrow> in_time i \<le> ev_ts e"
proof (induction ins)
  case (Cons j ins)
  show ?case
  proof (cases j)
    case (Ev f now)
    with Cons.prems show ?thesis by simp
  next
    case (Tick now)
    with Cons show ?thesis by simp
  qed
qed simp

lemma run_all_bursts:
  fixes w
  assumes "sorted (map in_time ins)" "list_all (in_ok c) ins" "c_window c = w" "c_idle c = w"
  shows "finish (run_all (c, None) ins) = flush_all c (bursts w (in_events ins))"
    and "cur \<noteq> [] \<Longrightarrow> close w cur \<Longrightarrow> 0 \<le> ev_ts (last cur) \<Longrightarrow> ev_ts (last cur) < 2 ^ 62 \<Longrightarrow>
      finish (run_all (c, Some (acc_of cur)) ins) = flush_all c (bursts w (cur @ in_events ins))"
  using assms
proof (induction ins arbitrary: c cur)
  case Nil
  {
    case 1
    show ?case by (simp add: finish_def run_all_def flush_all_def flush_def)
  next
    case 2
    then show ?case by (simp add: finish_def run_all_def flush_all_def bursts_one)
  }
next
  case (Cons i ins)
  have step: "run_all s (j # js) = run_all (run_in s j) js" for s j js
    by (simp add: run_all_def)
  {
    case 1
    then have prems: "sorted (map in_time ins)" "list_all (in_ok c) ins" by simp_all
    show ?case
    proof (cases i)
      case (Ev e now)
      with 1 have "run_in (c, None) i = (c, Some (acc_of [e]))"
        by (simp add: run_event_def acc_of_open)
      moreover have "0 \<le> ev_ts e" "ev_ts e < 2 ^ 62" using 1 Ev by simp_all
      ultimately show ?thesis
        using Cons.IH(2) [of "[e]" c] prems 1 Ev by (simp add: step del: bursts.simps)
    next
      case (Tick now)
      with 1 Cons.IH(1) [of c] prems show ?thesis by (simp add: step run_tick_def)
    qed
  next
    case 2
    then have prems: "sorted (map in_time ins)" "list_all (in_ok c) ins" by simp_all
    show ?case
    proof (cases i)
      case (Ev e now)
      then have e: "0 \<le> ev_ts e" "ev_ts e < 2 ^ 62" "c_warmup c \<le> time_sub now (c_started c)"
        using 2 by simp_all
      have sub: "time_sub (ev_ts e) (a_last (acc_of cur)) = ev_ts e - ev_ts (last cur)"
        using e 2 by (simp add: acc_of_def time_sub_small)
      show ?thesis
      proof (cases "ev_ts e - ev_ts (last cur) \<le> w")
        case True
        then have "run_in (c, Some (acc_of cur)) i = (c, Some (acc_of (cur @ [e])))"
          using Ev 2 by (simp add: run_event_def sub acc_of_snoc)
        moreover have "close w (cur @ [e])" using True 2 by (intro close_snoc) auto
        ultimately show ?thesis
          using Cons.IH(2) [of "cur @ [e]" c] prems e 2 Ev by (simp add: step)
      next
        case False
        then have "run_in (c, Some (acc_of cur)) i = (flush (Some (acc_of cur)) c, Some (acc_of [e]))"
          using Ev 2 e by (simp add: run_event_def sub acc_of_open)
        moreover have "bursts w (cur @ e # in_events ins) = cur # bursts w (e # in_events ins)"
          using False 2 by (intro bursts_split) auto
        ultimately show ?thesis
          using Cons.IH(2) [of "[e]" "flush (Some (acc_of cur)) c"] prems e 2 Ev
          by (simp add: step flush_all_def del: bursts.simps)
      qed
    next
      case (Tick now)
      then have now: "0 \<le> now" "now < 2 ^ 62" using 2 by simp_all
      have sub: "time_sub now (a_last (acc_of cur)) = now - ev_ts (last cur)"
        using now 2 by (simp add: acc_of_def time_sub_small)
      show ?thesis
      proof (cases "w < now - ev_ts (last cur)")
        case False
        then show ?thesis
          using Cons.IH(2) [of cur c] prems 2 Tick by (simp add: step run_tick_def sub)
      next
        case True
        have "bursts w (cur @ in_events ins) = cur # bursts w (in_events ins)"
        proof (cases "in_events ins")
          case Nil
          with 2 show ?thesis by (simp add: bursts_one)
        next
          case (Cons e es)
          have "now \<le> ev_ts e"
            using sorted_in_events [of i ins e es] 2 Tick Cons by simp
          with True have "w < ev_ts e - ev_ts (last cur)" by simp
          with 2 Cons show ?thesis by (simp add: bursts_split del: bursts.simps)
        qed
        with True show ?thesis
          using Cons.IH(1) [of "flush (Some (acc_of cur)) c"] prems 2 Tick
          by (simp add: step run_tick_def sub flush_all_def)
      qed
    qed
  }
qed

fun number_traces :: "string \<Rightarrow> int \<Rightarrow> event list list \<Rightarrow> trace list" where
  "number_traces node i [] = []"
| "number_traces node i (b # bs) = trace_of node i b # number_traces node (i + 1) bs"

lemma lastn_lastn: "lastn n (lastn n xs @ ys) = lastn n (xs @ ys)"
proof (cases "length xs \<le> n")
  case True
  then show ?thesis by (simp add: lastn_def)
next
  case False
  then have "drop (length xs - n) xs @ ys = drop (length xs - n) (xs @ ys)" by simp
  then show ?thesis using False by (simp add: lastn_def add.commute del: drop_append)
qed

lemma flush_all_closed:
  assumes "length (c_ring c) \<le> c_max c" "\<And>b. b \<in> set bs \<Longrightarrow> b \<noteq> []"
  shows "flush_all c bs = c\<lparr>c_seq := c_seq c + int (length (filter kept bs)),
     c_ring := lastn (c_max c) (c_ring c @ number_traces (c_node c) (c_seq c + 1) (filter kept bs))\<rparr>"
  using assms
proof (induction bs arbitrary: c)
  case Nil
  then show ?case by (simp add: flush_all_def lastn_def)
next
  case (Cons b bs)
  have fa: "flush_all c (b # bs) = flush_all (flush (Some (acc_of b)) c) bs"
    by (simp add: flush_all_def)
  show ?case
  proof (cases "kept b")
    case False
    with Cons fa show ?thesis by (simp add: flush_acc_of)
  next
    case True
    let ?c = "c\<lparr>c_seq := c_seq c + 1,
        c_ring := lastn (c_max c) (c_ring c @ [trace_of (c_node c) (c_seq c + 1) b])\<rparr>"
    have "length (c_ring ?c) \<le> c_max ?c" by (simp add: lastn_def)
    with True Cons fa show ?thesis
      by (simp add: flush_acc_of lastn_lastn algebra_simps)
  qed
qed

lemma finish_ring:
  assumes "sorted (map in_time ins)"
    and "list_all (in_ok (fst (run_start t0 (corr_New node)))) ins"
  shows "ServeHTTP (finish (run_all (run_start t0 (corr_New node)) ins)) =
    lastn 50 (number_traces node 1 (filter kept (bursts (3 * seconds) (in_events ins))))"
proof -
  let ?c = "fst (run_start t0 (corr_New node))"
  let ?bs = "bursts (3 * seconds) (in_events ins)"
  have "finish (run_all (?c, None) ins) = flush_all ?c ?bs"
    by (rule run_all_bursts(1) [OF assms]) (simp_all add: run_start_def corr_New_def)
  moreover have "run_start t0 (corr_New node) = (?c, None)" by (simp add: run_start_def)
  moreover have "flush_all ?c ?bs = ?c\<lparr>c_seq := c_seq ?c + int (length (filter kept ?bs)),
      c_ring := lastn (c_max ?c) (c_ring ?c @ number_traces (c_node ?c) (c_seq ?c + 1) (filter kept ?bs))\<rparr>"
    by (rule flush_all_closed) (auto simp: run_start_def corr_New_def dest: bursts_not_Nil)
  ultimately show ?thesis by (simp add: ServeHTTP_def run_start_def corr_New_def)
qed

text \<open>
  C21: the correlator makes one trace per burst. For any time-ordered sequence of events and ticks
  received after the warm-up, however the ticks fall, once the last burst is flushed the traces it
  serves are the last 50 of: the bursts of the event stream (the partition at gaps of more than three
  seconds) whose first event is a root event or which have at least three events, in order, numbered
  from 1, each with all the events of its burst.
\<close>

theorem corr_traces_are_bursts:
  assumes "sorted (map in_time ins)"
    and "list_all (in_ok (fst (run_start t0 (corr_New node)))) ins"
  shows "ServeHTTP (finish (run_all (run_start t0 (corr_New node)) ins)) =
    lastn 50 (number_traces node 1 (filter kept (bursts (3 * seconds) (in_events ins))))"
  by (rule finish_ring [OF assms])

definition sample_ins :: "corr_in list" where
  "sample_ins =
     [Ev sample_event (20 * seconds), Tick (21 * seconds),
      Ev (sample_event\<lparr>ev_bus := ''fpm'', ev_kind := ''route-del'', ev_root := False, ev_ts := 22 * seconds\<rparr>) (23 * seconds),
      Tick (26 * seconds),
      Ev (sample_event\<lparr>ev_bus := ''fpm'', ev_kind := ''route-add'', ev_root := False, ev_ts := 30 * seconds\<rparr>) (30 * seconds)]"

theorem corr_traces_are_bursts_witness:
  "map (\<lambda>t. (t_id t, t_root t, map sp_offset (t_spans t)))
     (ServeHTTP (finish (run_all (run_start 0 (corr_New ''r1'')) sample_ins))) =
    [(1, ''netlink/link-down eth0'', [0, 2000])]"
proof -
  have "sorted (map in_time sample_ins)" by (simp add: sample_ins_def sample_event_def)
  moreover have "list_all (in_ok (fst (run_start 0 (corr_New ''r1'')))) sample_ins"
    by (simp add: sample_ins_def sample_event_def run_start_def corr_New_def time_sub_def)
  ultimately show ?thesis
    by (subst corr_traces_are_bursts)
       (simp_all add: sample_ins_def sample_event_def kept_def lastn_def trace_of_def span_of_def
          time_sub_def millis_def tdiv_nonneg)
qed

lemma time_sub_mono: "t \<le> t' \<Longrightarrow> time_sub t s \<le> time_sub t' s"
  by (simp add: time_sub_def)

definition timeline :: "trace \<Rightarrow> bool" where
  "timeline t \<longleftrightarrow>
     t_spans t \<noteq> [] \<and> sorted (map sp_offset (t_spans t)) \<and>
     sp_offset (hd (t_spans t)) = 0 \<and> sp_offset (last (t_spans t)) = t_span t"

lemma timeline_trace_of: "es \<noteq> [] \<Longrightarrow> sorted (map ev_ts es) \<Longrightarrow> timeline (trace_of node i es)"
proof -
  assume es: "es \<noteq> []" "sorted (map ev_ts es)"
  have "sorted (map (\<lambda>e. millis (time_sub (ev_ts e) s)) es)" for s
    using es(2) by (induction es) (auto intro: millis_mono time_sub_mono)
  with es(1) show ?thesis
    by (auto simp: timeline_def trace_of_def span_of_def hd_map last_map comp_def)
qed

lemma bursts_sorted:
  assumes "sorted (map ev_ts es)" "b \<in> set (bursts w es)"
  shows "sorted (map ev_ts b)"
proof -
  obtain xs ys where "bursts w es = xs @ b # ys" using assms(2) by (auto simp: in_set_conv_decomp)
  then have "es = concat xs @ b @ concat ys" using concat_bursts [of w es] by simp
  with assms(1) show ?thesis by (simp add: sorted_append)
qed

lemma sorted_in_events_all: "sorted (map in_time ins) \<Longrightarrow> sorted (map ev_ts (in_events ins))"
proof (induction ins rule: in_events.induct)
  case (2 e now ins)
  have "ev_ts e \<le> ev_ts f" if "f \<in> set (in_events ins)" for f
  proof -
    have "ev_ts f \<in> in_time ` set ins"
      using that by (induction ins rule: in_events.induct) force+
    with 2 show ?thesis by auto
  qed
  with 2 show ?case by auto
qed auto

lemma number_traces_all:
  "(\<And>b i. b \<in> set bs \<Longrightarrow> P (trace_of node i b)) \<Longrightarrow> list_all P (number_traces node i bs)"
  by (induction bs arbitrary: i) auto

text \<open>
  C22: every trace served is a timeline. For time-ordered events and ticks after the warm-up, the offsets of a
  trace's spans start at 0, never decrease, and end at the span of the whole trace.
\<close>

theorem corr_trace_timeline:
  assumes "sorted (map in_time ins)"
    and "list_all (in_ok (fst (run_start t0 (corr_New node)))) ins"
  shows "list_all timeline (ServeHTTP (finish (run_all (run_start t0 (corr_New node)) ins)))"
proof -
  have "list_all timeline (number_traces node 1 (filter kept (bursts (3 * seconds) (in_events ins))))"
    by (rule number_traces_all)
       (auto intro!: timeline_trace_of bursts_sorted [OF sorted_in_events_all [OF assms(1)]] dest: bursts_not_Nil)
  then show ?thesis
    by (auto simp: finish_ring [OF assms] lastn_def list_all_iff dest: in_set_dropD)
qed

theorem corr_trace_timeline_witness:
  "list_all timeline (ServeHTTP (finish (run_all (run_start 0 (corr_New ''r1'')) sample_ins)))"
  by (rule corr_trace_timeline)
     (simp_all add: sample_ins_def sample_event_def run_start_def corr_New_def time_sub_def)


section \<open>What is lost\<close>

text \<open>
  During the warm-up, events that are not roots leave no trace: whatever their number and
  timing, and whatever ticks come between, the correlator is after them as it was before.
\<close>

theorem corr_warmup_ignores_follow:
  assumes "\<And>e now. Ev e now \<in> set ins \<Longrightarrow> \<not> ev_root e \<and> time_sub now (c_started c) < c_warmup c"
  shows "run_all (c, None) ins = (c, None)"
  using assms
proof (induction ins)
  case (Cons i ins)
  then have "run_in (c, None) i = (c, None)"
    by (cases i) (auto simp: run_event_def run_tick_def)
  moreover have "run_all (c, None) ins = (c, None)"
    by (rule Cons.IH) (use Cons.prems in auto)
  ultimately show ?case by (simp add: run_all_def)
qed (simp add: run_all_def)

theorem corr_warmup_ignores_follow_witness:
  "run_all (run_start 0 (corr_New ''r1''))
     [Ev (sample_event\<lparr>ev_root := False\<rparr>) (5 * seconds), Tick (6 * seconds)] = run_start 0 (corr_New ''r1'')"
proof -
  let ?c = "fst (run_start 0 (corr_New ''r1''))"
  have "run_all (?c, None) [Ev (sample_event\<lparr>ev_root := False\<rparr>) (5 * seconds), Tick (6 * seconds)] = (?c, None)"
    by (rule corr_warmup_ignores_follow) (auto simp: run_start_def corr_New_def time_sub_def)
  then show ?thesis by (simp add: run_start_def)
qed

text \<open>
  A root event can vanish. If a route change that no root explains is followed within the window
  by a root event (a link going down, say) and then nothing for longer than the idle time, the root
  event joins the churn trace and is thrown away with it, although root events are what is to open
  traces: no trace is recorded and no number is used.
\<close>

theorem corr_root_lost_in_churn:
  assumes "\<not> ev_root f" "ev_root r" "c_warmup c \<le> time_sub now (c_started c)"
    and "time_sub (ev_ts r) (ev_ts f) \<le> c_window c" "c_idle c < time_sub t (ev_ts r)"
  shows "run_all (c, None) [Ev f now, Ev r now', Tick t] = (c, None)"
  using assms
  by (simp add: run_all_def run_event_def run_tick_def join_trace_def open_trace_def flush_def)

theorem corr_root_lost_in_churn_witness:
  "run_all (run_start 0 (corr_New ''r1''))
     [Ev (sample_event\<lparr>ev_bus := ''fpm'', ev_kind := ''route-del'', ev_root := False\<rparr>) (20 * seconds),
      Ev (sample_event\<lparr>ev_ts := 21 * seconds\<rparr>) (21 * seconds), Tick (25 * seconds)] =
    run_start 0 (corr_New ''r1'')"
proof -
  let ?c = "fst (run_start 0 (corr_New ''r1''))"
  have "run_all (?c, None)
     [Ev (sample_event\<lparr>ev_bus := ''fpm'', ev_kind := ''route-del'', ev_root := False\<rparr>) (20 * seconds),
      Ev (sample_event\<lparr>ev_ts := 21 * seconds\<rparr>) (21 * seconds), Tick (25 * seconds)] = (?c, None)"
    by (rule corr_root_lost_in_churn)
       (simp_all add: sample_event_def run_start_def corr_New_def time_sub_def)
  then show ?thesis by (simp add: run_start_def)
qed

end
