(* ===== verification/Netlink.thy ===== *)
theory Netlink
  imports GoNet Gnmi
begin

text \<open>
  The kernel ingester of \<^verbatim>\<open>internal/ingest/netlink.go\<close>: interface state, bridge forwarding entries,
  the MPLS forwarding table, addresses and counters. What the third-party netlink library answers to
  a query (links, addresses, routes, neighbours, the name of an interface index) is an argument; an
  error is \<^const>\<open>None\<close>. A handler is the list of its calls to the cache and the correlator.
\<close>

section \<open>Kernel objects\<close>

datatype link_oper =
  OperUp | OperDown | OperLowerLayerDown | OperDormant | OperTesting | OperNotPresent | OperOther

record link_stats =
  ls_rx_bytes :: u64
  ls_tx_bytes :: u64
  ls_rx_packets :: u64
  ls_tx_packets :: u64
  ls_rx_errors :: u64
  ls_tx_errors :: u64
  ls_rx_dropped :: u64
  ls_tx_dropped :: u64

record klink =
  kl_name :: string
  kl_index :: int
  kl_mtu :: int
  kl_flags :: u32
  kl_oper :: link_oper
  kl_type :: string
  kl_stats :: "link_stats option"

record link_update =
  lu_type :: u16
  lu_link :: klink

record neigh =
  ne_family :: int
  ne_mac :: bytes
  ne_vlan :: int
  ne_link :: int

record neigh_update =
  nu_type :: u16
  nu_neigh :: neigh

text \<open>An MPLS route: \<open>mr_dst\<close> is the optional incoming label, \<open>mr_newdst\<close> the labels it swaps to when
  the destination has that type, \<open>mr_via\<close> the address of a \<^verbatim>\<open>netlink.Via\<close> (empty when there is none).\<close>

record mpls_route =
  mr_dst :: "int option"
  mr_newdst :: "int list option"
  mr_via :: bytes
  mr_gw :: ip
  mr_link :: int

text \<open>An address: \<^const>\<open>None\<close> is a nil \<^verbatim>\<open>IPNet\<close>, else the address and the mask.\<close>

type_synonym kaddr = "(ip \<times> bytes) option"

abbreviation (input) rtmDelLink :: u16 where "rtmDelLink \<equiv> 17"
abbreviation (input) rtmDelNeigh :: u16 where "rtmDelNeigh \<equiv> 29"
abbreviation (input) afBridge :: int where "afBridge \<equiv> 7"
abbreviation (input) flagUp :: u32 where "flagUp \<equiv> 1"


section \<open>Paths\<close>

definition ifaceElems :: "string \<Rightarrow> string \<Rightarrow> elems" where
  "ifaceElems name leaf = [el ''interfaces'', elk ''interface'' [(''name'', name)]] @ state_leaf leaf"

definition counterUpdate :: "string \<Rightarrow> string \<Rightarrow> u64 \<Rightarrow> gupdate" where
  "counterUpdate name leaf v =
     ([el ''interfaces'', elk ''interface'' [(''name'', name)], el ''state'', el ''counters'', el leaf],
      uintVal v)"

definition fdbElems :: "string \<Rightarrow> string \<Rightarrow> string \<Rightarrow> elems" where
  "fdbElems mac vlan leaf =
     [el ''network-instances'',
      elk ''network-instance'' [(''name'', ''default'')],
      el ''fdb'',
      el ''mac-table'',
      el ''entries'',
      elk ''entry'' [(''mac-address'', mac), (''vlan'', vlan)]] @ state_leaf leaf"

definition mplsElems :: "u32 \<Rightarrow> string \<Rightarrow> elems" where
  "mplsElems label leaf =
     [el ''mpls'', el ''lfib'', elk ''entry'' [(''label'', dec (unat label))]] @ state_leaf leaf"

definition addrElems :: "string \<Rightarrow> string \<Rightarrow> string \<Rightarrow> elems" where
  "addrElems ifname ip leaf =
     [el ''interfaces'',
      elk ''interface'' [(''name'', ifname)],
      el ''subinterfaces'',
      elk ''subinterface'' [(''index'', ''0'')],
      el ''ipv4'',
      el ''addresses'',
      elk ''address'' [(''ip'', ip)]] @ state_leaf leaf"

definition intsCSV :: "int list \<Rightarrow> string" where
  "intsCSV v =
     fst (foldl (\<lambda>(s, i). \<lambda>x. (s @ (if 0 < i then '','' else []) @ itoa x, Suc i)) ([], 0 :: nat) v)"


section \<open>Interfaces\<close>

definition operStatus :: "link_oper \<Rightarrow> string" where
  "operStatus s =
     (case s of
        OperUp \<Rightarrow> ''UP''
      | OperDown \<Rightarrow> ''DOWN''
      | OperLowerLayerDown \<Rightarrow> ''LOWER_LAYER_DOWN''
      | OperDormant \<Rightarrow> ''DORMANT''
      | OperTesting \<Rightarrow> ''TESTING''
      | OperNotPresent \<Rightarrow> ''NOT_PRESENT''
      | OperOther \<Rightarrow> ''UNKNOWN'')"

definition writeLinkState :: "klink \<Rightarrow> eff list" where
  "writeLinkState l =
     (let admin = (if kl_flags l AND flagUp \<noteq> 0 then ''UP'' else ''DOWN'');
          p = ifaceElems (kl_name l)
      in [CacheUpdate ''openconfig''
            [leafUpdate (p ''name'') (kl_name l),
             leafUpdate (p ''admin-status'') admin,
             leafUpdate (p ''oper-status'') (operStatus (kl_oper l)),
             leafUpdate (p ''type'') (kl_type l),
             (p ''ifindex'', uintVal (of_int (kl_index l))),
             (p ''mtu'', uintVal (of_int (kl_mtu l)))] []])"

text \<open>One round of \<^verbatim>\<open>linkLoop\<close>.\<close>

definition linkLoop :: "link_update \<Rightarrow> eff list" where
  "linkLoop u =
     (let name = kl_name (lu_link u)
      in if lu_type u = rtmDelLink then
           [CacheUpdate ''openconfig'' [] [ifaceElems name []],
            Emit ''netlink'' ''link-down'' name ''link removed'' True]
         else
           (let oper = operStatus (kl_oper (lu_link u));
                kind = (if oper = ''UP'' then ''link-up'' else ''link-down'')
            in writeLinkState (lu_link u) @ [Emit ''netlink'' kind name (''oper='' @ oper) True]))"

definition sampleCounters :: "klink list option \<Rightarrow> eff list" where
  "sampleCounters ll =
     (case ll of None \<Rightarrow> []
      | Some links \<Rightarrow>
          concat (map (\<lambda>l. case kl_stats l of None \<Rightarrow> []
            | Some s \<Rightarrow>
                [CacheUpdate ''openconfig''
                   [counterUpdate (kl_name l) ''in-octets'' (ls_rx_bytes s),
                    counterUpdate (kl_name l) ''out-octets'' (ls_tx_bytes s),
                    counterUpdate (kl_name l) ''in-pkts'' (ls_rx_packets s),
                    counterUpdate (kl_name l) ''out-pkts'' (ls_tx_packets s),
                    counterUpdate (kl_name l) ''in-errors'' (ls_rx_errors s),
                    counterUpdate (kl_name l) ''out-errors'' (ls_tx_errors s),
                    counterUpdate (kl_name l) ''in-discards'' (ls_rx_dropped s),
                    counterUpdate (kl_name l) ''out-discards'' (ls_tx_dropped s)] []]) links))"


section \<open>Bridge forwarding entries\<close>

definition isUnicastMAC :: "bytes \<Rightarrow> bool" where
  "isUnicastMAC addr \<longleftrightarrow> length addr = 6 \<and> addr ! 0 AND 1 = 0"

definition if_name :: "(int \<Rightarrow> string option) \<Rightarrow> int \<Rightarrow> string" where
  "if_name byIndex i = (case byIndex i of None \<Rightarrow> '''' | Some n \<Rightarrow> n)"

definition writeFDB :: "(int \<Rightarrow> string option) \<Rightarrow> neigh \<Rightarrow> eff list" where
  "writeFDB byIndex n =
     (let mac = mac_string (ne_mac n); vlan = itoa (ne_vlan n)
      in [CacheUpdate ''openconfig''
            [leafUpdate (fdbElems mac vlan ''mac-address'') mac,
             leafUpdate (fdbElems mac vlan ''interface'') (if_name byIndex (ne_link n))] []])"

text \<open>One round of \<^verbatim>\<open>neighLoop\<close>.\<close>

definition neighLoop :: "(int \<Rightarrow> string option) \<Rightarrow> neigh_update \<Rightarrow> eff list" where
  "neighLoop byIndex u =
     (let n = nu_neigh u
      in if ne_family n \<noteq> afBridge \<or> \<not> isUnicastMAC (ne_mac n) then []
         else if nu_type u = rtmDelNeigh then
           [CacheUpdate ''openconfig'' [] [fdbElems (mac_string (ne_mac n)) (itoa (ne_vlan n)) []]]
         else writeFDB byIndex n)"

definition snapshotFDB :: "(int \<Rightarrow> string option) \<Rightarrow> neigh list option \<Rightarrow> eff list" where
  "snapshotFDB byIndex nl =
     (case nl of None \<Rightarrow> []
      | Some ns \<Rightarrow> concat (map (\<lambda>n. if isUnicastMAC (ne_mac n) then writeFDB byIndex n else []) ns))"


section \<open>MPLS forwarding entries and addresses\<close>

definition writeLFIB :: "(int \<Rightarrow> string option) \<Rightarrow> mpls_route \<Rightarrow> eff list" where
  "writeLFIB byIndex r =
     (case mr_dst r of None \<Rightarrow> []
      | Some d \<Rightarrow>
          (let label = of_int d :: u32;
               out = (case mr_newdst r of None \<Rightarrow> '''' | Some ls \<Rightarrow> intsCSV ls);
               nh = (if 0 < length (mr_via r) then ip_string (mr_via r)
                     else if mr_gw r \<noteq> [] then ip_string (mr_gw r) else '''');
               iface = (if 0 < mr_link r then if_name byIndex (mr_link r) else '''')
           in [CacheUpdate ''frr''
                 [leafUpdate (mplsElems label ''in-label'') (dec (unat label)),
                  leafUpdate (mplsElems label ''out-label'') out,
                  leafUpdate (mplsElems label ''next-hop'') nh,
                  leafUpdate (mplsElems label ''interface'') iface] []]))"

definition snapshotMPLS :: "(int \<Rightarrow> string option) \<Rightarrow> mpls_route list option \<Rightarrow> eff list" where
  "snapshotMPLS byIndex rl =
     (case rl of None \<Rightarrow> [] | Some routes \<Rightarrow> concat (map (writeLFIB byIndex) routes))"

text \<open>\<^verbatim>\<open>IPMask.Size\<close>: the number of leading ones, 0 if the mask is not canonical.\<close>

definition mask_size :: "bytes \<Rightarrow> nat" where
  "mask_size m =
     (let bs = concat (map (\<lambda>b. map (\<lambda>i. bit b (7 - i)) [0..<8]) m); n = length (takeWhile id bs)
      in if list_all Not (drop n bs) then n else 0)"

definition snapshotAddrs :: "klink list option \<Rightarrow> (klink \<Rightarrow> kaddr list option) \<Rightarrow> eff list" where
  "snapshotAddrs ll addrList =
     (case ll of None \<Rightarrow> []
      | Some links \<Rightarrow>
          concat (map (\<lambda>l. case addrList l of None \<Rightarrow> []
            | Some as \<Rightarrow>
                concat (map (\<lambda>a. case a of None \<Rightarrow> []
                  | Some (ip, m) \<Rightarrow>
                      (let s = ip_string ip
                       in [CacheUpdate ''openconfig''
                             [leafUpdate (addrElems (kl_name l) s ''ip'') s,
                              leafUpdate (addrElems (kl_name l) s ''prefix-length'') (dec (mask_size m))] []])) as))
            links))"


section \<open>Snapshots\<close>

text \<open>The answers of the kernel during one snapshot.\<close>

record kernel =
  k_links :: "klink list option"
  k_counters :: "klink list option"
  k_neighs :: "neigh list option"
  k_routes :: "mpls_route list option"
  k_addr_links :: "klink list option"
  k_addrs :: "klink \<Rightarrow> kaddr list option"
  k_by_index :: "int \<Rightarrow> string option"

definition snapshot :: "kernel \<Rightarrow> eff list" where
  "snapshot k =
     (case k_links k of None \<Rightarrow> []
      | Some links \<Rightarrow>
          concat (map writeLinkState links) @ sampleCounters (k_counters k) @
          snapshotFDB (k_by_index k) (k_neighs k) @ snapshotMPLS (k_by_index k) (k_routes k) @
          snapshotAddrs (k_addr_links k) (k_addrs k))"

text \<open>One round of \<^verbatim>\<open>counterLoop\<close>.\<close>

definition counterLoop :: "kernel \<Rightarrow> eff list" where
  "counterLoop k =
     sampleCounters (k_counters k) @ snapshotMPLS (k_by_index k) (k_routes k) @
     snapshotAddrs (k_addr_links k) (k_addrs k)"

end
