(* ===== verification/Netlink_Props.thy ===== *)
theory Netlink_Props
  imports Netlink
begin

text \<open>
  What a client reads of the kernel ingester: the interfaces, the bridge forwarding entries and the
  MPLS forwarding table as tables in the cache, and what a link event reports to the correlator.
\<close>

section \<open>Paths\<close>

lemma ifaceElems_eq [simp]: "ifaceElems n a = ifaceElems n' a' \<longleftrightarrow> n = n' \<and> a = a'"
  by (auto simp: ifaceElems_def)

lemma ifaceElems_prefix [simp]: "prefix (ifaceElems n []) (ifaceElems n' a) \<longleftrightarrow> n = n'"
  by (auto simp: ifaceElems_def)

lemma fdbElems_eq [simp]: "fdbElems m v a = fdbElems m' v' a' \<longleftrightarrow> m = m' \<and> v = v' \<and> a = a'"
  by (auto simp: fdbElems_def)

lemma fdbElems_prefix [simp]: "prefix (fdbElems m v []) (fdbElems m' v' a) \<longleftrightarrow> m = m' \<and> v = v'"
  by (auto simp: fdbElems_def)

lemma mplsElems_eq [simp]: "mplsElems l a = mplsElems l' a' \<longleftrightarrow> l = l' \<and> a = a'"
  by (auto simp: mplsElems_def dec_inj word_unat_eq_iff)


section \<open>Interfaces\<close>

type_synonym iface_row = "tval option list"

definition iface_table :: "store \<Rightarrow> string \<Rightarrow> iface_row" where
  "iface_table st name =
     map (\<lambda>leaf. store_look st ''openconfig'' (ifaceElems name leaf))
       [''name'', ''admin-status'', ''oper-status'', ''type'', ''ifindex'', ''mtu'']"

definition iface_entry :: "klink \<Rightarrow> iface_row" where
  "iface_entry l =
     [Some (StringVal (kl_name l)),
      Some (StringVal (if kl_flags l AND flagUp \<noteq> 0 then ''UP'' else ''DOWN'')),
      Some (StringVal (operStatus (kl_oper l))),
      Some (StringVal (kl_type l)),
      Some (UintVal (of_int (kl_index l))),
      Some (UintVal (of_int (kl_mtu l)))]"

definition link_spec :: "(string \<Rightarrow> iface_row) \<Rightarrow> link_update \<Rightarrow> (string \<Rightarrow> iface_row)" where
  "link_spec t u =
     t(kl_name (lu_link u) :=
        (if lu_type u = rtmDelLink then replicate 6 None else iface_entry (lu_link u)))"

lemma iface_table_write:
  "iface_table (apply_effs st (writeLinkState l)) = (iface_table st)(kl_name l := iface_entry l)"
  by (auto simp: fun_eq_iff iface_table_def writeLinkState_def iface_entry_def leafUpdate_def strVal_def
      uintVal_def Let_def look_apply_upd simp del: apply_eff.simps(1))

lemma iface_table_link: "iface_table (apply_effs st (linkLoop u)) = link_spec (iface_table st) u"
proof (cases "lu_type u = rtmDelLink")
  case True
  then show ?thesis
    by (auto simp: fun_eq_iff link_spec_def linkLoop_def Let_def iface_table_def look_apply_del eval_nat_numeral
        simp del: apply_eff.simps(1))
next
  case False
  then show ?thesis
    by (simp add: link_spec_def linkLoop_def Let_def iface_table_write)
qed

text \<open>
  The interface rows in the cache are those of the last update of each interface: for any sequence of
  kernel link messages applied to any cache, each interface's row (name, administrative and
  operational state, type, index, MTU) is that of its last message, empty if that was a removal, and
  the row of the cache before if there was none.
\<close>

theorem netlink_iface_table:
  "iface_table (apply_effs st (concat (map linkLoop us))) = foldl link_spec (iface_table st) us"
  by (induction us arbitrary: st) (simp_all add: iface_table_link)

text \<open>
  Removing a link removes all the cache knows of it and nothing else: after the message no leaf
  under the interface is left, be it state, counters or addresses, every leaf that is not under the
  interface is as before, and the correlator is told of a root event.
\<close>

theorem netlink_dellink_clears:
  assumes "lu_type u = rtmDelLink"
  shows "store_look (apply_effs st (linkLoop u)) og q =
      (if og = ''openconfig'' \<and> prefix (ifaceElems (kl_name (lu_link u)) []) q then None else store_look st og q)
    \<and> prefix (ifaceElems (kl_name (lu_link u)) []) (addrElems (kl_name (lu_link u)) ip leaf)
    \<and> prefix (ifaceElems (kl_name (lu_link u)) []) (fst (counterUpdate (kl_name (lu_link u)) leaf v))
    \<and> Emit ''netlink'' ''link-down'' (kl_name (lu_link u)) ''link removed'' True \<in> set (linkLoop u)"
  using assms
  by (simp add: linkLoop_def Let_def look_apply_del ifaceElems_def addrElems_def counterUpdate_def state_leaf_def
      del: apply_eff.simps(1))

definition sample_link :: klink where
  "sample_link = \<lparr>kl_name = ''eth1'', kl_index = 3, kl_mtu = 1500, kl_flags = 0x1043, kl_oper = OperUp,
     kl_type = ''device'', kl_stats = None\<rparr>"

theorem netlink_dellink_clears_witness:
  "store_look (apply_effs (apply_effs (\<lambda>_. None) (linkLoop \<lparr>lu_type = 16, lu_link = sample_link\<rparr>))
      (linkLoop \<lparr>lu_type = 17, lu_link = sample_link\<rparr>)) ''openconfig'' (ifaceElems ''eth1'' ''oper-status'') = None"
  by (subst netlink_dellink_clears [THEN conjunct1]) (simp_all add: sample_link_def ifaceElems_def)

text \<open>
  A link message that is not a removal always reports a root event, and one whose operational
  state is anything but up is reported as a link that went down, also when nothing changed and the
  interface works: loopback, dummy and tunnel devices, which the kernel gives the state unknown while
  they are up, open a convergence trace with every message about them.
\<close>

theorem netlink_unknown_oper_reports_down:
  assumes "lu_type u \<noteq> rtmDelLink" and "kl_oper (lu_link u) \<noteq> OperUp"
  shows "\<exists>detail. filter (\<lambda>e. case e of Emit b k key d r \<Rightarrow> True | _ \<Rightarrow> False) (linkLoop u) =
    [Emit ''netlink'' ''link-down'' (kl_name (lu_link u)) detail True]"
  using assms
  by (cases "kl_oper (lu_link u)")
     (auto simp: linkLoop_def writeLinkState_def operStatus_def Let_def)

theorem netlink_unknown_oper_reports_down_witness:
  "\<exists>detail. filter (\<lambda>e. case e of Emit b k key d r \<Rightarrow> True | _ \<Rightarrow> False)
      (linkLoop \<lparr>lu_type = 16, lu_link = sample_link\<lparr>kl_name := ''lo'', kl_flags := 0x49, kl_oper := OperOther\<rparr>\<rparr>) =
    [Emit ''netlink'' ''link-down'' ''lo'' detail True]"
  using netlink_unknown_oper_reports_down
    [of "\<lparr>lu_type = 16, lu_link = sample_link\<lparr>kl_name := ''lo'', kl_flags := 0x49, kl_oper := OperOther\<rparr>\<rparr>"]
  by simp


section \<open>Bridge forwarding entries\<close>

type_synonym fdb_row = "tval option \<times> tval option"

definition fdb_table :: "store \<Rightarrow> string \<times> string \<Rightarrow> fdb_row" where
  "fdb_table st = (\<lambda>(mac, vlan).
     (store_look st ''openconfig'' (fdbElems mac vlan ''mac-address''),
      store_look st ''openconfig'' (fdbElems mac vlan ''interface'')))"

definition fdb_key :: "neigh \<Rightarrow> string \<times> string" where
  "fdb_key n = (mac_string (ne_mac n), itoa (ne_vlan n))"

text \<open>The specification: bridge entries with a unicast address are a map from address and VLAN to
  interface; everything else is ignored.\<close>

definition fdb_spec :: "(int \<Rightarrow> string option) \<Rightarrow> (string \<times> string \<Rightarrow> fdb_row) \<Rightarrow> neigh_update \<Rightarrow> (string \<times> string \<Rightarrow> fdb_row)" where
  "fdb_spec byIndex t u =
     (let n = nu_neigh u
      in if ne_family n = 7 \<and> isUnicastMAC (ne_mac n) then
           t(fdb_key n :=
              (if nu_type u = 29 then (None, None)
               else (Some (StringVal (mac_string (ne_mac n))), Some (StringVal (if_name byIndex (ne_link n))))))
         else t)"

lemma fdb_table_neigh:
  "fdb_table (apply_effs st (neighLoop byIndex u)) = fdb_spec byIndex (fdb_table st) u"
  by (auto simp: fun_eq_iff fdb_table_def fdb_spec_def fdb_key_def neighLoop_def writeFDB_def leafUpdate_def
      strVal_def Let_def look_apply_upd look_apply_del simp del: apply_eff.simps(1))

text \<open>
  The bridge table in the cache follows the kernel: after any sequence of neighbour messages the
  rows are those of the map, keyed by address and VLAN, that the bridge messages about unicast
  addresses build and take down; messages of other families and about group addresses change nothing.
\<close>

theorem netlink_fdb_table:
  "fdb_table (apply_effs st (concat (map (neighLoop byIndex) us))) = foldl (fdb_spec byIndex) (fdb_table st) us"
  by (induction us arbitrary: st) (simp_all add: fdb_table_neigh)


section \<open>The MPLS forwarding table\<close>

type_synonym lfib_row = "tval option list"

definition lfib_table :: "store \<Rightarrow> u32 \<Rightarrow> lfib_row" where
  "lfib_table st label =
     map (\<lambda>leaf. store_look st ''frr'' (mplsElems label leaf))
       [''in-label'', ''out-label'', ''next-hop'', ''interface'']"

definition lfib_entry :: "(int \<Rightarrow> string option) \<Rightarrow> u32 \<Rightarrow> mpls_route \<Rightarrow> lfib_row" where
  "lfib_entry byIndex label r = map (\<lambda>s. Some (StringVal s))
     [dec (unat label),
      case mr_newdst r of None \<Rightarrow> '''' | Some ls \<Rightarrow> join '','' (map itoa ls),
      if mr_via r \<noteq> [] then ip_string (mr_via r) else if mr_gw r \<noteq> [] then ip_string (mr_gw r) else '''',
      if 0 < mr_link r then if_name byIndex (mr_link r) else '''']"

lemma intsCSV_join: "intsCSV v = join '','' (map itoa v)"
proof -
  have *: "fst (foldl (\<lambda>(s, i). \<lambda>x. (s @ (if 0 < i then '','' else []) @ itoa x, Suc i)) (s, i) v) =
      s @ (if 0 < i \<and> v \<noteq> [] then '','' else []) @ join '','' (map itoa v)"
    for s :: string and i and v :: "int list"
  proof (induction v arbitrary: s i)
    case (Cons x v)
    show ?case by (simp add: Cons.IH) (cases v; simp)
  qed simp
  show ?thesis unfolding intsCSV_def * by simp
qed

lemma lfib_table_write:
  "lfib_table (apply_effs st (writeLFIB byIndex r)) =
    (case mr_dst r of None \<Rightarrow> lfib_table st
     | Some d \<Rightarrow> (lfib_table st)(of_int d := lfib_entry byIndex (of_int d) r))"
  by (auto simp: fun_eq_iff lfib_table_def writeLFIB_def lfib_entry_def leafUpdate_def strVal_def Let_def
      intsCSV_join look_apply_upd split: option.splits simp del: apply_eff.simps(1))

definition lfib_spec :: "(int \<Rightarrow> string option) \<Rightarrow> (u32 \<Rightarrow> lfib_row) \<Rightarrow> mpls_route \<Rightarrow> (u32 \<Rightarrow> lfib_row)" where
  "lfib_spec byIndex t r =
     (case mr_dst r of None \<Rightarrow> t | Some d \<Rightarrow> t(of_int d := lfib_entry byIndex (of_int d) r))"

lemma lfib_table_snapshot:
  "lfib_table (apply_effs st (snapshotMPLS byIndex (Some routes))) = foldl (lfib_spec byIndex) (lfib_table st) routes"
  by (induction routes arbitrary: st) (simp_all add: snapshotMPLS_def lfib_table_write lfib_spec_def)

lemma foldl_lfib_other:
  "\<forall>r \<in> set routes. \<forall>d. mr_dst r = Some d \<longrightarrow> of_int d \<noteq> l \<Longrightarrow> foldl (lfib_spec byIndex) t routes l = t l"
  by (induction routes arbitrary: t) (auto simp: lfib_spec_def split: option.splits)

text \<open>
  A snapshot writes the row of every labelled route of the kernel's MPLS table, and no snapshot
  ever removes a row: the entry of a label the kernel no longer has (a withdrawn binding) stays in
  the cache, after any number of later snapshots.
\<close>

theorem netlink_lfib_never_shrinks:
  assumes "\<forall>routes \<in> set snaps. \<forall>r \<in> set routes. \<forall>d. mr_dst r = Some d \<longrightarrow> of_int d \<noteq> l"
  shows "lfib_table (apply_effs (apply_effs st (snapshotMPLS byIndex (Some old)))
      (concat (map (\<lambda>routes. snapshotMPLS byIndex (Some routes)) snaps))) l =
    foldl (lfib_spec byIndex) (lfib_table st) old l"
proof -
  have "lfib_table (apply_effs s (concat (map (\<lambda>routes. snapshotMPLS byIndex (Some routes)) snaps))) l = lfib_table s l"
    for s
    using assms
    by (induction snaps arbitrary: s) (simp_all add: lfib_table_snapshot foldl_lfib_other)
  then show ?thesis by (simp add: lfib_table_snapshot)
qed

theorem netlink_lfib_never_shrinks_witness:
  "lfib_table (apply_effs (apply_effs (\<lambda>_. None) (snapshotMPLS (\<lambda>_. Some ''eth1'')
        (Some [\<lparr>mr_dst = Some 18, mr_newdst = Some [16, 80], mr_via = [10, 0, 0, 2], mr_gw = [], mr_link = 3\<rparr>])))
      (concat (map (\<lambda>routes. snapshotMPLS (\<lambda>_. Some ''eth1'') (Some routes)) [[], []]))) 18 =
    map (\<lambda>s. Some (StringVal s)) [''18'', ''16,80'', ''10.0.0.2'', ''eth1'']"
  by (subst netlink_lfib_never_shrinks)
     (simp_all add: lfib_spec_def lfib_entry_def if_name_def ip_string_4 dotted_def dec_eval itoa_def)

end
