(* ===== verification/Json.thy ===== *)
theory Json
  imports GoStrings
begin

text \<open>
  JSON values as \<^verbatim>\<open>encoding/json\<close> delivers them. The text of a document is not modelled: \<^const>\<open>None\<close> is
  a document that does not parse. An object is the list of its members in the order in which the
  decoder meets them, which for an object decoded into a map is also the iteration order of that run.
\<close>

datatype json =
    JNull
  | JBool bool
  | JNum string
  | JStr string
  | JArr "json list"
  | JObj "(string \<times> json) list"

text \<open>Decoding into a string field: null leaves the field as it is, another type is an error.\<close>

fun dec_str :: "json \<Rightarrow> string \<Rightarrow> string option" where
  "dec_str (JStr s) cur = Some s"
| "dec_str JNull cur = Some cur"
| "dec_str _ cur = None"

text \<open>The key of a struct field matches without regard to case.\<close>

definition key_is :: "string \<Rightarrow> string \<Rightarrow> bool" where
  "key_is field k \<longleftrightarrow> to_lower k = to_lower field"

text \<open>Decoding an object member by member, stopping at the first error (which discards the result).\<close>

fun dec_members :: "(string \<Rightarrow> json \<Rightarrow> 'a \<Rightarrow> 'a option) \<Rightarrow> (string \<times> json) list \<Rightarrow> 'a \<Rightarrow> 'a option" where
  "dec_members f [] s = Some s"
| "dec_members f ((k, v) # kvs) s = do { s' \<leftarrow> f k v s; dec_members f kvs s' }"

text \<open>Members of a value of type \<^verbatim>\<open>map[string]any\<close>: a missing member is nil, as is JSON null.\<close>

definition jget :: "(string \<times> json) list \<Rightarrow> string \<Rightarrow> json" where
  "jget m k = (case map_of m k of None \<Rightarrow> JNull | Some v \<Rightarrow> v)"

end
