(* ===== verification/Ospf.thy ===== *)
theory Ospf
  imports Json Gnmi
begin

text \<open>
  The OSPF ingester of \<^verbatim>\<open>internal/ingest/ospf.go\<close>: the decoding of FRR's neighbour listing, the
  reconciliation of the cache with it, and the trigger that coalesces syslog messages into
  reconciliations. The output of \<^verbatim>\<open>vtysh\<close> is an argument: \<^const>\<open>None\<close> when the command fails, and
  else the JSON document, which may be malformed.
\<close>

section \<open>Neighbours\<close>

record ospf_nbr =
  on_rid :: string
  on_iface :: string
  on_addr :: string
  on_state :: string

record nbr_json =
  nj_state :: string
  nj_converged :: string
  nj_iface :: string
  nj_addr :: string

definition dec_nbr :: "json \<Rightarrow> nbr_json option" where
  "dec_nbr j =
     (let zero = \<lparr>nj_state = [], nj_converged = [], nj_iface = [], nj_addr = []\<rparr>
      in case j of
           JNull \<Rightarrow> Some zero
         | JObj kvs \<Rightarrow>
             dec_members (\<lambda>k v n.
               if key_is ''nbrState'' k then do { s \<leftarrow> dec_str v (nj_state n); Some (n\<lparr>nj_state := s\<rparr>) }
               else if key_is ''converged'' k then do { s \<leftarrow> dec_str v (nj_converged n); Some (n\<lparr>nj_converged := s\<rparr>) }
               else if key_is ''ifaceName'' k then do { s \<leftarrow> dec_str v (nj_iface n); Some (n\<lparr>nj_iface := s\<rparr>) }
               else if key_is ''ifaceAddress'' k then do { s \<leftarrow> dec_str v (nj_addr n); Some (n\<lparr>nj_addr := s\<rparr>) }
               else Some n) kvs zero
         | _ \<Rightarrow> None)"

definition dec_nbrs :: "json \<Rightarrow> nbr_json list option" where
  "dec_nbrs j = (case j of JNull \<Rightarrow> Some [] | JArr xs \<Rightarrow> those (map dec_nbr xs) | _ \<Rightarrow> None)"

definition dec_neighbors :: "json \<Rightarrow> (string, nbr_json list) gomap \<Rightarrow> (string, nbr_json list) gomap option" where
  "dec_neighbors j m =
     (case j of
        JNull \<Rightarrow> Some []
      | JObj kvs \<Rightarrow> dec_members (\<lambda>k v m. do { ns \<leftarrow> dec_nbrs v; Some (map_put k ns m) }) kvs m
      | _ \<Rightarrow> None)"

definition dec_root :: "json \<Rightarrow> (string, nbr_json list) gomap option" where
  "dec_root j =
     (case j of
        JNull \<Rightarrow> Some []
      | JObj kvs \<Rightarrow> dec_members (\<lambda>k v m. if key_is ''neighbors'' k then dec_neighbors v m else Some m) kvs []
      | _ \<Rightarrow> None)"

definition ospf_nbr_of :: "string \<Rightarrow> nbr_json \<Rightarrow> ospf_nbr" where
  "ospf_nbr_of rid n =
     (let iface = (case index_byte (nj_iface n) CHR '':'' of
                     Some i \<Rightarrow> take i (nj_iface n) | None \<Rightarrow> nj_iface n);
          state = (if nj_converged n = [] then nj_state n else nj_converged n)
      in \<lparr>on_rid = rid, on_iface = iface, on_addr = nj_addr n, on_state = state\<rparr>)"

definition parseOSPFNbrs :: "json option \<Rightarrow> (string, ospf_nbr) gomap" where
  "parseOSPFNbrs data =
     (case data of None \<Rightarrow> []
      | Some j \<Rightarrow>
          (case dec_root j of None \<Rightarrow> []
           | Some m \<Rightarrow>
               foldl (\<lambda>res (rid, arr). case arr of [] \<Rightarrow> res | n # _ \<Rightarrow> map_put rid (ospf_nbr_of rid n) res) [] m))"

definition adjState :: "string \<Rightarrow> string" where
  "adjState s =
     (let w = hd (split_n2 CHR ''/'' s)
      in if w = ''Full'' then ''FULL''
         else if w = ''2-Way'' then ''TWO_WAY''
         else if w = ''Init'' then ''INIT''
         else if w = ''Down'' then ''DOWN''
         else if w = ''ExStart'' then ''EXCHANGE_START''
         else if w = ''Exchange'' then ''EXCHANGE''
         else if w = ''Loading'' then ''LOADING''
         else if w = ''Attempt'' then ''ATTEMPT''
         else ''UNKNOWN'')"

text \<open>\<^verbatim>\<open>lc\<close> works on bytes: \<open>A\<close> to \<open>Z\<close> are shifted by the distance of the cases.\<close>

definition lc :: "string \<Rightarrow> string" where
  "lc s = map (\<lambda>c. let b = (of_char c :: nat)
                   in if 65 \<le> b \<and> b \<le> 90 then char_of (b + (97 - 65)) else c) s"

definition ospfNbrElems :: "string \<Rightarrow> string \<Rightarrow> string \<Rightarrow> elems" where
  "ospfNbrElems iface rid leaf =
     [el ''network-instances'',
      elk ''network-instance'' [(''name'', ''default'')],
      el ''protocols'',
      elk ''protocol'' [(''identifier'', ''OSPF''), (''name'', ''ospf'')],
      el ''ospfv2'',
      el ''areas'',
      elk ''area'' [(''identifier'', ''0.0.0.0'')],
      el ''interfaces'',
      elk ''interface'' [(''id'', iface)],
      el ''neighbors'',
      elk ''neighbor'' [(''router-id'', rid)]] @ state_leaf leaf"


section \<open>Reconciliation\<close>

record ospf =
  o_seen :: "(string, string) gomap"
  o_st :: "string \<Rightarrow> string option"

definition NewOSPF :: ospf where
  "NewOSPF = \<lparr>o_seen = [], o_st = Map.empty\<rparr>"

text \<open>The loop over the current neighbours.\<close>

fun ospf_update :: "(string \<times> ospf_nbr) list \<Rightarrow> (string \<Rightarrow> string option) \<Rightarrow> (string \<Rightarrow> string option) \<times> eff list" where
  "ospf_update [] sts = (sts, [])"
| "ospf_update ((rid, n) # cur) sts =
     (let st = adjState (on_state n);
          ups = [leafUpdate (ospfNbrElems (on_iface n) rid ''adjacency-state'') st,
                 leafUpdate (ospfNbrElems (on_iface n) rid ''neighbor-address'') (on_addr n)];
          ev = (case sts rid of
                  Some old \<Rightarrow>
                    if old \<noteq> st
                    then [Emit ''ospf'' (''adj-'' @ lc st) rid
                            (''if='' @ on_iface n @ '' '' @ old @ ''->'' @ st) True]
                    else []
                | None \<Rightarrow> []);
          (sts', es) = ospf_update cur (sts(rid \<mapsto> st))
      in (sts', CacheUpdate ''openconfig'' ups [] # ev @ es))"

text \<open>The loop over the neighbours seen before.\<close>

fun ospf_delete :: "(string \<times> string) list \<Rightarrow> (string, string) gomap \<Rightarrow> (string \<Rightarrow> string option)
    \<Rightarrow> (string \<Rightarrow> string option) \<times> eff list" where
  "ospf_delete [] seen sts = (sts, [])"
| "ospf_delete ((rid, iface) # old) seen sts =
     (if map_of seen rid = None then
        (let (sts', es) = ospf_delete old seen (sts(rid := None))
         in (sts',
             CacheUpdate ''openconfig'' [] [ospfNbrElems iface rid []] #
             Emit ''ospf'' ''adj-down'' rid (''if='' @ iface @ '' neighbor gone'') True # es))
      else ospf_delete old seen sts)"

definition ospf_apply :: "(string, ospf_nbr) gomap \<Rightarrow> ospf \<Rightarrow> ospf \<times> eff list" where
  "ospf_apply cur s =
     (let seen = foldl (\<lambda>m (rid, n). map_put rid (on_iface n) m) [] cur;
          (sts, es) = ospf_update cur (o_st s);
          (sts', es') = ospf_delete (o_seen s) seen sts
      in (\<lparr>o_seen = seen, o_st = sts'\<rparr>, es @ es'))"

definition ospf_reconcile :: "json option option \<Rightarrow> ospf \<Rightarrow> ospf \<times> eff list" where
  "ospf_reconcile out s =
     (case out of None \<Rightarrow> (s, []) | Some data \<Rightarrow> ospf_apply (parseOSPFNbrs data) s)"


section \<open>The trigger\<close>

text \<open>A syslog message triggers a reconciliation when it mentions OSPF (the first 8192 bytes count).\<close>

definition syslog_matches :: "string \<Rightarrow> bool" where
  "syslog_matches msg = str_contains (to_lower (take 8192 msg)) ''ospf''"

text \<open>The channel of capacity one: \<^verbatim>\<open>signal\<close> does not block.\<close>

definition signal :: "nat \<Rightarrow> nat" where
  "signal pending = (if pending < 1 then pending + 1 else pending)"

text \<open>One round of \<^verbatim>\<open>runSyslog\<close>, and the worker, which takes a trigger, lets the burst settle and
  reconciles: it reads the listing, or \<^verbatim>\<open>vtysh\<close> fails and it returns, or what \<^verbatim>\<open>vtysh\<close> printed does not
  decode and counts as no neighbours; then it makes its calls. FRR logs
  a message when a neighbour changes, but syslog is lossy. Three fields are not variables of the program:
  the messages waiting in the socket, whether the last listing read has all changes (\<open>tr_fresh\<close>), and
  whether it lacks one because its message was lost or the listing failed or did not decode (\<open>tr_missed\<close>).\<close>

datatype worker = Waiting | Settling | Writing

record trig =
  tr_sock :: "string list"
  tr_pending :: nat
  tr_worker :: worker
  tr_fresh :: bool
  tr_missed :: bool

definition runSyslog :: "string \<Rightarrow> trig \<Rightarrow> trig" where
  "runSyslog msg t = (if syslog_matches msg then t\<lparr>tr_pending := signal (tr_pending t)\<rparr> else t)"

text \<open>The steps of the ingester itself, and all steps.\<close>

inductive own_step :: "trig \<Rightarrow> trig \<Rightarrow> bool" where
  receive: "tr_sock t = msg # ms \<Longrightarrow> own_step t (runSyslog msg (t\<lparr>tr_sock := ms\<rparr>))"
| take: "tr_worker t = Waiting \<Longrightarrow> 0 < tr_pending t \<Longrightarrow>
    own_step t (t\<lparr>tr_worker := Settling, tr_pending := tr_pending t - 1\<rparr>)"
| reads: "tr_worker t = Settling \<Longrightarrow> own_step t (t\<lparr>tr_worker := Writing, tr_fresh := True, tr_missed := False\<rparr>)"
| fails: "tr_worker t = Settling \<Longrightarrow>
    own_step t (t\<lparr>tr_worker := Waiting, tr_missed := tr_missed t \<or> \<not> tr_fresh t\<rparr>)"
| unreadable: "tr_worker t = Settling \<Longrightarrow>
    own_step t (t\<lparr>tr_worker := Writing, tr_fresh := False, tr_missed := True\<rparr>)"
| writes: "tr_worker t = Writing \<Longrightarrow> own_step t (t\<lparr>tr_worker := Waiting\<rparr>)"

inductive trig_step :: "trig \<Rightarrow> trig \<Rightarrow> bool" where
  change: "syslog_matches msg \<Longrightarrow> trig_step t (t\<lparr>tr_fresh := False, tr_sock := tr_sock t @ [msg]\<rparr>)"
| lost: "trig_step t (t\<lparr>tr_fresh := False, tr_missed := True\<rparr>)"
| chatter: "trig_step t (t\<lparr>tr_sock := tr_sock t @ [msg]\<rparr>)"
| tick: "trig_step t (t\<lparr>tr_pending := signal (tr_pending t)\<rparr>)"
| own: "own_step t t' \<Longrightarrow> trig_step t t'"

text \<open>At the start the snapshot of \<^verbatim>\<open>Run\<close> has succeeded or failed.\<close>

inductive trig_reach :: "trig \<Rightarrow> bool" where
  init: "trig_reach \<lparr>tr_sock = [], tr_pending = 0, tr_worker = Waiting, tr_fresh = ok, tr_missed = (\<not> ok)\<rparr>"
| step: "trig_reach t \<Longrightarrow> trig_step t t' \<Longrightarrow> trig_reach t'"

inductive_simps own_step_simps: "own_step t t'"
inductive_cases trig_stepE: "trig_step t t'"

end
