(* ===== verification/Reconcile.thy ===== *)
theory Reconcile
  imports Gnmi
begin

text \<open>
  The contract the OSPF and LLDP ingesters share: a reconciliation step reads the neighbours there are
  now, writes the leaves of each under a subtree named by the neighbour's key and its location, and
  deletes the subtrees of the keys it saw last time and does not see now. The locale proves what that
  does to the cache: it mirrors the current neighbours as long as none of them changes location, and
  leaves the old subtree behind when one does.
\<close>

declare apply_eff.simps(1) [simp del]

lemma map_of_rev_distinct: "distinct (map fst xs) \<Longrightarrow> map_of (rev xs) = map_of xs"
  by (subst map_of_inject_set) (simp_all add: rev_map [symmetric])

definition recon_writes :: "string \<Rightarrow> ('k \<Rightarrow> 'v \<Rightarrow> gupdate list) \<Rightarrow> ('k \<times> 'v) list \<Rightarrow> eff list" where
  "recon_writes og rows cur = map (\<lambda>(k, v). CacheUpdate og (rows k v) []) cur"

definition recon_dels ::
    "string \<Rightarrow> ('k \<Rightarrow> 'l \<Rightarrow> elems) \<Rightarrow> ('k \<times> 'l) list \<Rightarrow> ('k \<times> 'v) list \<Rightarrow> eff list" where
  "recon_dels og base seen cur =
     map (\<lambda>(k, l). CacheUpdate og [] [base k l]) (filter (\<lambda>(k, l). k \<notin> fst ` set cur) seen)"

text \<open>One step after the other, from any kind of input.\<close>

fun recon_runs :: "('c \<Rightarrow> 's \<Rightarrow> 's \<times> eff list) \<Rightarrow> 'c list \<Rightarrow> 's \<Rightarrow> 's \<times> eff list" where
  "recon_runs recon [] s = (s, [])"
| "recon_runs recon (cur # curs) s =
     (let (s', es) = recon cur s; (s'', es') = recon_runs recon curs s' in (s'', es @ es'))"

lemma recon_runs_snoc:
  "recon_runs recon (curs @ [cur]) s =
    (fst (recon cur (fst (recon_runs recon curs s))),
     snd (recon_runs recon curs s) @ snd (recon cur (fst (recon_runs recon curs s))))"
  by (induction curs arbitrary: s) (simp_all add: Let_def split: prod.splits)

locale reconciler =
  fixes origin :: string
    and base :: "'k \<Rightarrow> 'l \<Rightarrow> elems"
    and loc :: "'v \<Rightarrow> 'l"
    and rows :: "'k \<Rightarrow> 'v \<Rightarrow> gupdate list"
    and valid :: "'v \<Rightarrow> bool"
    and recon :: "('k \<times> 'v) list \<Rightarrow> 's \<Rightarrow> 's \<times> eff list"
    and seen :: "'s \<Rightarrow> ('k \<times> 'l) list"
  assumes disjoint: "prefix (base k l) p \<Longrightarrow> prefix (base k' l') p \<Longrightarrow> k = k' \<and> l = l'"
    and rows_under: "(p, x) \<in> set (rows k v) \<Longrightarrow> prefix (base k (loc v)) p"
    and rows_keys: "loc v = loc v' \<Longrightarrow> map fst (rows k v) = map fst (rows k v')"
    and rows_distinct: "distinct (map fst (rows k v))"
    and recon_store: "gomap_ok cur \<Longrightarrow> \<forall>v \<in> snd ` set cur. valid v \<Longrightarrow>
      apply_effs st (snd (recon cur s)) =
      apply_effs st (recon_writes origin rows cur @ recon_dels origin base (seen s) cur)"
    and recon_seen: "gomap_ok cur \<Longrightarrow> \<forall>v \<in> snd ` set cur. valid v \<Longrightarrow>
      seen (fst (recon cur s)) = map (\<lambda>(k, v). (k, loc v)) cur"
begin

text \<open>A store mirrors a map of neighbours: under the subtrees there are exactly their leaves.\<close>

definition mirrors :: "store \<Rightarrow> ('k \<times> 'v) list \<Rightarrow> bool" where
  "mirrors st m \<longleftrightarrow>
     (\<forall>k l p. prefix (base k l) p \<longrightarrow>
        store_look st origin p =
          (case map_of m k of Some v \<Rightarrow> if loc v = l then map_of (rows k v) p else None | None \<Rightarrow> None))"

lemma look_write:
  "store_look (apply_eff st (CacheUpdate origin (rows k v) [])) origin p =
    (case map_of (rows k v) p of Some x \<Rightarrow> Some x | None \<Rightarrow> store_look st origin p)"
  using rows_distinct [of k v]
  by (simp add: look_apply_upd map_of_rev_distinct split: option.splits)

lemma rows_elsewhere:
  "prefix (base k l) p \<Longrightarrow> k \<noteq> k' \<or> l \<noteq> loc v \<Longrightarrow> map_of (rows k' v) p = None"
  using disjoint rows_under by (metis map_of_SomeD option.exhaust)

lemma look_writes:
  assumes "gomap_ok cur" "prefix (base k l) p"
  shows "store_look (apply_effs st (recon_writes origin rows cur)) origin p =
    (case map_of cur k of
       Some v \<Rightarrow> (if loc v = l then (case map_of (rows k v) p of Some x \<Rightarrow> Some x | None \<Rightarrow> store_look st origin p)
                 else store_look st origin p)
     | None \<Rightarrow> store_look st origin p)"
  using assms(1)
proof (induction cur arbitrary: st)
  case Nil
  then show ?case by (simp add: recon_writes_def)
next
  case (Cons kv cur)
  obtain k' v where kv: "kv = (k', v)" by (cases kv)
  let ?st = "apply_eff st (CacheUpdate origin (rows k' v) [])"
  have IH: "store_look (apply_effs ?st (recon_writes origin rows cur)) origin p =
      (case map_of cur k of
         Some v \<Rightarrow> (if loc v = l then (case map_of (rows k v) p of Some x \<Rightarrow> Some x | None \<Rightarrow> store_look ?st origin p)
                   else store_look ?st origin p)
       | None \<Rightarrow> store_look ?st origin p)"
    using Cons by simp
  have eq: "apply_effs st (recon_writes origin rows (kv # cur)) = apply_effs ?st (recon_writes origin rows cur)"
    by (simp add: recon_writes_def kv)
  show ?case
  proof (cases "k' = k")
    case True
    then have "map_of cur k = None"
      using Cons.prems kv by (auto simp: map_of_eq_None_iff)
    moreover have "map_of (rows k v) p = None" if "loc v \<noteq> l"
      using rows_elsewhere [OF assms(2)] that by metis
    ultimately show ?thesis
      unfolding eq IH by (simp add: kv True look_write split: option.splits)
  next
    case False
    then have "store_look ?st origin p = store_look st origin p"
      using rows_elsewhere [OF assms(2), of k' v] by (simp add: look_write)
    with False show ?thesis unfolding eq IH by (simp add: kv split: option.splits)
  qed
qed

lemma look_dels:
  assumes "gomap_ok sn" "prefix (base k l) p"
  shows "store_look (apply_effs st (recon_dels origin base sn cur)) origin p =
    (if map_of sn k = Some l \<and> map_of cur k = None then None else store_look st origin p)"
  using assms(1)
proof (induction sn arbitrary: st)
  case Nil
  then show ?case by (simp add: recon_dels_def)
next
  case (Cons kl sn)
  obtain k' l' where kl: "kl = (k', l')" by (cases kl)
  have dom: "k' \<notin> fst ` set cur \<longleftrightarrow> map_of cur k' = None" by (simp add: map_of_eq_None_iff)
  let ?st = "if k' \<notin> fst ` set cur then apply_eff st (CacheUpdate origin [] [base k' l']) else st"
  have eq: "apply_effs st (recon_dels origin base (kl # sn) cur) = apply_effs ?st (recon_dels origin base sn cur)"
    by (simp add: recon_dels_def kl)
  have pre: "prefix (base k' l') p \<longleftrightarrow> k' = k \<and> l' = l"
    using assms(2) disjoint [OF assms(2), of k' l'] by blast
  have st: "store_look ?st origin p =
      (if k' = k \<and> l' = l \<and> map_of cur k = None then None else store_look st origin p)"
    using pre dom assms(2) by (auto simp: look_apply_del)
  have IH: "store_look (apply_effs ?st (recon_dels origin base sn cur)) origin p =
      (if map_of sn k = Some l \<and> map_of cur k = None then None else store_look ?st origin p)"
    using Cons by simp
  have "k' = k \<Longrightarrow> map_of sn k = None"
    using Cons.prems kl by (auto simp: map_of_eq_None_iff)
  then show ?case unfolding eq IH st by (auto simp: kl)
qed

lemma look_recon:
  assumes "gomap_ok cur" "\<forall>v \<in> snd ` set cur. valid v" "gomap_ok (seen s)" "prefix (base k l) p"
  shows "store_look (apply_effs st (snd (recon cur s))) origin p =
    (case map_of cur k of
       Some v \<Rightarrow> (if loc v = l then (case map_of (rows k v) p of Some x \<Rightarrow> Some x | None \<Rightarrow> store_look st origin p)
                 else store_look st origin p)
     | None \<Rightarrow> if map_of (seen s) k = Some l then None else store_look st origin p)"
  by (cases "map_of cur k")
     (simp_all only: recon_store [OF assms(1,2)] apply_effs_append look_dels [OF assms(3,4)]
       look_writes [OF assms(1,4)] option.case simp_thms if_False option.distinct)

text \<open>A step mirrors the current neighbours if none of them moved.\<close>

lemma recon_mirrors:
  assumes "mirrors st old" "gomap_ok old" "gomap_ok cur" "\<forall>v \<in> snd ` set cur. valid v" "gomap_ok (seen s)"
    and "\<And>k. map_of (seen s) k = map_option loc (map_of old k)"
    and "\<And>k v v'. map_of old k = Some v \<Longrightarrow> map_of cur k = Some v' \<Longrightarrow> loc v = loc v'"
  shows "mirrors (apply_effs st (snd (recon cur s))) cur"
  unfolding mirrors_def
proof (intro allI impI)
  fix k l p
  assume p: "prefix (base k l) p"
  have st: "store_look st origin p =
      (case map_of old k of Some v \<Rightarrow> if loc v = l then map_of (rows k v) p else None | None \<Rightarrow> None)"
    using assms(1) p by (simp add: mirrors_def)
  have dom: "map_of (rows k v) p = None \<longleftrightarrow> map_of (rows k v') p = None" if "loc v = loc v'" for v v'
    using rows_keys [OF that, of k] by (metis map_of_eq_None_iff set_map)
  show "store_look (apply_effs st (snd (recon cur s))) origin p =
      (case map_of cur k of Some v \<Rightarrow> if loc v = l then map_of (rows k v) p else None | None \<Rightarrow> None)"
  proof (cases "map_of cur k")
    case None
    with st look_recon [OF assms(3,4,5) p] assms(6) show ?thesis by (auto split: option.splits)
  next
    case (Some v')
    show ?thesis
    proof (cases "map_of old k")
      case None
      with Some st look_recon [OF assms(3,4,5) p] show ?thesis by (auto split: option.splits)
    next
      case (Some v)
      with \<open>map_of cur k = Some v'\<close> have "loc v = loc v'" using assms(7) by blast
      with Some \<open>map_of cur k = Some v'\<close> st look_recon [OF assms(3,4,5) p] dom [of v v'] show ?thesis
        by (auto split: option.splits)
    qed
  qed
qed

text \<open>Sequences of steps.\<close>

lemma seen_keys:
  assumes "gomap_ok cur" "\<forall>v \<in> snd ` set cur. valid v"
  shows "gomap_ok (seen (fst (recon cur s)))" "map_of (seen (fst (recon cur s))) k = map_option loc (map_of cur k)"
proof -
  have "map fst (map (\<lambda>(k, v). (k, loc v)) cur) = map fst cur" by (induction cur) auto
  then show "gomap_ok (seen (fst (recon cur s)))" using assms recon_seen by metis
  have "map_of (map (\<lambda>(k, v). (k, loc v)) cur) k = map_option loc (map_of cur k)" by (induction cur) auto
  then show "map_of (seen (fst (recon cur s))) k = map_option loc (map_of cur k)" using assms recon_seen by metis
qed

lemma runs_mirror:
  assumes "mirrors st []" "seen s0 = []" "curs \<noteq> []"
    and "\<And>cur. cur \<in> set curs \<Longrightarrow> gomap_ok cur \<and> (\<forall>v \<in> snd ` set cur. valid v)"
    and "\<And>cur k v. cur \<in> set curs \<Longrightarrow> map_of cur k = Some v \<Longrightarrow> loc v = home k"
  shows "mirrors (apply_effs st (snd (recon_runs recon curs s0))) (last curs)"
proof -
  have "mirrors (apply_effs st (snd (recon_runs recon curs s0))) (last ([] # curs)) \<and>
      gomap_ok (seen (fst (recon_runs recon curs s0))) \<and>
      (\<forall>k. map_of (seen (fst (recon_runs recon curs s0))) k = map_option loc (map_of (last ([] # curs)) k))"
    using assms(4,5)
  proof (induction curs rule: rev_induct)
    case Nil
    with assms(1,2) show ?case by simp
  next
    case (snoc cur curs)
    let ?s = "fst (recon_runs recon curs s0)" and ?st = "apply_effs st (snd (recon_runs recon curs s0))"
    let ?old = "last ([] # curs)"
    have IH: "mirrors ?st ?old" "gomap_ok (seen ?s)"
        "\<And>k. map_of (seen ?s) k = map_option loc (map_of ?old k)"
    proof -
      have "mirrors ?st ?old \<and> gomap_ok (seen ?s) \<and>
          (\<forall>k. map_of (seen ?s) k = map_option loc (map_of ?old k))"
        by (rule snoc.IH, rule snoc.prems(1), simp, rule snoc.prems(2), auto)
      then show "mirrors ?st ?old" "gomap_ok (seen ?s)"
          "\<And>k. map_of (seen ?s) k = map_option loc (map_of ?old k)" by blast+
    qed
    have cur: "gomap_ok cur" "\<forall>v \<in> snd ` set cur. valid v" using snoc.prems(1) [of cur] by auto
    have old: "gomap_ok ?old" using snoc.prems(1) [of "last curs"] by (cases "curs = []") auto
    have home: "loc v = home k" if "map_of ?old k = Some v" for k v
      using that snoc.prems(2) [of "last curs" k v] by (cases "curs = []") auto
    have "mirrors (apply_effs ?st (snd (recon cur ?s))) cur"
      by (rule recon_mirrors [OF IH(1) old cur IH(2,3)]) (use home snoc.prems(2) [of cur] in simp)
    then show ?case using seen_keys [OF cur] by (simp add: recon_runs_snoc)
  qed
  with assms(3) show ?thesis by simp
qed

text \<open>A neighbour that is seen at a new location, or not at all while its key is bound to another
  location, keeps its old subtree.\<close>

lemma recon_moved:
  assumes "gomap_ok cur" "\<forall>v \<in> snd ` set cur. valid v" "gomap_ok (seen s)" "prefix (base k l) p"
    and "\<And>v. map_of cur k = Some v \<Longrightarrow> loc v \<noteq> l"
    and "map_of cur k = None \<Longrightarrow> map_of (seen s) k \<noteq> Some l"
  shows "store_look (apply_effs st (snd (recon cur s))) origin p = store_look st origin p"
  using look_recon [OF assms(1-4), of st] assms(5,6) by (auto split: option.splits)

lemma runs_moved:
  assumes "\<And>cur. cur \<in> set curs \<Longrightarrow> gomap_ok cur \<and> (\<forall>v \<in> snd ` set cur. valid v)"
    and "gomap_ok (seen s)" "prefix (base k l) p" "map_of (seen s) k \<noteq> Some l"
    and "\<And>cur v. cur \<in> set curs \<Longrightarrow> map_of cur k = Some v \<Longrightarrow> loc v \<noteq> l"
  shows "store_look (apply_effs st (snd (recon_runs recon curs s))) origin p = store_look st origin p"
  using assms
proof (induction curs arbitrary: st s)
  case (Cons cur curs)
  let ?s = "fst (recon cur s)" and ?st = "apply_effs st (snd (recon cur s))"
  have cur: "gomap_ok cur" "\<forall>v \<in> snd ` set cur. valid v" using Cons.prems(1) [of cur] by auto
  have loc: "loc v \<noteq> l" if "map_of cur k = Some v" for v using Cons.prems(5) [of cur v] that by simp
  have "store_look (apply_effs ?st (snd (recon_runs recon curs ?s))) origin p = store_look ?st origin p"
    by (rule Cons.IH) (use Cons.prems(1,3,5) seen_keys [OF cur] loc in \<open>auto simp del: map_of_eq_Some_iff\<close>)
  moreover have "store_look ?st origin p = store_look st origin p"
    by (rule recon_moved [OF cur Cons.prems(2,3) loc]) (use Cons.prems(4) in auto)
  ultimately show ?case by (simp add: split_def Let_def)
qed simp

end

end
