(* ===== verification/Ospf_Props.thy ===== *)
theory Ospf_Props
  imports Ospf Reconcile
begin

text \<open>
  What the OSPF ingester does: the decoding of FRR's listing, the reconciliation as an instance of
  the contract in \<open>Reconcile\<close>, the events it reports, the neighbour that stays behind when it moves
  to another interface, and that no change is lost between syslog and the worker.
\<close>

section \<open>The reconciliation as an instance of the contract\<close>

lemma ospfNbrElems_eq [simp]:
  "ospfNbrElems i r a = ospfNbrElems i' r' a' \<longleftrightarrow> i = i' \<and> r = r' \<and> a = a'"
  by (auto simp: ospfNbrElems_def)

lemma ospfNbrElems_prefix [simp]:
  "prefix (ospfNbrElems i r []) (ospfNbrElems i' r' a) \<longleftrightarrow> i = i' \<and> r = r'"
  by (auto simp: ospfNbrElems_def)

lemma ospfNbrElems_disjoint:
  assumes "prefix (ospfNbrElems i r []) p" "prefix (ospfNbrElems i' r' []) p"
  shows "r = r' \<and> i = i'"
proof -
  have "prefix (ospfNbrElems i r []) (ospfNbrElems i' r' []) \<or> prefix (ospfNbrElems i' r' []) (ospfNbrElems i r [])"
    by (rule prefix_same_cases [OF assms])
  then show ?thesis by auto
qed

definition ospf_rows :: "string \<Rightarrow> ospf_nbr \<Rightarrow> gupdate list" where
  "ospf_rows rid n =
     [leafUpdate (ospfNbrElems (on_iface n) rid ''adjacency-state'') (adjState (on_state n)),
      leafUpdate (ospfNbrElems (on_iface n) rid ''neighbor-address'') (on_addr n)]"

lemma foldl_put_map:
  "distinct (map fst m @ map fst cur) \<Longrightarrow>
    foldl (\<lambda>m (k, n). map_put k (f n) m) m cur = m @ map (\<lambda>(k, n). (k, f n)) cur"
proof (induction cur arbitrary: m)
  case (Cons kn cur)
  obtain k n where kn: "kn = (k, n)" by (cases kn)
  have "map_put k (f n) m = m @ [(k, f n)]" if "k \<notin> fst ` set m"
    using that by (induction m) auto
  with Cons kn show ?case by (simp add: Cons.IH [of "m @ [(k, f n)]"] comp_def)
qed simp

definition ospf_new_seen :: "(string, ospf_nbr) gomap \<Rightarrow> (string, string) gomap" where
  "ospf_new_seen cur = map (\<lambda>(rid, n). (rid, on_iface n)) cur"

lemma ospf_seen_eq:
  "gomap_ok cur \<Longrightarrow> foldl (\<lambda>m (rid, n). map_put rid (on_iface n) m) [] cur = ospf_new_seen cur"
  using foldl_put_map [of "[]" cur on_iface] by (simp add: ospf_new_seen_def)

lemma ospf_new_seen_keys [simp]:
  "map fst (ospf_new_seen cur) = map fst cur" "map_of (ospf_new_seen cur) k = map_option on_iface (map_of cur k)"
  by (induction cur) (auto simp: ospf_new_seen_def)

declare apply_eff.simps(1) [simp del]

text \<open>The event of a neighbour's transition, if there is one.\<close>

definition ospf_transition :: "(string \<Rightarrow> string option) \<Rightarrow> string \<Rightarrow> ospf_nbr \<Rightarrow> eff list" where
  "ospf_transition sts rid n =
     (let st = adjState (on_state n)
      in case sts rid of
           Some old \<Rightarrow>
             if old \<noteq> st
             then [Emit ''ospf'' (''adj-'' @ lc st) rid (''if='' @ on_iface n @ '' '' @ old @ ''->'' @ st) True]
             else []
         | None \<Rightarrow> [])"

lemma ospf_update_Cons:
  "ospf_update ((rid, n) # cur) sts =
    (let r = ospf_update cur (sts(rid \<mapsto> adjState (on_state n)))
     in (fst r, CacheUpdate ''openconfig'' (ospf_rows rid n) [] # ospf_transition sts rid n @ snd r))"
  by (simp add: Let_def ospf_rows_def ospf_transition_def split: prod.splits)

lemma ospf_delete_Cons:
  "ospf_delete ((rid, iface) # old) seen sts =
    (if map_of seen rid = None
     then (let r = ospf_delete old seen (sts(rid := None))
           in (fst r, CacheUpdate ''openconfig'' [] [ospfNbrElems iface rid []] #
                Emit ''ospf'' ''adj-down'' rid (''if='' @ iface @ '' neighbor gone'') True # snd r))
     else ospf_delete old seen sts)"
  by (simp add: Let_def split: prod.splits)

lemma apply_transition: "apply_effs st (ospf_transition sts rid n) = st"
  by (auto simp: ospf_transition_def Let_def split: option.splits)

lemma ospf_update_store:
  "apply_effs st (snd (ospf_update cur sts)) = apply_effs st (recon_writes ''openconfig'' ospf_rows cur)"
proof (induction cur arbitrary: st sts)
  case (Cons kn cur)
  obtain k n where "kn = (k, n)" by (cases kn)
  with Cons.IH show ?case
    by (simp add: ospf_update_Cons Let_def recon_writes_def apply_transition del: ospf_update.simps)
qed (simp add: recon_writes_def)

lemma ospf_delete_store:
  "apply_effs st (snd (ospf_delete old seen sts)) =
    apply_effs st (map (\<lambda>(k, l). CacheUpdate ''openconfig'' [] [ospfNbrElems l k []])
      (filter (\<lambda>(k, l). map_of seen k = None) old))"
proof (induction old arbitrary: st sts)
  case (Cons kl old)
  obtain k l where "kl = (k, l)" by (cases kl)
  with Cons.IH show ?case by (simp add: ospf_delete_Cons Let_def del: ospf_delete.simps)
qed simp

lemma ospf_apply_eq:
  assumes "gomap_ok cur"
  shows "ospf_apply cur s =
    (\<lparr>o_seen = ospf_new_seen cur,
      o_st = fst (ospf_delete (o_seen s) (ospf_new_seen cur) (fst (ospf_update cur (o_st s))))\<rparr>,
     snd (ospf_update cur (o_st s)) @
     snd (ospf_delete (o_seen s) (ospf_new_seen cur) (fst (ospf_update cur (o_st s)))))"
  by (simp add: ospf_apply_def ospf_seen_eq [OF assms] Let_def split: prod.splits)

lemma o_seen_apply: "gomap_ok cur \<Longrightarrow> o_seen (fst (ospf_apply cur s)) = ospf_new_seen cur"
  by (simp add: ospf_apply_eq)

interpretation os: reconciler "''openconfig''" "\<lambda>rid iface. ospfNbrElems iface rid []" on_iface ospf_rows
  "\<lambda>_. True" ospf_apply o_seen
proof unfold_locales
  fix cur :: "(string \<times> ospf_nbr) list" and st and s :: ospf
  assume ok: "gomap_ok cur"
  show "apply_effs st (snd (ospf_apply cur s)) =
      apply_effs st (recon_writes ''openconfig'' ospf_rows cur @
        recon_dels ''openconfig'' (\<lambda>rid iface. ospfNbrElems iface rid []) (o_seen s) cur)"
    by (simp add: ospf_apply_eq [OF ok] ospf_update_store ospf_delete_store recon_dels_def map_of_eq_None_iff)
  show "o_seen (fst (ospf_apply cur s)) = map (\<lambda>(k, v). (k, on_iface v)) cur"
    by (simp add: o_seen_apply [OF ok] ospf_new_seen_def)
qed (use ospfNbrElems_disjoint in \<open>auto simp: ospf_rows_def leafUpdate_def\<close>)


section \<open>The neighbours in the cache\<close>

text \<open>The rows a client reads, and those the current neighbours call for.\<close>

definition ospf_view :: "store \<Rightarrow> string \<Rightarrow> string \<Rightarrow> tval option \<times> tval option" where
  "ospf_view st iface rid =
     (store_look st ''openconfig'' (ospfNbrElems iface rid ''adjacency-state''),
      store_look st ''openconfig'' (ospfNbrElems iface rid ''neighbor-address''))"

definition ospf_want :: "(string, ospf_nbr) gomap \<Rightarrow> string \<Rightarrow> string \<Rightarrow> tval option \<times> tval option" where
  "ospf_want cur iface rid =
     (case map_of cur rid of
        Some n \<Rightarrow> if on_iface n = iface
                  then (Some (StringVal (adjState (on_state n))), Some (StringVal (on_addr n)))
                  else (None, None)
      | None \<Rightarrow> (None, None))"

abbreviation ospf_runs :: "(string, ospf_nbr) gomap list \<Rightarrow> ospf \<Rightarrow> ospf \<times> eff list" where
  "ospf_runs \<equiv> recon_runs ospf_apply"

lemma ospf_view_mirrors: "os.mirrors st cur \<Longrightarrow> ospf_view st iface rid = ospf_want cur iface rid"
  by (auto simp: os.mirrors_def ospf_view_def ospf_want_def ospf_rows_def leafUpdate_def strVal_def
      split: option.splits)

text \<open>
  The cache shows the neighbours of the last listing. After any non-empty sequence of listings,
  read in any order of their maps, in which every router id keeps its interface, the rows of the
  OSPF neighbours in the cache are exactly those of the last one: state and address of each, and
  nothing for any other router id and interface.
\<close>

theorem ospf_cache_is_last_listing:
  assumes "list_all gomap_ok curs" "curs \<noteq> []"
    and "\<And>cur rid n. cur \<in> set curs \<Longrightarrow> map_of cur rid = Some n \<Longrightarrow> on_iface n = home rid"
  shows "ospf_view (apply_effs (\<lambda>_. None) (snd (ospf_runs curs NewOSPF))) = ospf_want (last curs)"
proof -
  have "os.mirrors (apply_effs (\<lambda>_. None) (snd (ospf_runs curs NewOSPF))) (last curs)"
    by (rule os.runs_mirror [where home = home])
       (use assms in \<open>auto simp: NewOSPF_def os.mirrors_def store_look_def list_all_iff simp del: map_of_eq_Some_iff\<close>)
  then show ?thesis using ospf_view_mirrors by (auto simp: fun_eq_iff)
qed

definition sample_nbr :: "string \<Rightarrow> string \<Rightarrow> ospf_nbr" where
  "sample_nbr iface state = \<lparr>on_rid = ''1.1.1.1'', on_iface = iface, on_addr = ''10.0.0.2'', on_state = state\<rparr>"

theorem ospf_cache_is_last_listing_witness:
  "ospf_view (apply_effs (\<lambda>_. None)
      (snd (ospf_runs [[(''1.1.1.1'', sample_nbr ''eth0'' ''Init'')], [], [(''1.1.1.1'', sample_nbr ''eth0'' ''Full/DR'')]]
        NewOSPF))) ''eth0'' ''1.1.1.1'' =
    (Some (StringVal ''FULL''), Some (StringVal ''10.0.0.2''))"
  by (subst ospf_cache_is_last_listing [where home = "\<lambda>_. ''eth0''"])
     (auto simp: ospf_want_def sample_nbr_def adjState_def split_n2_def split: if_splits)

text \<open>
  A neighbour that is seen on another interface leaves its old row behind: from the listing in
  which it has moved on, through any number of listings that do not show it on the old interface
  (whether it is elsewhere or gone), the old row keeps its last state.
\<close>

theorem ospf_moved_neighbor_stays:
  assumes "list_all gomap_ok (cur # curs)" "gomap_ok (o_seen s)"
    and "map_of cur rid = Some n" "on_iface n \<noteq> iface"
    and "\<And>c m. c \<in> set curs \<Longrightarrow> map_of c rid = Some m \<Longrightarrow> on_iface m \<noteq> iface"
  shows "ospf_view (apply_effs st (snd (ospf_runs (cur # curs) s))) iface rid = ospf_view st iface rid"
proof -
  let ?s = "fst (ospf_apply cur s)" and ?st = "apply_effs st (snd (ospf_apply cur s))"
  have pre: "prefix (ospfNbrElems iface rid []) (ospfNbrElems iface rid a)" for a by simp
  have ok: "\<And>c. c \<in> set curs \<Longrightarrow> gomap_ok c \<and> (\<forall>v \<in> snd ` set c. True)" "gomap_ok cur" "\<forall>v \<in> snd ` set cur. True"
    using assms(1) by (auto simp: list_all_iff)
  have seen: "gomap_ok (o_seen ?s)" "map_of (o_seen ?s) rid \<noteq> Some iface"
    using os.seen_keys [OF ok(2,3), of s] assms(3,4) by simp_all
  have "store_look (apply_effs ?st (snd (ospf_runs curs ?s))) ''openconfig'' (ospfNbrElems iface rid a) =
      store_look ?st ''openconfig'' (ospfNbrElems iface rid a)" for a
    by (rule os.runs_moved [OF ok(1) seen(1) pre seen(2) assms(5)]) auto
  moreover have "store_look ?st ''openconfig'' (ospfNbrElems iface rid a) =
      store_look st ''openconfig'' (ospfNbrElems iface rid a)" for a
    by (rule os.recon_moved [OF ok(2,3) assms(2) pre]) (use assms(3,4) in auto)
  ultimately show ?thesis by (simp add: ospf_view_def split_def Let_def)
qed

theorem ospf_moved_neighbor_stays_witness:
  "ospf_view (apply_effs ((\<lambda>_. None)((''openconfig'', ospfNbrElems ''eth0'' ''1.1.1.1'' ''adjacency-state'') \<mapsto> StringVal ''FULL''))
      (snd (ospf_runs [[(''1.1.1.1'', sample_nbr ''eth1'' ''Full'')], []]
        \<lparr>o_seen = [(''1.1.1.1'', ''eth0'')], o_st = [''1.1.1.1'' \<mapsto> ''FULL'']\<rparr>))) ''eth0'' ''1.1.1.1'' =
    (Some (StringVal ''FULL''), None)"
  by (subst ospf_moved_neighbor_stays [where n = "sample_nbr ''eth1'' ''Full''"])
     (auto simp: sample_nbr_def ospf_view_def store_look_def)


section \<open>The events\<close>

fun is_emit :: "eff \<Rightarrow> bool" where
  "is_emit (Emit bus kind key detail root) = True"
| "is_emit (CacheUpdate og ups dels) = False"

lemma ospf_update_st:
  "gomap_ok cur \<Longrightarrow> fst (ospf_update cur sts) =
    (\<lambda>rid. case map_of cur rid of Some n \<Rightarrow> Some (adjState (on_state n)) | None \<Rightarrow> sts rid)"
proof (induction cur arbitrary: sts)
  case (Cons kn cur)
  obtain k n where "kn = (k, n)" by (cases kn)
  moreover from this Cons.prems have "map_of cur k = None" by (simp add: map_of_eq_None_iff)
  ultimately show ?case
    using Cons
    by (auto simp: ospf_update_Cons Let_def fun_eq_iff simp del: ospf_update.simps map_of_eq_Some_iff
        split: option.splits)
qed simp

lemma emits_transition: "filter is_emit (ospf_transition sts rid n) = ospf_transition sts rid n"
  by (auto simp: ospf_transition_def Let_def split: option.splits)

lemma ospf_update_emits:
  "gomap_ok cur \<Longrightarrow> filter is_emit (snd (ospf_update cur sts)) =
    concat (map (\<lambda>(rid, n). ospf_transition sts rid n) cur)"
proof (induction cur arbitrary: sts)
  case (Cons kn cur)
  obtain k n where kn: "kn = (k, n)" by (cases kn)
  have "concat (map (\<lambda>(rid, m). ospf_transition (sts(k \<mapsto> adjState (on_state n))) rid m) cur) =
      concat (map (\<lambda>(rid, m). ospf_transition sts rid m) cur)"
    by (rule arg_cong [where f = concat], rule map_cong [OF refl])
       (use Cons.prems kn in \<open>force simp: ospf_transition_def\<close>)
  with Cons kn show ?case
    by (simp add: ospf_update_Cons Let_def emits_transition del: ospf_update.simps)
qed simp

lemma ospf_delete_emits:
  "filter is_emit (snd (ospf_delete old seen sts)) =
    map (\<lambda>(rid, iface). Emit ''ospf'' ''adj-down'' rid (''if='' @ iface @ '' neighbor gone'') True)
      (filter (\<lambda>(rid, iface). map_of seen rid = None) old)"
proof (induction old arbitrary: sts)
  case (Cons kl old)
  obtain k l where "kl = (k, l)" by (cases kl)
  with Cons show ?case by (simp add: ospf_delete_Cons Let_def del: ospf_delete.simps)
qed simp

lemma ospf_delete_none:
  "(\<And>k l. (k, l) \<in> set old \<Longrightarrow> map_of seen k \<noteq> None) \<Longrightarrow> ospf_delete old seen sts = (sts, [])"
  by (induction old arbitrary: sts) force+

text \<open>
  C24: the correlator hears of changes only. A listing reports one root event for each neighbour whose
  state differs from the one recorded before the listing (none for a neighbour seen for the first
  time) and one for each neighbour that is gone, in that order; and the same listing read again
  reports nothing and leaves the ingester as it is.
\<close>

theorem ospf_events_are_changes:
  assumes "gomap_ok cur"
  shows "filter is_emit (snd (ospf_apply cur s)) =
      concat (map (\<lambda>(rid, n). ospf_transition (o_st s) rid n) cur) @
      map (\<lambda>(rid, iface). Emit ''ospf'' ''adj-down'' rid (''if='' @ iface @ '' neighbor gone'') True)
        (filter (\<lambda>(rid, iface). map_of cur rid = None) (o_seen s))
    \<and> filter is_emit (snd (ospf_apply cur (fst (ospf_apply cur s)))) = []"
proof -
  have emits: "filter is_emit (snd (ospf_apply cur s)) =
      concat (map (\<lambda>(rid, n). ospf_transition (o_st s) rid n) cur) @
      map (\<lambda>(rid, iface). Emit ''ospf'' ''adj-down'' rid (''if='' @ iface @ '' neighbor gone'') True)
        (filter (\<lambda>(rid, iface). map_of cur rid = None) (o_seen s))" for s
    by (simp add: ospf_apply_eq [OF assms] ospf_update_emits [OF assms] ospf_delete_emits)
  let ?s = "fst (ospf_apply cur s)"
  have del: "fst (ospf_delete old (ospf_new_seen cur) sts) rid = sts rid"
    if "map_of cur rid \<noteq> None" for old sts rid
    using that
  proof (induction old arbitrary: sts)
    case (Cons kl old)
    then show ?case by (cases kl) (auto simp: ospf_delete_Cons Let_def simp del: ospf_delete.simps)
  qed simp
  have st: "o_st ?s rid = Some (adjState (on_state n))" if "(rid, n) \<in> set cur" for rid n
    using assms that by (simp add: ospf_apply_eq ospf_update_st del)
  have "ospf_transition (o_st ?s) rid n = []" if "(rid, n) \<in> set cur" for rid n
    using st [OF that] by (simp add: ospf_transition_def)
  moreover have "filter (\<lambda>(rid, iface). map_of cur rid = None) (o_seen ?s) = []"
    using assms by (auto simp: o_seen_apply ospf_new_seen_def filter_empty_conv map_of_eq_None_iff) (metis fst_conv image_eqI)
  ultimately have "filter is_emit (snd (ospf_apply cur ?s)) = []"
    by (auto simp: emits concat_eq_Nil_conv)
  with emits show ?thesis by blast
qed

theorem ospf_events_are_changes_witness:
  "filter is_emit (snd (ospf_apply [(''1.1.1.1'', sample_nbr ''eth0'' ''Down'')]
      \<lparr>o_seen = [(''1.1.1.1'', ''eth0''), (''2.2.2.2'', ''eth1'')], o_st = [''1.1.1.1'' \<mapsto> ''FULL'', ''2.2.2.2'' \<mapsto> ''FULL'']\<rparr>)) =
    [Emit ''ospf'' ''adj-down'' ''1.1.1.1'' ''if=eth0 FULL->DOWN'' True,
     Emit ''ospf'' ''adj-down'' ''2.2.2.2'' ''if=eth1 neighbor gone'' True]"
  by (subst ospf_events_are_changes [THEN conjunct1])
     (simp_all add: sample_nbr_def ospf_transition_def adjState_def split_n2_def lc_def char_of_def of_char_def bit_0)


section \<open>The trigger\<close>

definition trig_inv :: "trig \<Rightarrow> bool" where
  "trig_inv t \<longleftrightarrow>
     tr_pending t \<le> 1 \<and>
     (tr_fresh t \<or> tr_missed t \<or> tr_worker t = Settling \<or> 0 < tr_pending t \<or> (\<exists>m \<in> set (tr_sock t). syslog_matches m))"

lemma trig_inv_own: "own_step t t' \<Longrightarrow> trig_inv t \<Longrightarrow> trig_inv t'"
  by (induction rule: own_step.induct) (auto simp: trig_inv_def runSyslog_def signal_def split: if_splits)

lemma trig_inv_step: "trig_step t t' \<Longrightarrow> trig_inv t \<Longrightarrow> trig_inv t'"
proof (induction rule: trig_step.induct)
  case (own t t')
  then show ?case by (rule trig_inv_own)
qed (auto simp: trig_inv_def signal_def)

lemma trig_reach_inv: "trig_reach t \<Longrightarrow> trig_inv t"
proof (induction rule: trig_reach.induct)
  case (init ok)
  show ?case by (simp add: trig_inv_def)
next
  case (step t t')
  then show ?case using trig_inv_step by blast
qed

lemma trig_inv_run: "rtranclp own_step t t' \<Longrightarrow> trig_inv t \<Longrightarrow> trig_inv t'"
  by (induction rule: rtranclp_induct) (auto intro: trig_inv_own)

text \<open>Every step of the ingester brings it closer to rest.\<close>

definition trig_rank :: "trig \<Rightarrow> nat" where
  "trig_rank t =
     4 * length (tr_sock t) + 3 * tr_pending t + (case tr_worker t of Waiting \<Rightarrow> 0 | Settling \<Rightarrow> 2 | Writing \<Rightarrow> 1)"

lemma own_step_rank: "own_step t t' \<Longrightarrow> trig_rank t' < trig_rank t"
  by (induction rule: own_step.induct) (auto simp: trig_rank_def runSyslog_def signal_def)

lemma own_steps_bound: "(own_step ^^ n) t t' \<Longrightarrow> n + trig_rank t' \<le> trig_rank t"
proof (induction n arbitrary: t')
  case (Suc n)
  then obtain t1 where "(own_step ^^ n) t t1" "own_step t1 t'" by auto
  with Suc.IH own_step_rank [of t1 t'] show ?case by fastforce
qed simp

definition at_rest :: "trig \<Rightarrow> bool" where
  "at_rest t \<longleftrightarrow> tr_sock t = [] \<and> tr_pending t = 0 \<and> tr_worker t = Waiting"

lemma at_rest_iff: "at_rest t \<longleftrightarrow> \<not> (\<exists>t'. own_step t t')"
proof
  assume none: "\<not> (\<exists>t'. own_step t t')"
  have "tr_sock t = []" using none own_step.receive by (cases "tr_sock t") blast+
  moreover have "tr_worker t = Waiting" using none own_step.reads own_step.writes by (cases "tr_worker t") blast+
  ultimately show "at_rest t" using none own_step.take by (auto simp: at_rest_def)
qed (auto simp: at_rest_def own_step_simps)

text \<open>
  C25: a change of a neighbour is followed by a listing, unless its message is lost or the listing fails
  or does not decode.
  In every reachable state at most one trigger is pending, and if the last listing read lacks a change,
  then a message waits in the socket, or a trigger is pending, or the worker is about to read, or the
  change was missed that way. And the ingester does get there: left alone, its goroutines make a bounded
  number of steps, in whatever order, and come to rest, and then the last listing has every change that
  was not missed.
\<close>

theorem ospf_trigger_not_lost:
  assumes "trig_reach t"
  shows "tr_pending t \<le> 1 \<and>
    (tr_fresh t \<or> tr_missed t \<or> tr_worker t = Settling \<or> 0 < tr_pending t \<or> (\<exists>m \<in> set (tr_sock t). syslog_matches m)) \<and>
    (\<forall>n t'. (own_step ^^ n) t t' \<longrightarrow> n \<le> trig_rank t) \<and>
    (\<forall>t'. rtranclp own_step t t' \<and> \<not> (\<exists>t''. own_step t' t'') \<longrightarrow> at_rest t' \<and> (tr_fresh t' \<or> tr_missed t'))"
proof -
  have inv: "trig_inv t" by (rule trig_reach_inv [OF assms])
  have "at_rest t' \<and> (tr_fresh t' \<or> tr_missed t')" if "rtranclp own_step t t'" "\<not> (\<exists>t''. own_step t' t'')" for t'
  proof -
    from that(2) have "at_rest t'" by (simp add: at_rest_iff)
    with trig_inv_run [OF that(1) inv] show ?thesis by (auto simp: trig_inv_def at_rest_def)
  qed
  with inv own_steps_bound show ?thesis unfolding trig_inv_def by fastforce
qed

text \<open>A change is logged; the trigger is taken, and the listing read.\<close>

theorem ospf_trigger_not_lost_witness:
  "\<exists>t t'. trig_reach t \<and> \<not> tr_fresh t \<and> \<not> tr_missed t \<and> rtranclp own_step t t' \<and> at_rest t' \<and> tr_fresh t'"
proof -
  let ?init = "\<lparr>tr_sock = [], tr_pending = 0, tr_worker = Waiting, tr_fresh = True, tr_missed = (\<not> True)\<rparr>"
  let ?t = "?init\<lparr>tr_fresh := False, tr_sock := tr_sock ?init @ [''OSPF: nbr down'']\<rparr>"
  have msg: "syslog_matches ''OSPF: nbr down''"
    by (simp add: syslog_matches_def str_contains_def to_lower_def lower_char_def char_of_def of_char_def bit_0)
  then have "trig_step ?init ?t" by (rule trig_step.change)
  then have reach: "trig_reach ?t" by (rule trig_reach.step [OF trig_reach.init [of True]])
  let ?t1 = "runSyslog ''OSPF: nbr down'' (?t\<lparr>tr_sock := []\<rparr>)"
  let ?t2 = "?t1\<lparr>tr_worker := Settling, tr_pending := tr_pending ?t1 - 1\<rparr>"
  let ?t3 = "?t2\<lparr>tr_worker := Writing, tr_fresh := True, tr_missed := False\<rparr>"
  let ?t4 = "?t3\<lparr>tr_worker := Waiting\<rparr>"
  have "own_step ?t ?t1" "own_step ?t1 ?t2" "own_step ?t2 ?t3" "own_step ?t3 ?t4"
    by (rule own_step.receive own_step.take own_step.reads own_step.writes; simp add: runSyslog_def msg signal_def)+
  then have run: "rtranclp own_step ?t ?t4" by (meson converse_rtranclp_into_rtranclp rtranclp.rtrancl_refl)
  have "tr_sock ?t4 = []" "tr_pending ?t4 = 0" "tr_worker ?t4 = Waiting" "\<not> tr_missed ?t4"
    by (simp_all add: runSyslog_def msg signal_def)
  then have "at_rest ?t4" unfolding at_rest_def by blast
  then have "\<not> (\<exists>t''. own_step ?t4 t'')" unfolding at_rest_iff .
  with ospf_trigger_not_lost [OF reach] run \<open>\<not> tr_missed ?t4\<close> have "at_rest ?t4 \<and> tr_fresh ?t4" by blast
  with reach run show ?thesis by (intro exI [of _ ?t] exI [of _ ?t4]) simp
qed

text \<open>The fallback recovers what was missed: after a tick, when no listing fails and no neighbour changes
  any more, the ingester comes to rest with all changes.\<close>

inductive ok_step :: "trig \<Rightarrow> trig \<Rightarrow> bool" where
  "own_step t t' \<Longrightarrow> tr_worker t = Settling \<longrightarrow> tr_worker t' = Settling \<or> tr_fresh t' \<and> tr_worker t' = Writing \<Longrightarrow>
    ok_step t t'"

theorem ospf_fallback_recovers:
  assumes "rtranclp ok_step (t\<lparr>tr_pending := signal (tr_pending t)\<rparr>) t'" and "at_rest t'"
  shows "tr_fresh t'"
proof -
  have "0 < tr_pending t' \<or> tr_worker t' = Settling \<or> tr_fresh t'"
    using assms(1)
  proof (induction rule: rtranclp_induct)
    case base
    show ?case by (simp add: signal_def)
  next
    case (step t1 t2)
    from step(2) have "own_step t1 t2" "tr_worker t1 = Settling \<longrightarrow> tr_worker t2 = Settling \<or> tr_fresh t2 \<and> tr_worker t2 = Writing"
      by (auto elim: ok_step.cases)
    from this(1) show ?case
      by cases (use step.IH \<open>tr_worker t1 = Settling \<longrightarrow> _\<close> in \<open>auto simp: runSyslog_def signal_def\<close>)
  qed
  with assms(2) show ?thesis by (auto simp: at_rest_def)
qed


section \<open>FRR's listing\<close>

text \<open>An adjacency as \<^verbatim>\<open>show ip ospf neighbor json\<close> prints it: older releases omit \<^verbatim>\<open>converged\<close>, and
  there are members the ingester does not read, of any type.\<close>

record frr_adj =
  fa_extra :: "(string \<times> json) list"
  fa_state :: string
  fa_converged :: "string option"
  fa_iface :: string
  fa_local :: string
  fa_addr :: string

definition frr_json :: "frr_adj \<Rightarrow> json" where
  "frr_json a = JObj (fa_extra a @
     [(''nbrState'', JStr (fa_state a))] @
     (case fa_converged a of None \<Rightarrow> [] | Some c \<Rightarrow> [(''converged'', JStr c)]) @
     [(''ifaceName'', JStr (fa_iface a @ '':'' @ fa_local a)), (''ifaceAddress'', JStr (fa_addr a))])"

definition frr_wf :: "frr_adj \<Rightarrow> bool" where
  "frr_wf a \<longleftrightarrow> CHR '':'' \<notin> set (fa_iface a) \<and>
     list_all (\<lambda>(k, v). \<forall>f \<in> {''nbrState'', ''converged'', ''ifaceName'', ''ifaceAddress''}. \<not> key_is f k) (fa_extra a)"

definition frr_listing :: "(string \<times> frr_adj list) list \<Rightarrow> json" where
  "frr_listing rs = JObj [(''neighbors'', JObj (map (\<lambda>(rid, as). (rid, JArr (map frr_json as))) rs))]"

definition frr_nbr :: "string \<Rightarrow> frr_adj \<Rightarrow> ospf_nbr" where
  "frr_nbr rid a =
     \<lparr>on_rid = rid, on_iface = fa_iface a, on_addr = fa_addr a,
      on_state = (case fa_converged a of Some c \<Rightarrow> if c = [] then fa_state a else c | None \<Rightarrow> fa_state a)\<rparr>"

lemma dec_members_append:
  "dec_members f (xs @ ys) s = do { s' \<leftarrow> dec_members f xs s; dec_members f ys s' }"
proof (induction xs arbitrary: s)
  case (Cons kv xs)
  obtain k v where "kv = (k, v)" by (cases kv)
  with Cons show ?case by (cases "f k v s") simp_all
qed simp

lemma dec_members_skip:
  "(\<And>k v s. (k, v) \<in> set xs \<Longrightarrow> f k v s = Some s) \<Longrightarrow> dec_members f xs s = Some s"
  by (induction xs) force+

lemma key_is_fields:
  "key_is ''nbrState'' ''nbrState''" "key_is ''converged'' ''converged''"
  "key_is ''ifaceName'' ''ifaceName''" "key_is ''ifaceAddress'' ''ifaceAddress''"
  "\<not> key_is ''nbrState'' ''converged''" "\<not> key_is ''nbrState'' ''ifaceName''" "\<not> key_is ''nbrState'' ''ifaceAddress''"
  "\<not> key_is ''converged'' ''ifaceName''" "\<not> key_is ''converged'' ''ifaceAddress''"
  "\<not> key_is ''ifaceName'' ''ifaceAddress''" "key_is ''neighbors'' ''neighbors''"
  by (simp_all add: key_is_def to_lower_def lower_char_def char_of_def of_char_def bit_0)

lemma dec_nbr_frr:
  assumes "frr_wf a"
  shows "dec_nbr (frr_json a) = Some \<lparr>nj_state = fa_state a,
     nj_converged = (case fa_converged a of None \<Rightarrow> [] | Some c \<Rightarrow> c),
     nj_iface = fa_iface a @ '':'' @ fa_local a, nj_addr = fa_addr a\<rparr>"
proof -
  let ?f = "\<lambda>k v n.
      if key_is ''nbrState'' k then do { s \<leftarrow> dec_str v (nj_state n); Some (n\<lparr>nj_state := s\<rparr>) }
      else if key_is ''converged'' k then do { s \<leftarrow> dec_str v (nj_converged n); Some (n\<lparr>nj_converged := s\<rparr>) }
      else if key_is ''ifaceName'' k then do { s \<leftarrow> dec_str v (nj_iface n); Some (n\<lparr>nj_iface := s\<rparr>) }
      else if key_is ''ifaceAddress'' k then do { s \<leftarrow> dec_str v (nj_addr n); Some (n\<lparr>nj_addr := s\<rparr>) }
      else Some n"
  have skip: "dec_members ?f (fa_extra a) s = Some s" for s :: nbr_json
    by (rule dec_members_skip) (use assms in \<open>auto simp: frr_wf_def list_all_iff\<close>)
  show ?thesis
    by (cases "fa_converged a")
       (simp_all add: dec_nbr_def frr_json_def Let_def dec_members_append skip key_is_fields)
qed

lemma ospf_nbr_of_frr:
  assumes "frr_wf a"
  shows "ospf_nbr_of rid \<lparr>nj_state = fa_state a,
     nj_converged = (case fa_converged a of None \<Rightarrow> [] | Some c \<Rightarrow> c),
     nj_iface = fa_iface a @ '':'' @ fa_local a, nj_addr = fa_addr a\<rparr> = frr_nbr rid a"
proof -
  have "index_byte (fa_iface a @ '':'' @ fa_local a) CHR '':'' = Some (length (fa_iface a))"
    using assms index_byte_append [of "CHR '':''" "fa_iface a" "fa_local a"] by (simp add: frr_wf_def)
  then show ?thesis
    by (auto simp: ospf_nbr_of_def frr_nbr_def Let_def split: option.splits)
qed

definition frr_dec :: "frr_adj \<Rightarrow> nbr_json" where
  "frr_dec a = \<lparr>nj_state = fa_state a,
     nj_converged = (case fa_converged a of None \<Rightarrow> [] | Some c \<Rightarrow> c),
     nj_iface = fa_iface a @ '':'' @ fa_local a, nj_addr = fa_addr a\<rparr>"

lemma dec_nbrs_frr: "list_all frr_wf as \<Longrightarrow> dec_nbrs (JArr (map frr_json as)) = Some (map frr_dec as)"
proof -
  assume wf: "list_all frr_wf as"
  have "those (map dec_nbr (map frr_json as)) = Some (map frr_dec as)"
    using wf by (induction as) (simp_all add: dec_nbr_frr frr_dec_def)
  then show ?thesis by (simp add: dec_nbrs_def)
qed

lemma put_new: "k \<notin> fst ` set m \<Longrightarrow> map_put k v m = m @ [(k, v)]"
  by (induction m) auto

lemma dec_neighbors_frr:
  "list_all (\<lambda>(rid, as). list_all frr_wf as) rs \<Longrightarrow> distinct (map fst m @ map fst rs) \<Longrightarrow>
    dec_members (\<lambda>k v m. do { ns \<leftarrow> dec_nbrs v; Some (map_put k ns m) })
      (map (\<lambda>(rid, as). (rid, JArr (map frr_json as))) rs) m =
    Some (m @ map (\<lambda>(rid, as). (rid, map frr_dec as)) rs)"
proof (induction rs arbitrary: m)
  case (Cons r rs)
  obtain rid as where "r = (rid, as)" by (cases r)
  with Cons show ?case by (simp add: dec_nbrs_frr put_new)
qed simp

text \<open>
  C26: FRR's neighbour listing is read as meant. From a listing with a non-empty list of adjacencies for
  each router id, with whatever other members FRR prints, with or without the member \<^verbatim>\<open>converged\<close>, the
  ingester gets for every router id the interface without its address suffix, the neighbour's
  address and the state of its first adjacency; a second adjacency with the same router id (parallel
  links) is not represented.
\<close>

theorem ospf_parse_frr:
  assumes "distinct (map fst rs)" "list_all (\<lambda>(rid, as). as \<noteq> [] \<and> list_all frr_wf as) rs"
  shows "parseOSPFNbrs (Some (frr_listing rs)) = map (\<lambda>(rid, as). (rid, frr_nbr rid (hd as))) rs"
proof -
  have wf: "list_all (\<lambda>(rid, as). list_all frr_wf as) rs" using assms(2) by (auto simp: list_all_iff)
  have root: "dec_root (frr_listing rs) = Some (map (\<lambda>(rid, as). (rid, map frr_dec as)) rs)"
    using dec_neighbors_frr [OF wf, of "[]"] assms(1)
    by (simp add: dec_root_def frr_listing_def dec_neighbors_def key_is_fields)
  have "foldl (\<lambda>res (rid, arr). case arr of [] \<Rightarrow> res | n # _ \<Rightarrow> map_put rid (ospf_nbr_of rid n) res) m
      (map (\<lambda>(rid, as). (rid, map frr_dec as)) rs) = m @ map (\<lambda>(rid, as). (rid, frr_nbr rid (hd as))) rs"
    if "distinct (map fst m @ map fst rs)" for m
    using assms(2) that
  proof (induction rs arbitrary: m)
    case (Cons r rs)
    obtain rid a as where r: "r = (rid, a # as)" using Cons.prems(1) by (cases r) (auto simp: neq_Nil_conv)
    then have "ospf_nbr_of rid (frr_dec a) = frr_nbr rid a"
      using Cons.prems(1) ospf_nbr_of_frr [of a rid] by (simp add: frr_dec_def)
    with Cons r show ?case by (simp add: put_new)
  qed simp
  from this [of "[]"] root assms(1) show ?thesis by (simp add: parseOSPFNbrs_def)
qed

theorem ospf_parse_frr_witness:
  "parseOSPFNbrs (Some (frr_listing
     [(''1.1.1.1'', [\<lparr>fa_extra = [(''nbrPriority'', JNum ''1'')], fa_state = ''Full/DR'', fa_converged = None,
        fa_iface = ''eth0'', fa_local = ''10.0.0.1'', fa_addr = ''10.0.0.2''\<rparr>])])) =
    [(''1.1.1.1'', \<lparr>on_rid = ''1.1.1.1'', on_iface = ''eth0'', on_addr = ''10.0.0.2'', on_state = ''Full/DR''\<rparr>)]"
  by (subst ospf_parse_frr)
     (simp_all add: frr_wf_def frr_nbr_def key_is_def to_lower_def lower_char_def char_of_def of_char_def bit_0)

end
