(* ===== verification/Lldp.thy ===== *)
theory Lldp
  imports Json Gnmi
begin

text \<open>
  The LLDP ingester of \<^verbatim>\<open>internal/ingest/lldp.go\<close>: the defensive reading of lldpd's JSON, and the
  reconciliation, in the three parts that two goroutines can interleave.
\<close>

section \<open>Reading the listing\<close>

record lldp_nbr =
  ln_ifname :: string
  ln_chassis :: string
  ln_port :: string
  ln_sysname :: string
  ln_sysdescr :: string
  ln_mgmt :: string

definition asMap :: "json \<Rightarrow> (string \<times> json) list option" where
  "asMap v = (case v of JObj m \<Rightarrow> Some m | _ \<Rightarrow> None)"

definition firstObj :: "json \<Rightarrow> (string \<times> json) list option" where
  "firstObj v = (case v of JObj m \<Rightarrow> Some m | JArr (x # xs) \<Rightarrow> asMap x | _ \<Rightarrow> None)"

fun asStr :: "json \<Rightarrow> string" where
  "asStr (JStr s) = s"
| "asStr (JArr (x # xs)) = asStr x"
| "asStr _ = []"

text \<open>Reading a member of a map that may be nil.\<close>

definition mget :: "(string \<times> json) list option \<Rightarrow> string \<Rightarrow> json" where
  "mget m k = (case m of None \<Rightarrow> JNull | Some kvs \<Rightarrow> jget kvs k)"

definition fillChassis :: "lldp_nbr \<Rightarrow> (string \<times> json) list option \<Rightarrow> lldp_nbr" where
  "fillChassis nb ch =
     (let nb = (case asMap (mget ch ''id'') of None \<Rightarrow> nb
                | Some i \<Rightarrow> nb\<lparr>ln_chassis := asStr (jget i ''value'')\<rparr>)
      in nb\<lparr>ln_sysdescr := asStr (mget ch ''descr''), ln_mgmt := asStr (mget ch ''mgmt-ip'')\<rparr>)"

definition parseIface :: "string \<Rightarrow> (string \<times> json) list option \<Rightarrow> lldp_nbr" where
  "parseIface ifname ifm =
     (let nb = \<lparr>ln_ifname = ifname, ln_chassis = [], ln_port = [], ln_sysname = [], ln_sysdescr = [], ln_mgmt = []\<rparr>;
          nb = (case asMap (mget ifm ''chassis'') of None \<Rightarrow> nb
                | Some ch \<Rightarrow>
                    if map_of ch ''id'' \<noteq> None then
                      fillChassis (nb\<lparr>ln_sysname := asStr (jget ch ''name'')\<rparr>) (Some ch)
                    else
                      (case ch of [] \<Rightarrow> nb
                       | (name, cv) # _ \<Rightarrow> fillChassis (nb\<lparr>ln_sysname := name\<rparr>) (asMap cv)));
          nb = (case asMap (mget ifm ''port'') of None \<Rightarrow> nb
                | Some port \<Rightarrow>
                    (let nb = (case asMap (jget port ''id'') of None \<Rightarrow> nb
                               | Some i \<Rightarrow> nb\<lparr>ln_port := asStr (jget i ''value'')\<rparr>)
                     in if ln_port nb = [] then nb\<lparr>ln_port := asStr (jget port ''descr'')\<rparr> else nb))
      in if ln_chassis nb = [] then nb\<lparr>ln_chassis := ln_sysname nb\<rparr> else nb)"

definition put_ifaces :: "(string \<times> json) list \<Rightarrow> (string, lldp_nbr) gomap \<Rightarrow> (string, lldp_nbr) gomap" where
  "put_ifaces m res = foldl (\<lambda>res (name, v). map_put name (parseIface name (asMap v)) res) res m"

definition parseLLDP :: "json option \<Rightarrow> (string, lldp_nbr) gomap" where
  "parseLLDP data =
     (let root = (case data of None \<Rightarrow> None | Some JNull \<Rightarrow> Some [] | Some j \<Rightarrow> asMap j)
      in case root of None \<Rightarrow> []
         | Some r \<Rightarrow>
             (case firstObj (jget r ''lldp'') of None \<Rightarrow> []
              | Some lldp \<Rightarrow>
                  (case jget lldp ''interface'' of
                     JObj ifaces \<Rightarrow> put_ifaces ifaces []
                   | JArr arr \<Rightarrow>
                       foldl (\<lambda>res e.
                         (let m = asMap e; name = asStr (mget m ''name'')
                          in if name \<noteq> [] then map_put name (parseIface name m) res
                             else (case m of None \<Rightarrow> res | Some kvs \<Rightarrow> put_ifaces kvs res))) [] arr
                   | _ \<Rightarrow> [])))"

definition lldpElems :: "string \<Rightarrow> string \<Rightarrow> string \<Rightarrow> elems" where
  "lldpElems ifname nid leaf =
     [el ''lldp'',
      el ''interfaces'',
      elk ''interface'' [(''name'', ifname)],
      el ''neighbors'',
      elk ''neighbor'' [(''id'', nid)]] @ state_leaf leaf"


section \<open>Reconciliation\<close>

text \<open>The state is the map \<^verbatim>\<open>seen\<close> from interface to chassis id.\<close>

type_synonym lldp_seen = "(string, string) gomap"

definition NewLLDP :: lldp_seen where
  "NewLLDP = []"

definition lldp_rows :: "string \<Rightarrow> lldp_nbr \<Rightarrow> gupdate list" where
  "lldp_rows ifn nb =
     [leafUpdate (lldpElems ifn (ln_chassis nb) ''chassis-id'') (ln_chassis nb),
      leafUpdate (lldpElems ifn (ln_chassis nb) ''port-id'') (ln_port nb),
      leafUpdate (lldpElems ifn (ln_chassis nb) ''system-name'') (ln_sysname nb),
      leafUpdate (lldpElems ifn (ln_chassis nb) ''system-description'') (ln_sysdescr nb),
      leafUpdate (lldpElems ifn (ln_chassis nb) ''management-address'') (ln_mgmt nb)]"

text \<open>The loop over the current neighbours: its updates and the new map.\<close>

fun lldp_update :: "(string \<times> lldp_nbr) list \<Rightarrow> lldp_seen \<Rightarrow> lldp_seen \<times> eff list" where
  "lldp_update [] seen = (seen, [])"
| "lldp_update ((ifn, nb) # cur) seen =
     (if ln_chassis nb = [] then lldp_update cur seen
      else
        (let (seen', es) = lldp_update cur (map_put ifn (ln_chassis nb) seen)
         in (seen', CacheUpdate ''openconfig'' (lldp_rows ifn nb) [] # es)))"

text \<open>The loop over the map of the last time.\<close>

definition lldp_delete :: "lldp_seen \<Rightarrow> lldp_seen \<Rightarrow> eff list" where
  "lldp_delete old seen =
     concat (map (\<lambda>(ifn, nid). if map_of seen ifn = None
                               then [CacheUpdate ''openconfig'' [] [lldpElems ifn nid []]] else []) old)"

definition lldp_apply :: "(string, lldp_nbr) gomap \<Rightarrow> lldp_seen \<Rightarrow> lldp_seen \<times> eff list" where
  "lldp_apply cur old =
     (let (seen, es) = lldp_update cur [] in (seen, es @ lldp_delete old seen))"

definition lldp_reconcile :: "json option option \<Rightarrow> lldp_seen \<Rightarrow> lldp_seen \<times> eff list" where
  "lldp_reconcile out old =
     (case out of None \<Rightarrow> (old, []) | Some data \<Rightarrow> lldp_apply (parseLLDP data) old)"

text \<open>The line filter of \<^verbatim>\<open>lldpcli watch\<close>.\<close>

definition watch_matches :: "string \<Rightarrow> bool" where
  "watch_matches line = str_contains line ''neighbor''"


section \<open>Two goroutines\<close>

text \<open>
  The watcher and the ticker both reconcile, without a lock. A reconciliation is three steps: the
  listing is read and the current neighbours are written; the map is read and the stale ones are
  deleted; the map is replaced. The program counter of each goroutine is \<open>lh_pc\<close>.
\<close>

datatype lldp_pc = Idle | Written lldp_seen | Deleted lldp_seen

record lldp_shared =
  lh_seen :: lldp_seen
  lh_store :: store
  lh_pc :: "bool \<Rightarrow> lldp_pc"

definition set_pc :: "bool \<Rightarrow> lldp_pc \<Rightarrow> lldp_shared \<Rightarrow> lldp_shared" where
  "set_pc g p s = s\<lparr>lh_pc := (lh_pc s)(g := p)\<rparr>"

inductive lldp_step :: "lldp_shared \<Rightarrow> lldp_shared \<Rightarrow> bool" where
  writes: "lh_pc s g = Idle \<Longrightarrow> lldp_update cur [] = (seen, es) \<Longrightarrow>
    lldp_step s (set_pc g (Written seen) (s\<lparr>lh_store := apply_effs (lh_store s) es\<rparr>))"
| deletes: "lh_pc s g = Written seen \<Longrightarrow>
    lldp_step s (set_pc g (Deleted seen)
      (s\<lparr>lh_store := apply_effs (lh_store s) (lldp_delete (lh_seen s) seen)\<rparr>))"
| replaces: "lh_pc s g = Deleted seen \<Longrightarrow> lldp_step s (set_pc g Idle (s\<lparr>lh_seen := seen\<rparr>))"

end
