(* ===== verification/Lldp_Props.thy ===== *)
theory Lldp_Props
  imports Lldp Reconcile
begin

text \<open>
  What the LLDP ingester does: the reading of lldpd's JSON in both of its forms, the reconciliation
  as an instance of the contract in \<open>Reconcile\<close>, the neighbour that stays behind when another device
  is plugged into its port, and the interleaving of two reconciliations that loses a neighbour.
\<close>

section \<open>The reconciliation as an instance of the contract\<close>

lemma lldpElems_eq [simp]: "lldpElems i n a = lldpElems i' n' a' \<longleftrightarrow> i = i' \<and> n = n' \<and> a = a'"
  by (auto simp: lldpElems_def)

lemma lldpElems_prefix [simp]: "prefix (lldpElems i n []) (lldpElems i' n' a) \<longleftrightarrow> i = i' \<and> n = n'"
  by (auto simp: lldpElems_def)

lemma lldpElems_disjoint:
  assumes "prefix (lldpElems i n []) p" "prefix (lldpElems i' n' []) p"
  shows "i = i' \<and> n = n'"
proof -
  have "prefix (lldpElems i n []) (lldpElems i' n' []) \<or> prefix (lldpElems i' n' []) (lldpElems i n [])"
    by (rule prefix_same_cases [OF assms])
  then show ?thesis by auto
qed

definition lldp_valid :: "lldp_nbr \<Rightarrow> bool" where
  "lldp_valid nb \<longleftrightarrow> ln_chassis nb \<noteq> []"

definition lldp_new_seen :: "(string, lldp_nbr) gomap \<Rightarrow> lldp_seen" where
  "lldp_new_seen cur = map (\<lambda>(ifn, nb). (ifn, ln_chassis nb)) (filter (\<lambda>(ifn, nb). lldp_valid nb) cur)"

lemma lldp_put_new: "k \<notin> fst ` set m \<Longrightarrow> map_put k v m = m @ [(k, v)]"
  by (induction m) auto

lemma lldp_update_eq:
  "distinct (map fst seen @ map fst cur) \<Longrightarrow>
    lldp_update cur seen = (seen @ lldp_new_seen cur,
      recon_writes ''openconfig'' lldp_rows (filter (\<lambda>(ifn, nb). lldp_valid nb) cur))"
proof (induction cur arbitrary: seen)
  case (Cons c cur)
  obtain ifn nb where "c = (ifn, nb)" by (cases c)
  with Cons show ?case
    by (auto simp: lldp_put_new lldp_new_seen_def lldp_valid_def recon_writes_def)
qed (simp add: lldp_new_seen_def recon_writes_def)

lemma lldp_apply_eq:
  assumes "gomap_ok cur"
  shows "lldp_apply cur old = (lldp_new_seen cur,
    recon_writes ''openconfig'' lldp_rows (filter (\<lambda>(ifn, nb). lldp_valid nb) cur) @
    lldp_delete old (lldp_new_seen cur))"
  using lldp_update_eq [of "[]" cur] assms by (simp add: lldp_apply_def)

lemma lldp_delete_eq:
  "lldp_delete old seen =
    map (\<lambda>(k, l). CacheUpdate ''openconfig'' [] [lldpElems k l []]) (filter (\<lambda>(k, l). map_of seen k = None) old)"
  by (induction old) (auto simp: lldp_delete_def)

lemma filter_valid: "\<forall>v \<in> snd ` set cur. lldp_valid v \<Longrightarrow> filter (\<lambda>(ifn, nb). lldp_valid nb) cur = cur"
  by (induction cur) auto

interpretation ld: reconciler "''openconfig''" "\<lambda>ifn nid. lldpElems ifn nid []" ln_chassis lldp_rows
  lldp_valid lldp_apply "\<lambda>s. s"
proof unfold_locales
  fix cur :: "(string \<times> lldp_nbr) list" and st and s :: lldp_seen
  assume ok: "gomap_ok cur" and valid: "\<forall>v \<in> snd ` set cur. lldp_valid v"
  have seen: "lldp_new_seen cur = map (\<lambda>(k, v). (k, ln_chassis v)) cur"
    by (simp add: lldp_new_seen_def filter_valid [OF valid])
  have "map_of (lldp_new_seen cur) k = None \<longleftrightarrow> k \<notin> fst ` set cur" for k
    unfolding seen by (force simp: map_of_eq_None_iff)
  then show "apply_effs st (snd (lldp_apply cur s)) =
      apply_effs st (recon_writes ''openconfig'' lldp_rows cur @
        recon_dels ''openconfig'' (\<lambda>ifn nid. lldpElems ifn nid []) s cur)"
    by (simp add: lldp_apply_eq [OF ok] filter_valid [OF valid] lldp_delete_eq recon_dels_def)
  show "fst (lldp_apply cur s) = map (\<lambda>(k, v). (k, ln_chassis v)) cur"
    by (simp add: lldp_apply_eq [OF ok] seen)
qed (use lldpElems_disjoint in \<open>auto simp: lldp_rows_def leafUpdate_def\<close>)

text \<open>Neighbours without a chassis id or a system name are ignored altogether.\<close>

lemma lldp_apply_filter:
  assumes "gomap_ok cur"
  shows "lldp_apply cur s = lldp_apply (filter (\<lambda>(ifn, nb). lldp_valid nb) cur) s"
proof -
  have "gomap_ok (filter (\<lambda>(ifn, nb). lldp_valid nb) cur)"
    using assms by (rule distinct_map_filter)
  with assms show ?thesis by (simp add: lldp_apply_eq lldp_new_seen_def)
qed


section \<open>The neighbours in the cache\<close>

definition lldp_view :: "store \<Rightarrow> string \<Rightarrow> string \<Rightarrow> tval option list" where
  "lldp_view st ifn nid =
     map (\<lambda>leaf. store_look st ''openconfig'' (lldpElems ifn nid leaf))
       [''chassis-id'', ''port-id'', ''system-name'', ''system-description'', ''management-address'']"

definition lldp_want :: "(string, lldp_nbr) gomap \<Rightarrow> string \<Rightarrow> string \<Rightarrow> tval option list" where
  "lldp_want cur ifn nid =
     (case map_of cur ifn of
        Some nb \<Rightarrow>
          if ln_chassis nb = nid
          then map (\<lambda>s. Some (StringVal s)) [nid, ln_port nb, ln_sysname nb, ln_sysdescr nb, ln_mgmt nb]
          else replicate 5 None
      | None \<Rightarrow> replicate 5 None)"

abbreviation lldp_runs :: "(string, lldp_nbr) gomap list \<Rightarrow> lldp_seen \<Rightarrow> lldp_seen \<times> eff list" where
  "lldp_runs \<equiv> recon_runs lldp_apply"

lemma lldp_view_mirrors: "ld.mirrors st cur \<Longrightarrow> lldp_view st ifn nid = lldp_want cur ifn nid"
  by (auto simp: ld.mirrors_def lldp_view_def lldp_want_def lldp_rows_def leafUpdate_def strVal_def
      eval_nat_numeral split: option.splits)

text \<open>
  C27: the cache shows the LLDP neighbours of the last listing. After any non-empty sequence of
  listings in which every interface keeps the device behind it, the rows of the LLDP neighbours in
  the cache are exactly those of the last listing, with their port, name, description and address,
  and there is nothing for any other interface and chassis.
\<close>

theorem lldp_cache_is_last_listing:
  assumes "curs \<noteq> []"
    and "\<And>cur. cur \<in> set curs \<Longrightarrow> gomap_ok cur \<and> (\<forall>nb \<in> snd ` set cur. ln_chassis nb \<noteq> [])"
    and "\<And>cur ifn nb. cur \<in> set curs \<Longrightarrow> map_of cur ifn = Some nb \<Longrightarrow> ln_chassis nb = home ifn"
  shows "lldp_view (apply_effs (\<lambda>_. None) (snd (lldp_runs curs NewLLDP))) = lldp_want (last curs)"
proof -
  have "ld.mirrors (apply_effs (\<lambda>_. None) (snd (lldp_runs curs NewLLDP))) (last curs)"
    by (rule ld.runs_mirror [where home = home])
       (use assms in \<open>simp_all add: NewLLDP_def ld.mirrors_def store_look_def lldp_valid_def\<close>)
  then show ?thesis using lldp_view_mirrors by (auto simp: fun_eq_iff)
qed

definition sample_lldp :: "string \<Rightarrow> lldp_nbr" where
  "sample_lldp chassis = \<lparr>ln_ifname = ''eth0'', ln_chassis = chassis, ln_port = ''eth1'', ln_sysname = ''r2'',
     ln_sysdescr = ''Debian'', ln_mgmt = ''10.0.0.2''\<rparr>"

theorem lldp_cache_is_last_listing_witness:
  "lldp_view (apply_effs (\<lambda>_. None) (snd (lldp_runs [[(''eth0'', sample_lldp ''aa:bb'')], []] NewLLDP))) ''eth0'' ''aa:bb'' =
    replicate 5 None"
  by (subst lldp_cache_is_last_listing [where home = "\<lambda>_. ''aa:bb''"])
     (auto simp: lldp_want_def sample_lldp_def split: if_splits)

text \<open>
  When another device is plugged into a port, the old one stays. From the listing that shows the
  interface with a different chassis, through any number of listings that do not show the old chassis
  there, the row of the old neighbour keeps its values.
\<close>

theorem lldp_replaced_neighbor_stays:
  assumes "\<And>c. c \<in> set (cur # curs) \<Longrightarrow> gomap_ok c \<and> (\<forall>nb \<in> snd ` set c. ln_chassis nb \<noteq> [])"
    and "gomap_ok s" "map_of cur ifn = Some nb" "ln_chassis nb \<noteq> nid"
    and "\<And>c m. c \<in> set curs \<Longrightarrow> map_of c ifn = Some m \<Longrightarrow> ln_chassis m \<noteq> nid"
  shows "lldp_view (apply_effs st (snd (lldp_runs (cur # curs) s))) ifn nid = lldp_view st ifn nid"
proof -
  let ?s = "fst (lldp_apply cur s)" and ?st = "apply_effs st (snd (lldp_apply cur s))"
  have pre: "prefix (lldpElems ifn nid []) (lldpElems ifn nid a)" for a by simp
  have all: "gomap_ok c \<and> (\<forall>v \<in> snd ` set c. lldp_valid v)" if "c \<in> set (cur # curs)" for c
    using assms(1) [OF that] unfolding lldp_valid_def .
  have ok1: "gomap_ok c \<and> (\<forall>v \<in> snd ` set c. lldp_valid v)" if "c \<in> set curs" for c
    by (rule all) (simp add: that)
  have ok: "gomap_ok cur" "\<forall>v \<in> snd ` set cur. lldp_valid v"
    using all [of cur] by simp_all
  have seen: "gomap_ok ?s" "map_of ?s ifn \<noteq> Some nid"
    using ld.seen_keys [OF ok, of s] assms(3,4) by simp_all
  have "store_look (apply_effs ?st (snd (lldp_runs curs ?s))) ''openconfig'' (lldpElems ifn nid a) =
      store_look ?st ''openconfig'' (lldpElems ifn nid a)" for a
    by (rule ld.runs_moved [OF ok1 seen(1) pre seen(2) assms(5)]) auto
  moreover have "store_look ?st ''openconfig'' (lldpElems ifn nid a) =
      store_look st ''openconfig'' (lldpElems ifn nid a)" for a
    by (rule ld.recon_moved [OF ok assms(2) pre]) (use assms(3,4) in auto)
  ultimately show ?thesis by (simp add: lldp_view_def split_def Let_def)
qed

theorem lldp_replaced_neighbor_stays_witness:
  "lldp_view (apply_effs ((\<lambda>_. None)((''openconfig'', lldpElems ''eth0'' ''aa:bb'' ''system-name'') \<mapsto> StringVal ''r2''))
      (snd (lldp_runs [[(''eth0'', sample_lldp ''cc:dd'')], []] [(''eth0'', ''aa:bb'')]))) ''eth0'' ''aa:bb'' =
    [None, None, Some (StringVal ''r2''), None, None]"
  by (subst lldp_replaced_neighbor_stays [where nb = "sample_lldp ''cc:dd''"])
     (auto simp: sample_lldp_def lldp_view_def store_look_def)


section \<open>Two reconciliations at once\<close>

inductive lldp_reach :: "lldp_shared \<Rightarrow> lldp_shared \<Rightarrow> bool" for s where
  refl: "lldp_reach s s"
| step: "lldp_reach s t \<Longrightarrow> lldp_step t u \<Longrightarrow> lldp_reach s u"

definition idle :: "lldp_shared \<Rightarrow> bool" where
  "idle s \<longleftrightarrow> lh_pc s = (\<lambda>_. Idle)"

lemma lldp_update_one:
  "ln_chassis nb \<noteq> [] \<Longrightarrow> lldp_update [(ifn, nb)] [] =
    ([(ifn, ln_chassis nb)], [CacheUpdate ''openconfig'' (lldp_rows ifn nb) []])"
  by simp

lemma lldp_interleaving:
  assumes "ln_chassis nb \<noteq> []" "idle s" "lh_seen s = []"
  shows "\<exists>t. lldp_reach s t \<and> idle t \<and> lh_seen t = [] \<and>
    lh_store t = apply_effs (lh_store s) [CacheUpdate ''openconfig'' (lldp_rows ifn nb) []]"
proof -
  let ?seen = "[(ifn, ln_chassis nb)]" and ?e = "CacheUpdate ''openconfig'' (lldp_rows ifn nb) []"
  let ?s1 = "set_pc True (Written ?seen) (s\<lparr>lh_store := apply_effs (lh_store s) [?e]\<rparr>)"
  let ?s2 = "set_pc False (Written []) (?s1\<lparr>lh_store := apply_effs (lh_store ?s1) []\<rparr>)"
  let ?s3 = "set_pc False (Deleted []) (?s2\<lparr>lh_store := apply_effs (lh_store ?s2) (lldp_delete (lh_seen ?s2) [])\<rparr>)"
  let ?s4 = "set_pc True (Deleted ?seen) (?s3\<lparr>lh_store := apply_effs (lh_store ?s3) (lldp_delete (lh_seen ?s3) ?seen)\<rparr>)"
  let ?s5 = "set_pc True Idle (?s4\<lparr>lh_seen := ?seen\<rparr>)"
  let ?s6 = "set_pc False Idle (?s5\<lparr>lh_seen := []\<rparr>)"
  have step1: "lldp_step s ?s1"
    by (rule lldp_step.writes [where cur = "[(ifn, nb)]"])
       (use assms in \<open>simp_all add: idle_def lldp_update_one del: lldp_update.simps\<close>)
  have step2: "lldp_step ?s1 ?s2"
    by (rule lldp_step.writes [where cur = "[]"]) (use assms(2) in \<open>simp_all add: idle_def set_pc_def\<close>)
  have step3: "lldp_step ?s2 ?s3" by (rule lldp_step.deletes) (simp add: set_pc_def)
  have step4: "lldp_step ?s3 ?s4" by (rule lldp_step.deletes) (simp add: set_pc_def)
  have step5: "lldp_step ?s4 ?s5" by (rule lldp_step.replaces) (simp add: set_pc_def)
  have step6: "lldp_step ?s5 ?s6" by (rule lldp_step.replaces) (simp add: set_pc_def)
  have "lldp_reach s ?s6"
    by (rule lldp_reach.step [OF lldp_reach.step [OF lldp_reach.step [OF lldp_reach.step [OF lldp_reach.step
          [OF lldp_reach.step [OF lldp_reach.refl step1] step2] step3] step4] step5] step6])
  moreover have "idle ?s6 \<and> lh_seen ?s6 = [] \<and> lh_store ?s6 = apply_effs (lh_store s) [?e]"
    using assms(2,3) by (auto simp: idle_def set_pc_def lldp_delete_def fun_eq_iff)
  ultimately show ?thesis by blast
qed

text \<open>
  C28: two overlapping reconciliations can lose a neighbour for good. The watcher and the ticker share the map
  of what they saw without a lock: if one reads a listing with a new neighbour, the other a listing
  without it, and the first replaces the map before the second does, the neighbour's row is in the
  cache and not in the map. Then no later listing without the neighbour deletes the row, however many
  follow.
\<close>

theorem lldp_race_leaves_ghost:
  assumes "ln_chassis nb \<noteq> []" "idle s" "lh_seen s = []"
  shows "\<exists>t. lldp_reach s t \<and> idle t \<and>
    (\<forall>curs. (\<forall>cur \<in> set curs. gomap_ok cur \<and> map_of cur ifn = None \<and> (\<forall>nb \<in> snd ` set cur. ln_chassis nb \<noteq> [])) \<longrightarrow>
      lldp_view (apply_effs (lh_store t) (snd (lldp_runs curs (lh_seen t)))) ifn (ln_chassis nb) =
        lldp_want [(ifn, nb)] ifn (ln_chassis nb))"
proof -
  obtain t where t: "lldp_reach s t" "idle t" "lh_seen t = []"
      "lh_store t = apply_effs (lh_store s) [CacheUpdate ''openconfig'' (lldp_rows ifn nb) []]"
    using lldp_interleaving [OF assms] by blast
  have view: "lldp_view (lh_store t) ifn (ln_chassis nb) = lldp_want [(ifn, nb)] ifn (ln_chassis nb)"
    by (simp add: t(4) lldp_view_def lldp_want_def lldp_rows_def leafUpdate_def strVal_def look_apply_upd
        del: apply_eff.simps(1))
  have "lldp_view (apply_effs (lh_store t) (snd (lldp_runs curs (lh_seen t)))) ifn (ln_chassis nb) =
      lldp_view (lh_store t) ifn (ln_chassis nb)"
    if "\<forall>cur \<in> set curs. gomap_ok cur \<and> map_of cur ifn = None \<and> (\<forall>nb \<in> snd ` set cur. ln_chassis nb \<noteq> [])" for curs
  proof -
    have pre: "prefix (lldpElems ifn (ln_chassis nb) []) (lldpElems ifn (ln_chassis nb) a)" for a by simp
    have "store_look (apply_effs (lh_store t) (snd (lldp_runs curs (lh_seen t)))) ''openconfig''
        (lldpElems ifn (ln_chassis nb) a) =
      store_look (lh_store t) ''openconfig'' (lldpElems ifn (ln_chassis nb) a)" for a
      by (rule ld.runs_moved [OF _ _ pre]) (use that t(3) in \<open>auto simp: lldp_valid_def\<close>)
    then show ?thesis by (simp add: lldp_view_def)
  qed
  with t view show ?thesis by metis
qed

theorem lldp_race_leaves_ghost_witness:
  "\<exists>t. lldp_reach \<lparr>lh_seen = [], lh_store = (\<lambda>_. None), lh_pc = (\<lambda>_. Idle)\<rparr> t \<and>
    lldp_view (apply_effs (lh_store t) (snd (lldp_runs [[], []] (lh_seen t)))) ''eth0'' ''aa:bb'' =
      map (\<lambda>s. Some (StringVal s)) [''aa:bb'', ''eth1'', ''r2'', ''Debian'', ''10.0.0.2'']"
proof -
  have "\<exists>t. lldp_reach \<lparr>lh_seen = [], lh_store = (\<lambda>_. None), lh_pc = (\<lambda>_. Idle)\<rparr> t \<and> idle t \<and>
    (\<forall>curs. (\<forall>cur \<in> set curs. gomap_ok cur \<and> map_of cur ''eth0'' = None \<and> (\<forall>nb \<in> snd ` set cur. ln_chassis nb \<noteq> [])) \<longrightarrow>
      lldp_view (apply_effs (lh_store t) (snd (lldp_runs curs (lh_seen t)))) ''eth0'' (ln_chassis (sample_lldp ''aa:bb'')) =
        lldp_want [(''eth0'', sample_lldp ''aa:bb'')] ''eth0'' (ln_chassis (sample_lldp ''aa:bb'')))"
    by (rule lldp_race_leaves_ghost) (simp_all add: idle_def sample_lldp_def)
  then obtain t where t: "lldp_reach \<lparr>lh_seen = [], lh_store = (\<lambda>_. None), lh_pc = (\<lambda>_. Idle)\<rparr> t"
    "\<And>curs. (\<forall>cur \<in> set curs. gomap_ok cur \<and> map_of cur ''eth0'' = None \<and> (\<forall>nb \<in> snd ` set cur. ln_chassis nb \<noteq> [])) \<Longrightarrow>
      lldp_view (apply_effs (lh_store t) (snd (lldp_runs curs (lh_seen t)))) ''eth0'' (ln_chassis (sample_lldp ''aa:bb'')) =
        lldp_want [(''eth0'', sample_lldp ''aa:bb'')] ''eth0'' (ln_chassis (sample_lldp ''aa:bb''))" by blast
  from t(2) [of "[[], []]"] have
    "lldp_view (apply_effs (lh_store t) (snd (lldp_runs [[], []] (lh_seen t)))) ''eth0'' ''aa:bb'' =
      map (\<lambda>s. Some (StringVal s)) [''aa:bb'', ''eth1'', ''r2'', ''Debian'', ''10.0.0.2'']"
    by (simp add: sample_lldp_def lldp_want_def)
  with t(1) show ?thesis by blast
qed


section \<open>lldpd's listing\<close>

text \<open>A neighbour as lldpd prints it, keyed by its system name, with other members around the ones that
  are read; and the two forms of the listing, an object keyed by interface or an array of objects with
  one interface each.\<close>

record lldpd_nbr =
  ll_if :: string
  ll_sys :: string
  ll_chassis :: string
  ll_descr :: string
  ll_mgmt :: "string list"
  ll_port :: string
  ll_rid :: json

definition lldpd_body :: "lldpd_nbr \<Rightarrow> json" where
  "lldpd_body n = JObj
     [(''via'', JStr ''LLDP''), (''rid'', ll_rid n),
      (''chassis'', JObj [(ll_sys n, JObj
         [(''id'', JObj [(''type'', JStr ''mac''), (''value'', JStr (ll_chassis n))]),
          (''descr'', JStr (ll_descr n)),
          (''mgmt-ip'', JArr (map JStr (ll_mgmt n)))])]),
      (''port'', JObj [(''id'', JObj [(''type'', JStr ''ifname''), (''value'', JStr (ll_port n))]), (''descr'', JStr ''port'')])]"

definition lldpd_object :: "lldpd_nbr list \<Rightarrow> json" where
  "lldpd_object ns = JObj [(''lldp'', JObj [(''interface'', JObj (map (\<lambda>n. (ll_if n, lldpd_body n)) ns))])]"

definition lldpd_array :: "lldpd_nbr list \<Rightarrow> json" where
  "lldpd_array ns = JObj [(''lldp'', JObj [(''interface'', JArr (map (\<lambda>n. JObj [(ll_if n, lldpd_body n)]) ns))])]"

definition lldpd_read :: "lldpd_nbr \<Rightarrow> lldp_nbr" where
  "lldpd_read n =
     \<lparr>ln_ifname = ll_if n, ln_chassis = (if ll_chassis n = [] then ll_sys n else ll_chassis n),
      ln_port = (if ll_port n = [] then ''port'' else ll_port n), ln_sysname = ll_sys n,
      ln_sysdescr = ll_descr n, ln_mgmt = (case ll_mgmt n of [] \<Rightarrow> [] | a # _ \<Rightarrow> a)\<rparr>"

lemma parseIface_lldpd:
  "ll_sys n \<noteq> ''id'' \<Longrightarrow> parseIface (ll_if n) (asMap (lldpd_body n)) = lldpd_read n"
  by (cases "ll_mgmt n")
     (simp_all add: parseIface_def lldpd_body_def asMap_def mget_def jget_def fillChassis_def lldpd_read_def Let_def)

lemma put_ifaces_lldpd:
  "list_all (\<lambda>n. ll_sys n \<noteq> ''id'') ns \<Longrightarrow> distinct (map fst m @ map ll_if ns) \<Longrightarrow>
    put_ifaces (map (\<lambda>n. (ll_if n, lldpd_body n)) ns) m = m @ map (\<lambda>n. (ll_if n, lldpd_read n)) ns"
  by (induction ns arbitrary: m) (simp_all add: put_ifaces_def parseIface_lldpd lldp_put_new)

lemma lldpd_array_loop:
  "list_all (\<lambda>n. ll_sys n \<noteq> ''id'') ns \<Longrightarrow> distinct (map fst m @ map ll_if ns) \<Longrightarrow>
    foldl (\<lambda>res e. (let m = asMap e; name = asStr (mget m ''name'')
       in if name \<noteq> [] then map_put name (parseIface name m) res
          else (case m of None \<Rightarrow> res | Some kvs \<Rightarrow> put_ifaces kvs res))) m
      (map (\<lambda>n. JObj [(ll_if n, lldpd_body n)]) ns) = m @ map (\<lambda>n. (ll_if n, lldpd_read n)) ns"
proof (induction ns arbitrary: m)
  case (Cons n ns)
  have "asStr (mget (asMap (JObj [(ll_if n, lldpd_body n)])) ''name'') = []"
    by (simp add: asMap_def mget_def jget_def lldpd_body_def)
  moreover have "put_ifaces [(ll_if n, lldpd_body n)] m = m @ [(ll_if n, lldpd_read n)]"
    using put_ifaces_lldpd [of "[n]" m] Cons.prems by simp
  ultimately show ?case
    using Cons by (simp add: asMap_def Let_def del: asStr.simps)
qed simp

text \<open>
  Lldpd's listing is read the same in both of its forms. For distinct interfaces, with whatever else
  lldpd prints about them, the object form and the array form give the same neighbours: the chassis id
  (or the system name when it is empty), the port id, the name and description, and the first
  management address, whether there is one or several.
\<close>

theorem lldp_parse_lldpd:
  assumes "distinct (map ll_if ns)" "list_all (\<lambda>n. ll_sys n \<noteq> ''id'') ns"
  shows "parseLLDP (Some (lldpd_object ns)) = map (\<lambda>n. (ll_if n, lldpd_read n)) ns
    \<and> parseLLDP (Some (lldpd_array ns)) = map (\<lambda>n. (ll_if n, lldpd_read n)) ns"
  using put_ifaces_lldpd [OF assms(2), of "[]"] lldpd_array_loop [OF assms(2), of "[]"] assms(1)
  by (simp add: parseLLDP_def lldpd_object_def lldpd_array_def asMap_def firstObj_def jget_def)

theorem lldp_parse_lldpd_witness:
  "parseLLDP (Some (lldpd_array
     [\<lparr>ll_if = ''eth0'', ll_sys = ''r2'', ll_chassis = ''aa:bb'', ll_descr = ''Debian'', ll_mgmt = [''10.0.0.2'', ''fe80::1''],
       ll_port = ''eth1'', ll_rid = JNum ''1''\<rparr>])) = [(''eth0'', sample_lldp ''aa:bb'')]"
  by (subst lldp_parse_lldpd [THEN conjunct2]) (simp_all add: lldpd_read_def sample_lldp_def)

end
