(* ===== verification/Exporter.thy ===== *)
theory Exporter
  imports GoNet Gnmi "HOL-Library.Multiset"
begin

text \<open>
  What the exporters \<^verbatim>\<open>cmd/topology-exporter\<close>, \<^verbatim>\<open>cmd/pathtrace-exporter\<close> and
  \<^verbatim>\<open>cmd/trace-aggregator\<close> share (each has its own copy of the same functions): the parsing of the
  inventory, the client cache and the Get call, the address query and the map from addresses to
  nodes, and the quoting of metric labels.

  The gRPC library is a parameter: \<open>newClient\<close> is \<^verbatim>\<open>grpc.NewClient\<close> (\<^const>\<open>None\<close> for an error) and
  \<open>rpc\<close> the answer to a Get (\<^const>\<open>None\<close> for an error), the updates of its notifications with their
  optional path and value. What the answers are when a node serves its leaf store is the predicate
  \<open>answers_of\<close>, which the properties use as a hypothesis. A loop over a Go map takes the keys or
  entries in the order of that run as an argument.
\<close>

type_synonym answer = "elems option \<times> tval option"
type_synonym ask = "string \<Rightarrow> gpath \<Rightarrow> answer list"

section \<open>The inventory\<close>

definition inv_put :: "string \<Rightarrow> (string, string) gomap \<Rightarrow> (string, string) gomap" where
  "inv_put kv m =
     (case index_byte kv CHR ''='' of
        None \<Rightarrow> m
      | Some i \<Rightarrow> if 0 < i then map_put (take i kv) (drop (i + 1) kv) m else m)"

definition parseInventory :: "string \<Rightarrow> (string, string) gomap" where
  "parseInventory s =
     foldl (\<lambda>m kv. let kv = trim_space kv in if kv = [] then m else inv_put kv m) []
       (split_on CHR '','' s)"

text \<open>The copy of \<^verbatim>\<open>trace-aggregator\<close> has no test for an empty entry.\<close>

definition agg_parseInventory :: "string \<Rightarrow> (string, string) gomap" where
  "agg_parseInventory s =
     foldl (\<lambda>m kv. inv_put (trim_space kv) m) [] (split_on CHR '','' s)"

lemma inv_put_Nil [simp]: "inv_put [] m = m"
  by (simp add: inv_put_def)

lemma agg_parseInventory_eq: "agg_parseInventory s = parseInventory s"
proof -
  have "(\<lambda>m kv. let kv = trim_space kv in if kv = [] then m else inv_put kv m) =
      (\<lambda>m kv. inv_put (trim_space kv) m)"
    by (auto simp: Let_def fun_eq_iff)
  then show ?thesis by (simp add: agg_parseInventory_def parseInventory_def)
qed

lemma inv_put_entry: "n \<noteq> [] \<Longrightarrow> CHR ''='' \<notin> set n \<Longrightarrow> inv_put (n @ ''='' @ a) m = map_put n a m"
  by (simp add: inv_put_def index_byte_append)

lemma trim_by_id:
  "s = [] \<or> \<not> p (hd s) \<and> \<not> p (last s) \<Longrightarrow> trim_by p s = s"
proof -
  assume a: "s = [] \<or> \<not> p (hd s) \<and> \<not> p (last s)"
  then have "dropWhile p s = s" "dropWhile p (rev s) = rev s"
    by (auto simp: dropWhile_eq_self_iff hd_rev)
  then show ?thesis by (simp add: trim_by_def)
qed

text \<open>An inventory written as \<^verbatim>\<open>node=address,...\<close> is read back, a later entry of a node winning.\<close>

definition inv_entry_ok :: "string \<times> string \<Rightarrow> bool" where
  "inv_entry_ok e \<longleftrightarrow>
     (let (n, a) = e in
       n \<noteq> [] \<and> a \<noteq> [] \<and> CHR ''='' \<notin> set n \<and> CHR '','' \<notin> set n \<and> CHR '','' \<notin> set a \<and>
       \<not> is_space (hd n) \<and> \<not> is_space (last a))"

lemma parseInventory_print:
  assumes "list_all inv_entry_ok es"
  shows "parseInventory (join '','' (map (\<lambda>(n, a). n @ ''='' @ a) es)) =
    foldl (\<lambda>m (n, a). map_put n a m) [] es"
proof (cases "es = []")
  case False
  let ?w = "\<lambda>(n, a). n @ ''='' @ a"
  have "split_on CHR '','' (join '','' (map ?w es)) = map ?w es"
    using assms False by (intro split_join) (auto simp: list_all_iff inv_entry_ok_def)
  moreover have "foldl (\<lambda>m kv. inv_put (trim_space kv) m) m (map ?w es) =
      foldl (\<lambda>m (n, a). map_put n a m) m es" for m
    using assms
  proof (induction es arbitrary: m)
    case (Cons e es)
    obtain n a where e: "e = (n, a)" by force
    with Cons.prems have ok: "n \<noteq> []" "a \<noteq> []" "CHR ''='' \<notin> set n" "\<not> is_space (hd n)" "\<not> is_space (last a)"
      by (auto simp: inv_entry_ok_def)
    then have "trim_space (n @ ''='' @ a) = n @ ''='' @ a"
      unfolding trim_space_def by (intro trim_by_id) auto
    with inv_put_entry [OF ok(1,3)] have "inv_put (trim_space (?w e)) m = map_put n a m"
      by (simp only: e prod.case)
    with Cons e show ?case by (simp del: append.simps)
  qed simp
  ultimately show ?thesis
    unfolding agg_parseInventory_eq [symmetric] agg_parseInventory_def by simp
qed (simp add: parseInventory_def split_on_def trim_space_def trim_by_def)


section \<open>The Get call\<close>

text \<open>\<^verbatim>\<open>client\<close>: a node is dialled once; the address gets the default port.\<close>

definition dial_addr :: "string \<Rightarrow> string" where
  "dial_addr addr = (if str_contains addr '':'' then addr else addr @ '':9339'')"

definition client ::
    "(string \<Rightarrow> 'c option) \<Rightarrow> (string, string) gomap \<Rightarrow> string \<Rightarrow> (string, 'c) gomap
      \<Rightarrow> 'c option \<times> (string, 'c) gomap" where
  "client newClient inventory node clients =
     (case map_of clients node of
        Some c \<Rightarrow> (Some c, clients)
      | None \<Rightarrow>
          (let addr = get_or [] inventory node
           in if addr = [] then (None, clients)
              else case newClient (dial_addr addr) of
                     None \<Rightarrow> (None, clients)
                   | Some c \<Rightarrow> (Some c, map_put node c clients)))"

text \<open>\<^verbatim>\<open>get\<close>: the updates of all notifications; nothing when the node cannot be asked.\<close>

definition get ::
    "(string \<Rightarrow> 'c option) \<Rightarrow> ('c \<Rightarrow> gpath \<Rightarrow> answer list list option) \<Rightarrow> (string, string) gomap
      \<Rightarrow> string \<Rightarrow> gpath \<Rightarrow> (string, 'c) gomap \<Rightarrow> answer list \<times> (string, 'c) gomap" where
  "get newClient rpc inventory node p clients =
     (let (cl, clients) = client newClient inventory node clients
      in case cl of
           None \<Rightarrow> ([], clients)
         | Some c \<Rightarrow>
             (case rpc c p of None \<Rightarrow> [] | Some notifs \<Rightarrow> concat notifs, clients))"

text \<open>A node that is in the cache of clients was dialled at its address of the inventory, so the
  cache does not change what a Get answers: the answer depends on the node and the path only.\<close>

definition clients_ok ::
    "(string \<Rightarrow> 'c option) \<Rightarrow> (string, string) gomap \<Rightarrow> (string, 'c) gomap \<Rightarrow> bool" where
  "clients_ok newClient inventory clients \<longleftrightarrow>
     list_all (\<lambda>(n, c). get_or [] inventory n \<noteq> [] \<and>
       newClient (dial_addr (get_or [] inventory n)) = Some c) clients"

definition answer_of ::
    "(string \<Rightarrow> 'c option) \<Rightarrow> ('c \<Rightarrow> gpath \<Rightarrow> answer list list option) \<Rightarrow> (string, string) gomap \<Rightarrow> ask" where
  "answer_of newClient rpc inventory node p = fst (get newClient rpc inventory node p [])"

lemma clients_okD:
  "clients_ok nc iv cs \<Longrightarrow> map_of cs n = Some c \<Longrightarrow>
    get_or [] iv n \<noteq> [] \<and> nc (dial_addr (get_or [] iv n)) = Some c"
  by (auto simp: clients_ok_def list_all_iff dest!: map_of_SomeD)

lemma set_map_put: "set (map_put k v m) \<subseteq> insert (k, v) (set m)"
  by (induction m) auto

lemma get_answer_of:
  assumes "clients_ok nc iv cs"
  shows "fst (get nc rpc iv node p cs) = answer_of nc rpc iv node p"
    and "clients_ok nc iv (snd (get nc rpc iv node p cs))"
proof -
  show "fst (get nc rpc iv node p cs) = answer_of nc rpc iv node p"
    using clients_okD [OF assms, of node]
    by (auto simp: get_def answer_of_def client_def Let_def split: option.splits)
  have "clients_ok nc iv (map_put node c cs)"
    if "get_or [] iv node \<noteq> []" "nc (dial_addr (get_or [] iv node)) = Some c" for c
    using assms that set_map_put [of node c cs]
    unfolding clients_ok_def list_all_iff by fast
  then show "clients_ok nc iv (snd (get nc rpc iv node p cs))"
    using assms by (auto simp: get_def client_def Let_def split: option.splits)
qed


section \<open>Answers from a leaf store\<close>

text \<open>What a Get of a path returns of a store: the leaves under the path, in some order, where
  \<^verbatim>\<open>*\<close> stands for any key.\<close>

fun elem_match :: "path_elem \<Rightarrow> path_elem \<Rightarrow> bool" where
  "elem_match p e \<longleftrightarrow>
     pe_name p = pe_name e \<and> map fst (pe_key p) = map fst (pe_key e) \<and>
     list_all2 (\<lambda>(k, v) (k', v'). v = ''*'' \<or> v = v') (pe_key p) (pe_key e)"

fun path_match :: "elems \<Rightarrow> elems \<Rightarrow> bool" where
  "path_match [] q \<longleftrightarrow> True"
| "path_match (p # ps) (q # qs) \<longleftrightarrow> elem_match p q \<and> path_match ps qs"
| "path_match (p # ps) [] \<longleftrightarrow> False"

definition answers_of :: "store \<Rightarrow> gpath \<Rightarrow> answer list \<Rightarrow> bool" where
  "answers_of st p as \<longleftrightarrow>
     set as = {(Some q, Some v) | q v. store_look st (gp_origin p) q = Some v \<and> path_match (gp_elem p) q}"

lemma answers_ofI:
  "answers_of st p as \<Longrightarrow> store_look st (gp_origin p) q = Some v \<Longrightarrow> path_match (gp_elem p) q \<Longrightarrow>
    (Some q, Some v) \<in> set as"
  by (auto simp: answers_of_def)

lemma answers_ofD:
  assumes "answers_of st p as" "a \<in> set as"
  obtains q v where "a = (Some q, Some v)" "store_look st (gp_origin p) q = Some v" "path_match (gp_elem p) q"
  using assms by (auto simp: answers_of_def)


text \<open>The answer of a node that holds a list of leaves, in their order.\<close>

type_synonym leaf_list = "((string \<times> elems) \<times> tval) list"

definition serve :: "leaf_list \<Rightarrow> gpath \<Rightarrow> answer list" where
  "serve ls p =
     map (\<lambda>((og, q), v). (Some q, Some v))
       (filter (\<lambda>((og, q), v). og = gp_origin p \<and> path_match (gp_elem p) q) ls)"

lemma serve_answers: "gomap_ok ls \<Longrightarrow> answers_of (map_of ls) p (serve ls p)"
  by (force simp: answers_of_def serve_def store_look_def)

section \<open>Addresses\<close>

definition addrPath :: gpath where
  "addrPath = \<lparr>gp_target = '''', gp_origin = ''openconfig'', gp_elem =
     [el ''interfaces'', elk ''interface'' [(''name'', ''*'')],
      el ''subinterfaces'', elk ''subinterface'' [(''index'', ''0'')],
      el ''ipv4'', el ''addresses'', elk ''address'' [(''ip'', ''*'')], el ''state'', el ''ip'']\<rparr>"

definition skip_ip :: "string \<Rightarrow> bool" where
  "skip_ip ip \<longleftrightarrow> ip = '''' \<or> prefix ''127.'' ip \<or> prefix ''172.31.'' ip"

definition ip_loop :: "string \<Rightarrow> answer list \<Rightarrow> (string, string) gomap \<Rightarrow> (string, string) gomap" where
  "ip_loop node ups m =
     foldl (\<lambda>m (p, v).
         let ip = get_or '''' (fst (dissect p)) ''ip''
         in if skip_ip ip then m else map_put ip node m) m ups"

text \<open>\<open>nodes\<close> is the inventory's keys in iteration order.\<close>

definition buildIP2Node :: "ask \<Rightarrow> string list \<Rightarrow> (string, string) gomap" where
  "buildIP2Node ask nodes = foldl (\<lambda>m node. ip_loop node (ask node addrPath) m) [] nodes"

definition answer_ips :: "answer list \<Rightarrow> string list" where
  "answer_ips ups = filter (\<lambda>ip. \<not> skip_ip ip) (map (\<lambda>(p, v). get_or '''' (fst (dissect p)) ''ip'') ups)"

lemma map_of_ip_loop:
  "map_of (ip_loop node ups m) ip = (if ip \<in> set (answer_ips ups) then Some node else map_of m ip)"
  unfolding ip_loop_def answer_ips_def
  by (induction ups arbitrary: m) (auto simp: Let_def)

definition ip_owners :: "ask \<Rightarrow> string list \<Rightarrow> string \<Rightarrow> string list" where
  "ip_owners ask nodes ip = filter (\<lambda>n. ip \<in> set (answer_ips (ask n addrPath))) nodes"

lemma map_of_buildIP2Node:
  "map_of (buildIP2Node ask nodes) ip =
    (if ip_owners ask nodes ip = [] then None else Some (last (ip_owners ask nodes ip)))"
proof -
  have "map_of (foldl (\<lambda>m node. ip_loop node (ask node addrPath) m) m nodes) ip =
    (if ip_owners ask nodes ip = [] then map_of m ip else Some (last (ip_owners ask nodes ip)))" for m
    by (induction nodes arbitrary: m) (simp_all add: map_of_ip_loop ip_owners_def)
  from this [of "[]"] show ?thesis by (simp add: buildIP2Node_def)
qed

lemma set_ip_owners:
  "set (ip_owners ask nodes ip) = {n \<in> set nodes. ip \<in> set (answer_ips (ask n addrPath))}"
  by (auto simp: ip_owners_def)

text \<open>An address that one node only answers with is mapped to that node, in whatever order the
  nodes are visited.\<close>

lemma buildIP2Node_owner:
  assumes "set (ip_owners ask nodes ip) = {n}"
  shows "map_of (buildIP2Node ask nodes) ip = Some n"
proof -
  from assms have ne: "ip_owners ask nodes ip \<noteq> []" by force
  with assms have "last (ip_owners ask nodes ip) = n" using last_in_set by blast
  with ne show ?thesis by (simp add: map_of_buildIP2Node)
qed

lemma buildIP2Node_SomeD:
  assumes "map_of (buildIP2Node ask nodes) ip = Some n"
  shows "n \<in> set (ip_owners ask nodes ip)"
  using assms last_in_set [of "ip_owners ask nodes ip"] by (auto simp: map_of_buildIP2Node split: if_splits)

text \<open>The map does not depend on the order of the nodes when no address has two owners.\<close>

lemma buildIP2Node_order:
  assumes "set nodes' = set nodes"
    and "\<And>ip n n'. n \<in> set (ip_owners ask nodes ip) \<Longrightarrow> n' \<in> set (ip_owners ask nodes ip) \<Longrightarrow> n = n'"
  shows "map_of (buildIP2Node ask nodes') = map_of (buildIP2Node ask nodes)"
proof
  fix ip
  have same: "set (ip_owners ask nodes' ip) = set (ip_owners ask nodes ip)"
    by (simp add: set_ip_owners assms(1))
  show "map_of (buildIP2Node ask nodes') ip = map_of (buildIP2Node ask nodes) ip"
  proof (cases "ip_owners ask nodes ip = []")
    case True
    with same have "ip_owners ask nodes' ip = []" by simp
    with True show ?thesis by (simp add: map_of_buildIP2Node)
  next
    case False
    then obtain n where n: "n \<in> set (ip_owners ask nodes ip)" by (meson last_in_set)
    with assms(2) have one: "set (ip_owners ask nodes ip) = {n}" by blast
    with same have "set (ip_owners ask nodes' ip) = {n}" by simp
    with one show ?thesis by (simp add: buildIP2Node_owner)
  qed
qed


section \<open>Formatting\<close>

text \<open>The verb \<^verbatim>\<open>%q\<close> on text whose bytes beyond ASCII are printable UTF-8.\<close>

definition quote_char :: "char \<Rightarrow> string" where
  "quote_char c =
     (let n = (of_char c :: nat)
      in if n = 34 then [CHR 0x5C, CHR 0x22]
         else if n = 92 then [CHR 0x5C, CHR 0x5C]
         else if n = 7 then [CHR 0x5C, CHR ''a'']
         else if n = 8 then [CHR 0x5C, CHR ''b'']
         else if n = 12 then [CHR 0x5C, CHR ''f'']
         else if n = 10 then [CHR 0x5C, CHR ''n'']
         else if n = 13 then [CHR 0x5C, CHR ''r'']
         else if n = 9 then [CHR 0x5C, CHR ''t'']
         else if n = 11 then [CHR 0x5C, CHR ''v'']
         else if n < 32 \<or> n = 127 then [CHR 0x5C, CHR ''x''] @ hex_byte (of_nat n)
         else [c])"

definition quote :: "string \<Rightarrow> string" where
  "quote s = CHR 0x22 # concat (map quote_char s) @ [CHR 0x22]"

text \<open>The verb \<^verbatim>\<open>%02d\<close>.\<close>

definition dec02 :: "nat \<Rightarrow> string" where
  "dec02 n = (if n < 10 then CHR ''0'' # dec n else dec n)"

end
