(* ===== verification/Pathtrace.thy ===== *)
theory Pathtrace
  imports Exporter
begin

text \<open>
  \<^verbatim>\<open>cmd/pathtrace-exporter/main.go\<close>: the control-plane path walk over the nodes' forwarding tables and
  the metrics page it renders. The walk reads a table of a node once per iteration: the answers are
  the argument \<open>ask\<close>, indexed by the iteration, so that tables may change while a trace runs.
  \<open>rng\<close> is the order in which the loop over the map \<^verbatim>\<open>byPfx\<close> meets its entries in that run.
\<close>

record flow =
  fl_name :: string
  fl_start :: string
  fl_dst :: string

record hop =
  h_seq :: nat
  h_node :: string
  h_kind :: string
  h_nexthop :: string
  h_label :: string
  h_detail :: string


section \<open>Queries\<close>

definition aftQuery :: gpath where
  "aftQuery = \<lparr>gp_target = '''', gp_origin = ''openconfig'', gp_elem =
     [el ''network-instances'', elk ''network-instance'' [(''name'', ''*'')],
      el ''afts'', el ''ipv4-unicast'', elk ''ipv4-entry'' [(''prefix'', ''*'')], el ''state'']\<rparr>"

definition lfibQuery :: "string \<Rightarrow> gpath" where
  "lfibQuery label = \<lparr>gp_target = '''', gp_origin = ''frr'', gp_elem =
     [el ''mpls'', el ''lfib'', elk ''entry'' [(''label'', label)], el ''state'']\<rparr>"


text \<open>The exporter's copies of the functions in \<open>Exporter\<close>, which are the same text.\<close>

abbreviation (input) pt_parseInventory :: "string \<Rightarrow> (string, string) gomap" where
  "pt_parseInventory \<equiv> parseInventory"

abbreviation (input) pt_client ::
    "(string \<Rightarrow> 'c option) \<Rightarrow> (string, string) gomap \<Rightarrow> string \<Rightarrow> (string, 'c) gomap
      \<Rightarrow> 'c option \<times> (string, 'c) gomap" where
  "pt_client \<equiv> client"

abbreviation (input) pt_get ::
    "(string \<Rightarrow> 'c option) \<Rightarrow> ('c \<Rightarrow> gpath \<Rightarrow> answer list list option) \<Rightarrow> (string, string) gomap
      \<Rightarrow> string \<Rightarrow> gpath \<Rightarrow> (string, 'c) gomap \<Rightarrow> answer list \<times> (string, 'c) gomap" where
  "pt_get \<equiv> get"

abbreviation (input) pt_addrPath :: gpath where
  "pt_addrPath \<equiv> addrPath"

abbreviation (input) pt_buildIP2Node :: "ask \<Rightarrow> string list \<Rightarrow> (string, string) gomap" where
  "pt_buildIP2Node \<equiv> buildIP2Node"

abbreviation (input) pt_dissect :: "elems option \<Rightarrow> (string, string) gomap \<times> string" where
  "pt_dissect \<equiv> dissect"

abbreviation (input) pt_sval :: "tval option \<Rightarrow> string" where
  "pt_sval \<equiv> sval"


section \<open>Lookups\<close>

record ent =
  en_vrf :: string
  en_nh :: string
  en_lbl :: string

definition byPfx_put :: "answer \<Rightarrow> (string, ent) gomap \<Rightarrow> (string, ent) gomap" where
  "byPfx_put u m =
     (let (keys, leaf) = pt_dissect (fst u);
          pfx = get_or '''' keys ''prefix''
      in if pfx = '''' then m
         else (let e = get_or \<lparr>en_vrf = '''', en_nh = '''', en_lbl = ''''\<rparr> m pfx;
                   e = (if leaf = ''next-hop''
                        then e\<lparr>en_nh := pt_sval (snd u), en_vrf := get_or '''' keys ''name''\<rparr>
                        else if leaf = ''pushed-mpls-label-stack'' then e\<lparr>en_lbl := pt_sval (snd u)\<rparr>
                        else e)
               in map_put pfx e m))"

definition byPfx :: "answer list \<Rightarrow> (string, ent) gomap" where
  "byPfx ups = foldl (\<lambda>m u. byPfx_put u m) [] ups"

type_synonym found = "string \<times> string \<times> string \<times> string"

definition best_step :: "ip \<Rightarrow> int \<times> found \<Rightarrow> string \<times> ent \<Rightarrow> int \<times> found" where
  "best_step di s pe =
     (let (best, r) = s; (pfx, e) = pe
      in if en_nh e = '''' \<and> en_lbl e = '''' then s
         else case parse_cidr4 pfx of
                None \<Rightarrow> s
              | Some net \<Rightarrow>
                  if net_contains net di \<and> best < int (snd net)
                  then (int (snd net), (en_vrf e, pfx, en_nh e, en_lbl e)) else s)"

definition routeLookup ::
    "((string \<times> ent) list \<Rightarrow> (string \<times> ent) list) \<Rightarrow> ask \<Rightarrow> string \<Rightarrow> string \<Rightarrow> found" where
  "routeLookup rng ask node dst =
     (let m = byPfx (ask node aftQuery);
          di = parse_ip4 dst
      in if di = [] then ('''', '''', '''', '''')
         else snd (foldl (best_step di) (-1, ('''', '''', '''', '''')) (rng m)))"

definition mpls_step :: "string \<times> string \<times> string \<Rightarrow> answer \<Rightarrow> string \<times> string \<times> string" where
  "mpls_step r u =
     (let (outLabel, nexthop, iface) = r; leaf = snd (pt_dissect (fst u))
      in if leaf = ''out-label'' then (pt_sval (snd u), nexthop, iface)
         else if leaf = ''next-hop'' then (outLabel, pt_sval (snd u), iface)
         else if leaf = ''interface'' then (outLabel, nexthop, pt_sval (snd u))
         else r)"

definition mplsLookup :: "ask \<Rightarrow> string \<Rightarrow> string \<Rightarrow> string \<times> string \<times> string" where
  "mplsLookup ask node label = foldl mpls_step ('''', '''', '''') (ask node (lfibQuery label))"

definition nodeOf :: "(string, string) gomap \<Rightarrow> string \<Rightarrow> string" where
  "nodeOf ip2node ip = get_or ''?'' ip2node ip"


section \<open>The walk\<close>

record walk =
  w_node :: string
  w_stack :: "string list"
  w_seq :: nat
  w_hops :: "hop list"

type_synonym outcome = "hop list \<times> bool"

definition final_hop :: "walk \<Rightarrow> string \<Rightarrow> string \<Rightarrow> hop" where
  "final_hop w kind detail =
     \<lparr>h_seq = w_seq w, h_node = w_node w, h_kind = kind, h_nexthop = '''', h_label = '''', h_detail = detail\<rparr>"

definition next_hop :: "walk \<Rightarrow> string \<Rightarrow> string list \<Rightarrow> hop \<Rightarrow> walk" where
  "next_hop w node stack h =
     \<lparr>w_node = node, w_stack = stack, w_seq = w_seq w + 1, w_hops = w_hops w @ [h]\<rparr>"

definition ip_phase ::
    "((string \<times> ent) list \<Rightarrow> (string \<times> ent) list) \<Rightarrow> ask \<Rightarrow> (string, string) gomap \<Rightarrow> string
      \<Rightarrow> walk \<Rightarrow> outcome + walk" where
  "ip_phase rng ask ip2node dst w =
     (let (vrf, pfx, nh, labels) = routeLookup rng ask (w_node w) dst
      in if nh = '''' \<and> labels = '''' \<and> pfx = ''''
         then Inl (w_hops w @ [final_hop w ''drop'' (''no route to '' @ dst)], False)
         else
           (let h = \<lparr>h_seq = w_seq w, h_node = w_node w, h_kind = '''', h_nexthop = nh, h_label = '''',
                     h_detail = ''vrf='' @ vrf @ '' '' @ pfx\<rparr>;
                (stack, h) = (if labels \<noteq> ''''
                              then (split_on CHR '','' labels, h\<lparr>h_kind := ''ip-push'', h_label := labels\<rparr>)
                              else (w_stack w, h\<lparr>h_kind := ''ip''\<rparr>))
            in Inr (next_hop w (nodeOf ip2node nh) stack h)))"

definition mpls_hop :: "walk \<Rightarrow> string \<Rightarrow> string \<Rightarrow> string \<Rightarrow> string \<Rightarrow> string list \<Rightarrow> hop" where
  "mpls_hop w kind nh label iface stack =
     \<lparr>h_seq = w_seq w, h_node = w_node w, h_kind = kind, h_nexthop = nh, h_label = label,
      h_detail = ''if='' @ iface @ '' stack['' @ join '' '' stack @ '']''\<rparr>"

definition mpls_phase :: "ask \<Rightarrow> (string, string) gomap \<Rightarrow> string \<Rightarrow> string list \<Rightarrow> walk \<Rightarrow> outcome + walk" where
  "mpls_phase ask ip2node lab rest w =
     (let (outLbl, nh, iface) = mplsLookup ask (w_node w) lab
      in if outLbl = '''' \<and> nh = '''' \<and> iface = ''''
         then Inl (w_hops w @ [final_hop w ''drop'' (''no LFIB entry for label '' @ lab)], False)
         else if outLbl \<noteq> '''' then
           (let stack = split_on CHR '','' outLbl @ rest
            in Inr (next_hop w (nodeOf ip2node nh) stack
                      (mpls_hop w ''mpls-swap'' nh (lab @ ''->'' @ outLbl) iface stack)))
         else if nh \<noteq> '''' then
           Inr (next_hop w (nodeOf ip2node nh) rest (mpls_hop w ''mpls-pop-php'' nh lab iface rest))
         else
           Inr (next_hop w (w_node w) rest
                  \<lparr>h_seq = w_seq w, h_node = w_node w, h_kind = ''mpls-pop-vrf'', h_nexthop = '''',
                   h_label = lab, h_detail = ''-> VRF '' @ iface\<rparr>))"

text \<open>One iteration: the walk is over, or goes on. The loop runs at most 24 times.\<close>

definition trace_step ::
    "((string \<times> ent) list \<Rightarrow> (string \<times> ent) list) \<Rightarrow> ask \<Rightarrow> (string, string) gomap \<Rightarrow> string
      \<Rightarrow> walk \<Rightarrow> outcome + walk" where
  "trace_step rng ask ip2node dst w =
     (if get_or '''' ip2node dst = w_node w \<and> w_stack w = []
      then Inl (w_hops w @ [final_hop w ''dest'' (''destination '' @ dst @ '' reached'')], True)
      else
        (let r = (case w_stack w of
                    [] \<Rightarrow> ip_phase rng ask ip2node dst w
                  | lab # rest \<Rightarrow> mpls_phase ask ip2node lab rest w)
         in case r of
              Inl out \<Rightarrow> Inl out
            | Inr w' \<Rightarrow>
                if w_node w' = ''?''
                then Inl (w_hops w' @ [final_hop w' ''drop'' ''next-hop not in inventory''], False)
                else Inr w'))"

fun trace_loop ::
    "((string \<times> ent) list \<Rightarrow> (string \<times> ent) list) \<Rightarrow> (nat \<Rightarrow> ask) \<Rightarrow> (string, string) gomap \<Rightarrow> string
      \<Rightarrow> nat \<Rightarrow> nat \<Rightarrow> walk \<Rightarrow> outcome" where
  "trace_loop rng ask ip2node dst i 0 w = (w_hops w, False)"
| "trace_loop rng ask ip2node dst i (Suc k) w =
     (case trace_step rng (ask i) ip2node dst w of
        Inl out \<Rightarrow> out
      | Inr w' \<Rightarrow> trace_loop rng ask ip2node dst (Suc i) k w')"

definition walk_start :: "string \<Rightarrow> walk" where
  "walk_start start = \<lparr>w_node = start, w_stack = [], w_seq = 1, w_hops = []\<rparr>"

definition trace_path ::
    "((string \<times> ent) list \<Rightarrow> (string \<times> ent) list) \<Rightarrow> (nat \<Rightarrow> ask) \<Rightarrow> (string, string) gomap \<Rightarrow> string
      \<Rightarrow> string \<Rightarrow> outcome" where
  "trace_path rng ask ip2node start dst = trace_loop rng ask ip2node dst 0 24 (walk_start start)"


section \<open>The configuration and the page\<close>

definition parse_flow :: "string \<Rightarrow> flow option" where
  "parse_flow spec =
     (let (name, sd) =
        (case index_byte spec CHR '':'' of
           Some i \<Rightarrow> if 0 < i then (take i spec, drop (i + 1) spec) else (spec, spec)
         | None \<Rightarrow> (spec, spec))
      in case index_byte sd CHR ''>'' of
           None \<Rightarrow> None
         | Some i \<Rightarrow>
             if i = 0 then None
             else Some \<lparr>fl_name = name, fl_start = take i sd, fl_dst = drop (i + 1) sd\<rparr>)"

text \<open>\<open>srt\<close> is \<^verbatim>\<open>sort.Slice\<close> by name, which need not be stable.\<close>

definition parseFlows :: "(flow list \<Rightarrow> flow list) \<Rightarrow> string \<Rightarrow> flow list" where
  "parseFlows srt s =
     srt (foldl (\<lambda>fs spec.
        let spec = trim_space spec
        in if spec = '''' then fs
           else case parse_flow spec of None \<Rightarrow> fs | Some f \<Rightarrow> fs @ [f]) [] (split_on CHR '','' s))"

definition nl :: string where
  "nl = [CHR 0x0A]"

definition hop_line :: "flow \<Rightarrow> hop \<Rightarrow> string" where
  "hop_line f h =
     ''frr_pathtrace_hop_info{flow='' @ quote (fl_name f) @ '',seq='' @ quote (dec02 (h_seq h)) @
     '',node='' @ quote (h_node h) @ '',kind='' @ quote (h_kind h) @ '',nexthop='' @ quote (h_nexthop h) @
     '',labels='' @ quote (h_label h) @ '',detail='' @ quote (h_detail h) @ ''} 1'' @ nl"

definition flow_lines :: "flow \<Rightarrow> outcome \<Rightarrow> string \<Rightarrow> string" where
  "flow_lines f out dur =
     (let (hops, reached) = out;
          lbl = ''flow='' @ quote (fl_name f) @ '',src='' @ quote (fl_start f) @ '',dst='' @ quote (fl_dst f)
      in ''frr_pathtrace_reachable{'' @ lbl @ ''} '' @ (if reached then ''1'' else ''0'') @ nl @
         ''frr_pathtrace_hops{'' @ lbl @ ''} '' @ dec (length hops) @ nl @
         ''frr_pathtrace_duration_seconds{'' @ lbl @ ''} '' @ dur @ nl @
         concat (map (hop_line f) hops))"

definition pt_header :: string where
  "pt_header =
     ''# HELP frr_pathtrace_reachable 1 if the destination was reached by the control-plane path walk'' @ nl @
     ''# TYPE frr_pathtrace_reachable gauge'' @ nl @
     ''# HELP frr_pathtrace_hops number of hops walked'' @ nl @ ''# TYPE frr_pathtrace_hops gauge'' @ nl @
     ''# HELP frr_pathtrace_duration_seconds wall time of the trace'' @ nl @
     ''# TYPE frr_pathtrace_duration_seconds gauge'' @ nl @
     ''# HELP frr_pathtrace_hop_info one series per hop (value always 1)'' @ nl @
     ''# TYPE frr_pathtrace_hop_info gauge'' @ nl"

definition pt_footer :: string where
  "pt_footer =
     ''# HELP frr_pathtrace_up 1 if the last refresh completed'' @ nl @
     ''# TYPE frr_pathtrace_up gauge'' @ nl @ ''frr_pathtrace_up 1'' @ nl"

text \<open>\<open>ask0\<close> answers the address queries, \<open>ask n\<close> those of the \<open>n\<close>-th flow, whose trace takes the time
  \<open>dur n\<close> as \<^verbatim>\<open>%g\<close> prints it.\<close>

definition pt_render ::
    "((string \<times> ent) list \<Rightarrow> (string \<times> ent) list) \<Rightarrow> ask \<Rightarrow> (nat \<Rightarrow> nat \<Rightarrow> ask) \<Rightarrow> (nat \<Rightarrow> string)
      \<Rightarrow> string list \<Rightarrow> flow list \<Rightarrow> string" where
  "pt_render rng ask0 ask dur nodes flows =
     (let ip2node = pt_buildIP2Node ask0 nodes
      in pt_header @
         concat (map (\<lambda>(n, f). flow_lines f (trace_path rng (ask n) ip2node (fl_start f) (fl_dst f)) (dur n))
           (enumerate 0 flows)) @
         pt_footer)"

end
