(* ===== verification/Pathtrace_Props.thy ===== *)
theory Pathtrace_Props
  imports Pathtrace
begin

text \<open>
  What the path walk does: the shape of the hop list it returns, the route it takes at a node, and
  the forwarding relation it follows. The relation \<open>fwd\<close> is the specification: an IP packet takes
  the route of its destination, which may push labels; a labelled one is switched by its top label.
\<close>

section \<open>Hop lists\<close>

definition fwd_kinds :: "string list" where
  "fwd_kinds = [''ip'', ''ip-push'', ''mpls-swap'', ''mpls-pop-php'', ''mpls-pop-vrf'']"

text \<open>The node a hop leads to.\<close>

definition hop_target :: "(string, string) gomap \<Rightarrow> hop \<Rightarrow> string" where
  "hop_target ip2node h =
     (if h_kind h = ''mpls-pop-vrf'' then h_node h else nodeOf ip2node (h_nexthop h))"

text \<open>A step extends the walk by a hop, or ends it.\<close>

definition hop_of :: "walk \<Rightarrow> hop \<Rightarrow> bool" where
  "hop_of w h \<longleftrightarrow> h_seq h = w_seq w \<and> h_node h = w_node w \<and> h_kind h \<in> set fwd_kinds"

definition extends :: "(string, string) gomap \<Rightarrow> walk \<Rightarrow> walk \<Rightarrow> bool" where
  "extends m w w' \<longleftrightarrow> (\<exists>h st. w' = next_hop w (hop_target m h) st h \<and> hop_of w h)"

lemma extendsI: "n = hop_target m h \<Longrightarrow> hop_of w h \<Longrightarrow> extends m w (next_hop w n st h)"
  unfolding extends_def by blast

lemma ip_phase_Inr:
  assumes "ip_phase rng ask m dst w = Inr w'"
  shows "extends m w w'"
proof -
  obtain vrf pfx nh labels where "routeLookup rng ask (w_node w) dst = (vrf, pfx, nh, labels)"
    by (metis prod_cases4)
  with assms show ?thesis
    unfolding ip_phase_def
    by (cases "labels = ''''")
       (auto simp: Let_def hop_of_def hop_target_def fwd_kinds_def split: if_splits intro!: extendsI)
qed

lemma mpls_phase_Inr:
  assumes "mpls_phase ask m lab rest w = Inr w'"
  shows "extends m w w'"
proof -
  obtain out nh iface where "mplsLookup ask (w_node w) lab = (out, nh, iface)"
    by (metis prod_cases3)
  with assms show ?thesis
    unfolding mpls_phase_def
    by (cases "out = ''''"; cases "nh = ''''")
       (auto simp: Let_def hop_of_def hop_target_def fwd_kinds_def mpls_hop_def split: if_splits
        intro!: extendsI)
qed

lemma ip_phase_Inl:
  "ip_phase rng ask m dst w = Inl out \<Longrightarrow> \<exists>d. out = (w_hops w @ [final_hop w ''drop'' d], False)"
  by (auto simp: ip_phase_def Let_def split: prod.splits if_splits)

lemma mpls_phase_Inl:
  "mpls_phase ask m lab rest w = Inl out \<Longrightarrow> \<exists>d. out = (w_hops w @ [final_hop w ''drop'' d], False)"
  by (auto simp: mpls_phase_def Let_def split: prod.splits if_splits)

text \<open>The phase of an iteration.\<close>

definition phase ::
    "((string \<times> ent) list \<Rightarrow> (string \<times> ent) list) \<Rightarrow> ask \<Rightarrow> (string, string) gomap \<Rightarrow> string
      \<Rightarrow> walk \<Rightarrow> outcome + walk" where
  "phase rng ask m dst w =
     (case w_stack w of [] \<Rightarrow> ip_phase rng ask m dst w | lab # rest \<Rightarrow> mpls_phase ask m lab rest w)"

lemma phase_Inr: "phase rng ask m dst w = Inr w' \<Longrightarrow> extends m w w'"
  by (cases "w_stack w") (simp_all add: phase_def ip_phase_Inr mpls_phase_Inr)

lemma phase_Inl: "phase rng ask m dst w = Inl out \<Longrightarrow> \<exists>d. out = (w_hops w @ [final_hop w ''drop'' d], False)"
  by (cases "w_stack w") (simp_all add: phase_def ip_phase_Inl mpls_phase_Inl)

lemma trace_step_cases:
  "trace_step rng ask m dst w =
    (if get_or '''' m dst = w_node w \<and> w_stack w = []
     then Inl (w_hops w @ [final_hop w ''dest'' (''destination '' @ dst @ '' reached'')], True)
     else case phase rng ask m dst w of
       Inl out \<Rightarrow> Inl out
     | Inr w' \<Rightarrow>
         if w_node w' = ''?''
         then Inl (w_hops w' @ [final_hop w' ''drop'' ''next-hop not in inventory''], False) else Inr w')"
  by (simp add: trace_step_def phase_def)

lemma trace_step_Inr:
  assumes "trace_step rng ask m dst w = Inr w'"
  obtains h st where "w' = next_hop w (hop_target m h) st h" "hop_of w h" "hop_target m h \<noteq> ''?''"
proof -
  from assms have "phase rng ask m dst w = Inr w'" "w_node w' \<noteq> ''?''"
    by (auto simp: trace_step_cases split: if_splits sum.splits)
  moreover from this obtain h st where "w' = next_hop w (hop_target m h) st h" "hop_of w h"
    using phase_Inr extends_def by blast
  ultimately show ?thesis using that by (simp add: next_hop_def)
qed

lemma trace_step_Inl:
  assumes "trace_step rng ask m dst w = Inl out"
  obtains (dest) d where "out = (w_hops w @ [final_hop w ''dest'' d], True)"
      "get_or '''' m dst = w_node w" "w_stack w = []"
    | (drop) d where "out = (w_hops w @ [final_hop w ''drop'' d], False)"
    | (unknown) h st w' d where "w' = next_hop w (hop_target m h) st h" "hop_of w h"
      "out = (w_hops w' @ [final_hop w' ''drop'' d], False)"
proof (cases "get_or '''' m dst = w_node w \<and> w_stack w = []")
  case True
  with assms dest show ?thesis by (auto simp: trace_step_cases)
next
  case False
  show ?thesis
  proof (cases "phase rng ask m dst w")
    case (Inl o')
    with False assms have "out = o'" by (simp add: trace_step_cases split: if_splits)
    with phase_Inl [OF Inl] drop show ?thesis by blast
  next
    case (Inr w')
    with False assms have "out = (w_hops w' @ [final_hop w' ''drop'' ''next-hop not in inventory''], False)"
      by (simp add: trace_step_cases split: if_splits)
    with phase_Inr [OF Inr] unknown show ?thesis unfolding extends_def by blast
  qed
qed

text \<open>A walk so far: hops that forward, numbered from 1, each starting where the one before leads.\<close>

fun chain :: "(string, string) gomap \<Rightarrow> string \<Rightarrow> hop list \<Rightarrow> string \<Rightarrow> bool" where
  "chain m a [] b \<longleftrightarrow> a = b"
| "chain m a (h # hs) b \<longleftrightarrow> h_node h = a \<and> chain m (hop_target m h) hs b"

lemma chain_snoc [simp]:
  "chain m a (hs @ [h]) b \<longleftrightarrow> chain m a hs (h_node h) \<and> hop_target m h = b"
  by (induction hs arbitrary: a) auto

definition walk_ok :: "(string, string) gomap \<Rightarrow> string \<Rightarrow> walk \<Rightarrow> bool" where
  "walk_ok m start w \<longleftrightarrow>
     w_seq w = length (w_hops w) + 1 \<and> map h_seq (w_hops w) = [1..<length (w_hops w) + 1] \<and>
     (\<forall>h \<in> set (w_hops w). h_kind h \<in> set fwd_kinds) \<and> chain m start (w_hops w) (w_node w)"

lemma walk_ok_start: "walk_ok m start (walk_start start)"
  by (simp add: walk_ok_def walk_start_def)

lemma walk_ok_next:
  "walk_ok m start w \<Longrightarrow> hop_of w h \<Longrightarrow> walk_ok m start (next_hop w (hop_target m h) st h)"
  by (simp add: walk_ok_def hop_of_def next_hop_def)

text \<open>The result: the hops of a walk, at most \<open>k\<close> more than before, then at most one closing hop.\<close>

definition outcome_ok :: "(string, string) gomap \<Rightarrow> string \<Rightarrow> nat \<Rightarrow> outcome \<Rightarrow> bool" where
  "outcome_ok m start n out \<longleftrightarrow>
     (\<exists>w end. walk_ok m start w \<and> length (w_hops w) \<le> n \<and> fst out = w_hops w @ end \<and>
        (end = [] \<and> \<not> snd out \<or>
         (\<exists>k d. end = [final_hop w k d] \<and> k = (if snd out then ''dest'' else ''drop''))))"

lemma outcome_okI:
  "walk_ok m start w \<Longrightarrow> length (w_hops w) \<le> n \<Longrightarrow> k = (if r then ''dest'' else ''drop'') \<Longrightarrow>
    outcome_ok m start n (w_hops w @ [final_hop w k d], r)"
  unfolding outcome_ok_def by (intro exI [of _ w] exI [of _ "[final_hop w k d]"]) auto

lemma trace_loop_ok:
  "walk_ok m start w \<Longrightarrow> length (w_hops w) + k \<le> n \<Longrightarrow>
    outcome_ok m start n (trace_loop rng ask m dst i k w)"
proof (induction k arbitrary: i w)
  case 0
  then show ?case unfolding outcome_ok_def by (intro exI [of _ w] exI [of _ "[]"]) auto
next
  case (Suc k)
  show ?case
  proof (cases "trace_step rng (ask i) m dst w")
    case (Inl out)
    then show ?thesis
    proof (cases rule: trace_step_Inl)
      case (unknown h st w' d)
      have "walk_ok m start w'" "length (w_hops w') \<le> n"
        using walk_ok_next [OF Suc.prems(1) unknown(2)] Suc.prems(2) unknown(1) by (auto simp: next_hop_def)
      with Inl unknown(3) show ?thesis by (auto intro!: outcome_okI)
    qed (use Suc.prems Inl in \<open>auto intro!: outcome_okI\<close>)
  next
    case (Inr w')
    then obtain h st where w': "w' = next_hop w (hop_target m h) st h" "hop_of w h"
      by (rule trace_step_Inr)
    with walk_ok_next [OF Suc.prems(1) w'(2)] Suc.IH [of w'] Suc.prems(2) Inr show ?thesis
      by (simp add: next_hop_def)
  qed
qed

lemma outcome_okD:
  assumes "outcome_ok m start n (hops, r)"
  shows "length hops \<le> n + 1" "map h_seq hops = [1..<length hops + 1]"
    "list_all (\<lambda>h. h_kind h \<in> set fwd_kinds) (butlast hops)" "\<exists>b. chain m start hops b"
    "r \<longleftrightarrow> hops \<noteq> [] \<and> h_kind (last hops) = ''dest''"
    "\<not> r \<Longrightarrow> hops = [] \<or> h_kind (last hops) \<in> set (''drop'' # fwd_kinds)"
proof -
  obtain w rest where w: "walk_ok m start w" "length (w_hops w) \<le> n" "hops = w_hops w @ rest"
      "rest = [] \<and> \<not> r \<or> (\<exists>k d. rest = [final_hop w k d] \<and> k = (if r then ''dest'' else ''drop''))"
    using assms by (auto simp: outcome_ok_def)
  note ok = w(1) [unfolded walk_ok_def]
  have last_kind: "h_kind (last (w_hops w)) \<in> set fwd_kinds" if "w_hops w \<noteq> []"
    using ok that by simp
  have neq: "''dest'' \<notin> set fwd_kinds" by (simp add: fwd_kinds_def)
  show "length hops \<le> n + 1" "map h_seq hops = [1..<length hops + 1]" "\<exists>b. chain m start hops b"
      "list_all (\<lambda>h. h_kind h \<in> set fwd_kinds) (butlast hops)"
    using w ok by (auto simp: final_hop_def butlast_append list_all_iff dest: in_set_butlastD)
  show "r \<longleftrightarrow> hops \<noteq> [] \<and> h_kind (last hops) = ''dest''"
    using w(3,4) last_kind neq by (cases "w_hops w = []") (auto simp: final_hop_def split: if_splits)
  show "hops = [] \<or> h_kind (last hops) \<in> set (''drop'' # fwd_kinds)" if "\<not> r"
    using w(3,4) last_kind that by (cases "w_hops w = []") (auto simp: final_hop_def)
qed

lemma trace_path_ok: "outcome_ok m start 24 (trace_path rng ask m start dst)"
  unfolding trace_path_def by (intro trace_loop_ok walk_ok_start) (simp add: walk_start_def)

text \<open>
  C29: whatever the nodes answer, and however the answers change during the trace, a trace ends with at
  most 25 hops, numbered from 1; the first hop is at the start node and every later hop is at the node
  the one before leads to; only the last hop closes the trace, and the destination is reported as
  reached exactly when it is a \<^verbatim>\<open>dest\<close> hop.
\<close>

theorem trace_wellformed:
  "let (hops, reached) = trace_path rng ask m start dst
   in length hops \<le> 25 \<and> map h_seq hops = [1..<length hops + 1] \<and> (\<exists>b. chain m start hops b) \<and>
      list_all (\<lambda>h. h_kind h \<in> set fwd_kinds) (butlast hops) \<and>
      reached = (hops \<noteq> [] \<and> h_kind (last hops) = ''dest'')"
proof (cases "trace_path rng ask m start dst")
  case (Pair hops reached)
  with trace_path_ok [of m start rng ask dst] have "outcome_ok m start 24 (hops, reached)" by simp
  from outcome_okD [OF this] Pair show ?thesis by simp
qed


section \<open>The route of a destination\<close>

text \<open>The entries of the map \<^verbatim>\<open>byPfx\<close>: those of a prefix are folded from its answers.\<close>

definition ent0 :: ent where
  "ent0 = \<lparr>en_vrf = '''', en_nh = '''', en_lbl = ''''\<rparr>"

definition ent_step :: "ent \<Rightarrow> answer \<Rightarrow> ent" where
  "ent_step e u =
     (let (keys, leaf) = dissect (fst u)
      in if leaf = ''next-hop'' then e\<lparr>en_nh := sval (snd u), en_vrf := get_or '''' keys ''name''\<rparr>
         else if leaf = ''pushed-mpls-label-stack'' then e\<lparr>en_lbl := sval (snd u)\<rparr> else e)"

definition ans_pfx :: "answer \<Rightarrow> string" where
  "ans_pfx u = get_or '''' (fst (dissect (fst u))) ''prefix''"

lemma byPfx_put_eq:
  "byPfx_put u m =
    (if ans_pfx u = '''' then m else map_put (ans_pfx u) (ent_step (get_or ent0 m (ans_pfx u)) u) m)"
  by (auto simp: byPfx_put_def ans_pfx_def ent_step_def ent0_def Let_def split_beta)

lemma map_of_byPfx_gen:
  "map_of (foldl (\<lambda>m u. byPfx_put u m) m ups) pfx =
    (if pfx = '''' \<or> filter (\<lambda>u. ans_pfx u = pfx) ups = [] then map_of m pfx
     else Some (foldl ent_step (get_or ent0 m pfx) (filter (\<lambda>u. ans_pfx u = pfx) ups)))"
  by (induction ups arbitrary: m) (auto simp: byPfx_put_eq get_or_def)

lemma map_of_byPfx:
  "map_of (byPfx ups) pfx =
    (let us = filter (\<lambda>u. ans_pfx u = pfx) ups
     in if pfx = '''' \<or> us = [] then None else Some (foldl ent_step ent0 us))"
  by (simp add: byPfx_def map_of_byPfx_gen Let_def get_or_def)

lemma byPfx_ok: "gomap_ok (byPfx ups)"
proof -
  have "gomap_ok m \<Longrightarrow> gomap_ok (foldl (\<lambda>m u. byPfx_put u m) m ups)" for m
    by (induction ups arbitrary: m) (auto simp: byPfx_put_eq gomap_ok_put)
  then show ?thesis by (simp add: byPfx_def)
qed

text \<open>The entries that match a destination, with their prefix length.\<close>

definition ent_match :: "ip \<Rightarrow> string \<Rightarrow> ent \<Rightarrow> nat option" where
  "ent_match di pfx e =
     (if en_nh e = '''' \<and> en_lbl e = '''' then None
      else case parse_cidr4 pfx of
             None \<Rightarrow> None
           | Some net \<Rightarrow> if net_contains net di then Some (snd net) else None)"

lemma best_step_eq:
  "best_step di (best, r) (pfx, e) =
    (case ent_match di pfx e of
       None \<Rightarrow> (best, r)
     | Some n \<Rightarrow> if best < int n then (int n, (en_vrf e, pfx, en_nh e, en_lbl e)) else (best, r))"
  by (auto simp: best_step_def ent_match_def split: option.splits)

lemma best_fold:
  assumes "foldl (best_step di) (-1, ('''', '''', '''', '''')) es = (best, r)"
  shows "(best = -1 \<and> r = ('''', '''', '''', '''') \<and> (\<forall>(pfx, e) \<in> set es. ent_match di pfx e = None)) \<or>
    (\<exists>(pfx, e) \<in> set es. ent_match di pfx e = Some (nat best) \<and> 0 \<le> best \<and>
       r = (en_vrf e, pfx, en_nh e, en_lbl e) \<and>
       (\<forall>(pfx', e') \<in> set es. \<forall>n. ent_match di pfx' e' = Some n \<longrightarrow> int n \<le> best))"
  using assms
proof (induction es arbitrary: best r rule: rev_induct)
  case (snoc x es)
  obtain b0 r0 where s: "foldl (best_step di) (-1, ('''', '''', '''', '''')) es = (b0, r0)"
    by (rule prod.exhaust)
  obtain pfx e where x: "x = (pfx, e)" by force
  from snoc.prems s x have st: "best_step di (b0, r0) (pfx, e) = (best, r)" by simp
  show ?case
  proof (cases "ent_match di pfx e")
    case None
    with st have "best = b0" "r = r0" by (simp_all add: best_step_eq)
    with snoc.IH [OF s] None x show ?thesis by auto
  next
    case (Some n)
    show ?thesis
    proof (cases "b0 < int n")
      case True
      with st Some have b: "best = int n" "r = (en_vrf e, pfx, en_nh e, en_lbl e)"
        by (simp_all add: best_step_eq)
      have "int k \<le> best" if "(pfx', e') \<in> set (es @ [x])" "ent_match di pfx' e' = Some k" for pfx' e' k
        using snoc.IH [OF s] that True b Some x by (fastforce simp: split_beta)
      with b Some x show ?thesis by (intro disjI2 bexI [of _ x]) auto
    next
      case False
      with st Some have b: "best = b0" "r = r0" by (simp_all add: best_step_eq)
      with False have "0 \<le> b0" by linarith
      with snoc.IH [OF s] obtain y where y: "y \<in> set es"
          "case y of (pfx, e) \<Rightarrow> ent_match di pfx e = Some (nat b0) \<and> 0 \<le> b0 \<and>
            r0 = (en_vrf e, pfx, en_nh e, en_lbl e) \<and>
            (\<forall>(pfx', e') \<in> set es. \<forall>n. ent_match di pfx' e' = Some n \<longrightarrow> int n \<le> b0)"
        by auto
      have "\<forall>(pfx', e') \<in> set (es @ [x]). \<forall>n. ent_match di pfx' e' = Some n \<longrightarrow> int n \<le> b0"
        using y(2) False Some x by (auto simp: split_beta)
      with y b show ?thesis by (intro disjI2 bexI [of _ y]) (simp_all add: split_beta)
    qed
  qed
qed simp

text \<open>The entries of a route table: what the answers give for a prefix.\<close>

lemma routeLookup_cases:
  assumes "mset (rng (byPfx (ask node aftQuery))) = mset (byPfx (ask node aftQuery))"
    and "parse_ip4 dst \<noteq> []" and "routeLookup rng ask node dst = (vrf, pfx, nh, lbl)"
  defines "tbl \<equiv> map_of (byPfx (ask node aftQuery))"
  shows "((vrf, pfx, nh, lbl) = ('''', '''', '''', '''') \<and>
      (\<forall>p e. tbl p = Some e \<longrightarrow> ent_match (parse_ip4 dst) p e = None)) \<or>
    (\<exists>n. tbl pfx = Some \<lparr>en_vrf = vrf, en_nh = nh, en_lbl = lbl\<rparr> \<and>
      ent_match (parse_ip4 dst) pfx \<lparr>en_vrf = vrf, en_nh = nh, en_lbl = lbl\<rparr> = Some n \<and>
      (\<forall>p e k. tbl p = Some e \<longrightarrow> ent_match (parse_ip4 dst) p e = Some k \<longrightarrow> k \<le> n))"
proof -
  let ?m = "byPfx (ask node aftQuery)" and ?di = "parse_ip4 dst"
  have set_eq: "set (rng ?m) = set ?m" using assms(1) by (rule mset_eq_setD)
  have tbl: "tbl p = Some e \<longleftrightarrow> (p, e) \<in> set (rng ?m)" for p e
    by (simp add: tbl_def set_eq byPfx_ok)
  obtain best r where f: "foldl (best_step ?di) (-1, ('''', '''', '''', '''')) (rng ?m) = (best, r)"
    by (rule prod.exhaust)
  with assms(2,3) have r: "r = (vrf, pfx, nh, lbl)" by (simp add: routeLookup_def)
  from best_fold [OF f] show ?thesis
  proof (elim disjE conjE bexE)
    assume "r = ('''', '''', '''', '''')" "\<forall>(pfx, e) \<in> set (rng ?m). ent_match ?di pfx e = None"
    with r tbl show ?thesis by auto
  next
    fix x
    assume x: "x \<in> set (rng ?m)"
      "case x of (pfx, e) \<Rightarrow> ent_match ?di pfx e = Some (nat best) \<and> 0 \<le> best \<and>
        r = (en_vrf e, pfx, en_nh e, en_lbl e) \<and>
        (\<forall>(pfx', e') \<in> set (rng ?m). \<forall>n. ent_match ?di pfx' e' = Some n \<longrightarrow> int n \<le> best)"
    obtain p e where pe: "x = (p, e)" by force
    with x r have e: "p = pfx" "e = \<lparr>en_vrf = vrf, en_nh = nh, en_lbl = lbl\<rparr>" by auto
    have "k \<le> nat best" if "tbl p' = Some e'" "ent_match ?di p' e' = Some k" for p' e' k
      using x(2) pe that tbl by fastforce
    with x pe e tbl show ?thesis by (intro disjI2 exI [of _ "nat best"]) auto
  qed
qed


section \<open>The forwarding relation\<close>

text \<open>A packet is at a node with a stack of labels. \<open>route\<close> gives the route of the destination at a
  node, \<open>lfib\<close> the action for a label.\<close>

type_synonym packet = "string \<times> string list"

inductive fwd ::
    "(string \<Rightarrow> found) \<Rightarrow> (string \<Rightarrow> string \<Rightarrow> string \<times> string \<times> string) \<Rightarrow> (string, string) gomap
      \<Rightarrow> packet \<Rightarrow> packet \<Rightarrow> bool"
  for route lfib m where
  fwd_ip: "route n = (vrf, pfx, nh, labels) \<Longrightarrow> \<not> (nh = '''' \<and> labels = '''' \<and> pfx = '''') \<Longrightarrow>
    nodeOf m nh \<noteq> ''?'' \<Longrightarrow>
    fwd route lfib m (n, []) (nodeOf m nh, if labels = '''' then [] else split_on CHR '','' labels)"
| fwd_swap: "lfib n lab = (out, nh, iface) \<Longrightarrow> out \<noteq> '''' \<Longrightarrow> nodeOf m nh \<noteq> ''?'' \<Longrightarrow>
    fwd route lfib m (n, lab # rest) (nodeOf m nh, split_on CHR '','' out @ rest)"
| fwd_php: "lfib n lab = ('''', nh, iface) \<Longrightarrow> nh \<noteq> '''' \<Longrightarrow> nodeOf m nh \<noteq> ''?'' \<Longrightarrow>
    fwd route lfib m (n, lab # rest) (nodeOf m nh, rest)"
| fwd_vrf: "lfib n lab = ('''', '''', iface) \<Longrightarrow> iface \<noteq> '''' \<Longrightarrow> n \<noteq> ''?'' \<Longrightarrow>
    fwd route lfib m (n, lab # rest) (n, rest)"

inductive_cases fwd_ipE: "fwd route lfib m (n, []) c"
inductive_cases fwd_mplsE: "fwd route lfib m (n, lab # rest) c"

definition packet_of :: "walk \<Rightarrow> packet" where
  "packet_of w = (w_node w, w_stack w)"

text \<open>One step of the relation is one phase of the walk.\<close>

lemma ip_phase_fwd:
  assumes "w_stack w = []"
  shows "fwd (\<lambda>n. routeLookup rng ask n dst) (mplsLookup ask) m (packet_of w) c \<longleftrightarrow>
    (\<exists>w'. ip_phase rng ask m dst w = Inr w' \<and> packet_of w' = c \<and> w_node w' \<noteq> ''?'')"
proof -
  obtain vrf pfx nh labels where r: "routeLookup rng ask (w_node w) dst = (vrf, pfx, nh, labels)"
    by (metis prod_cases4)
  show ?thesis
  proof
    assume "fwd (\<lambda>n. routeLookup rng ask n dst) (mplsLookup ask) m (packet_of w) c"
    with assms r show "\<exists>w'. ip_phase rng ask m dst w = Inr w' \<and> packet_of w' = c \<and> w_node w' \<noteq> ''?''"
      by (auto simp: packet_of_def ip_phase_def next_hop_def Let_def elim!: fwd_ipE)
  next
    assume "\<exists>w'. ip_phase rng ask m dst w = Inr w' \<and> packet_of w' = c \<and> w_node w' \<noteq> ''?''"
    with assms r have "\<not> (nh = '''' \<and> labels = '''' \<and> pfx = '''')" "nodeOf m nh \<noteq> ''?''"
        "c = (nodeOf m nh, if labels = '''' then [] else split_on CHR '','' labels)"
      by (auto simp: packet_of_def ip_phase_def next_hop_def Let_def split: if_splits)
    with fwd_ip [of "\<lambda>n. routeLookup rng ask n dst", OF r] assms
    show "fwd (\<lambda>n. routeLookup rng ask n dst) (mplsLookup ask) m (packet_of w) c"
      by (simp add: packet_of_def)
  qed
qed

lemma mpls_phase_fwd:
  assumes "w_stack w = lab # rest"
  shows "fwd route (mplsLookup ask) m (packet_of w) c \<longleftrightarrow>
    (\<exists>w'. mpls_phase ask m lab rest w = Inr w' \<and> packet_of w' = c \<and> w_node w' \<noteq> ''?'')"
proof -
  obtain out nh iface where l: "mplsLookup ask (w_node w) lab = (out, nh, iface)"
    by (metis prod_cases3)
  show ?thesis
  proof
    assume "fwd route (mplsLookup ask) m (packet_of w) c"
    with assms l show "\<exists>w'. mpls_phase ask m lab rest w = Inr w' \<and> packet_of w' = c \<and> w_node w' \<noteq> ''?''"
      by (auto simp: packet_of_def mpls_phase_def next_hop_def Let_def elim!: fwd_mplsE)
  next
    assume "\<exists>w'. mpls_phase ask m lab rest w = Inr w' \<and> packet_of w' = c \<and> w_node w' \<noteq> ''?''"
    with assms l show "fwd route (mplsLookup ask) m (packet_of w) c"
      by (cases "out = ''''"; cases "nh = ''''")
         (auto simp: packet_of_def mpls_phase_def next_hop_def Let_def split: if_splits intro: fwd.intros)
  qed
qed

lemma phase_fwd:
  "fwd (\<lambda>n. routeLookup rng ask n dst) (mplsLookup ask) m (packet_of w) c \<longleftrightarrow>
    (\<exists>w'. phase rng ask m dst w = Inr w' \<and> packet_of w' = c \<and> w_node w' \<noteq> ''?'')"
  by (cases "w_stack w") (simp_all add: phase_def ip_phase_fwd mpls_phase_fwd)

text \<open>The journey of a packet stops where the destination's address is.\<close>

definition fwd_to ::
    "packet \<Rightarrow> (string \<Rightarrow> found) \<Rightarrow> (string \<Rightarrow> string \<Rightarrow> string \<times> string \<times> string) \<Rightarrow> (string, string) gomap
      \<Rightarrow> packet \<Rightarrow> packet \<Rightarrow> bool" where
  "fwd_to d route lfib m c c' \<longleftrightarrow> c \<noteq> d \<and> fwd route lfib m c c'"

definition dest_of :: "(string, string) gomap \<Rightarrow> string \<Rightarrow> packet" where
  "dest_of m dst = (get_or '''' m dst, [])"

abbreviation (input) steps ::
    "((string \<times> ent) list \<Rightarrow> (string \<times> ent) list) \<Rightarrow> ask \<Rightarrow> (string, string) gomap \<Rightarrow> string
      \<Rightarrow> packet \<Rightarrow> packet \<Rightarrow> bool" where
  "steps rng ask m dst \<equiv>
     fwd_to (dest_of m dst) (\<lambda>n. routeLookup rng ask n dst) (mplsLookup ask) m"

lemma trace_step_fwd:
  "steps rng ask m dst (packet_of w) c \<longleftrightarrow> (\<exists>w'. trace_step rng ask m dst w = Inr w' \<and> packet_of w' = c)"
  unfolding fwd_to_def phase_fwd
  by (auto simp: trace_step_cases dest_of_def packet_of_def split: sum.splits)

lemma trace_step_det:
  "trace_step rng ask m dst w = Inr w' \<Longrightarrow> steps rng ask m dst (packet_of w) c \<longleftrightarrow> c = packet_of w'"
  by (auto simp: trace_step_fwd)

lemma trace_step_stuck:
  "trace_step rng ask m dst w = Inl out \<Longrightarrow> \<not> steps rng ask m dst (packet_of w) c"
  by (auto simp: trace_step_fwd)

lemma trace_step_reached:
  "trace_step rng ask m dst w = Inl (hs, True) \<longleftrightarrow>
    packet_of w = dest_of m dst \<and> hs = w_hops w @ [final_hop w ''dest'' (''destination '' @ dst @ '' reached'')]"
  using phase_Inl [of rng ask m dst w]
  by (auto simp: trace_step_cases dest_of_def packet_of_def split: sum.splits)

lemma relpowp_step:
  "(\<And>c'. r c c' \<longleftrightarrow> c' = d) \<Longrightarrow> (r ^^ Suc n) c e \<longleftrightarrow> (r ^^ n) d e"
  by (auto dest: relpowp_Suc_D2 intro: relpowp_Suc_I2 simp del: relpowp.simps)

lemma relpowp_stuck:
  "(\<And>c'. \<not> r c c') \<Longrightarrow> (r ^^ n) c e \<longleftrightarrow> n = 0 \<and> c = e"
  by (cases n) (auto dest: relpowp_Suc_D2 simp del: relpowp.simps(2))

lemma trace_loop_reached:
  "snd (trace_loop rng (\<lambda>_. ask) m dst i k w) \<longleftrightarrow>
    (\<exists>n < k. (steps rng ask m dst ^^ n) (packet_of w) (dest_of m dst))"
proof (induction k arbitrary: i w)
  case (Suc k)
  show ?case
  proof (cases "trace_step rng ask m dst w")
    case (Inl out)
    then have "(\<exists>n < Suc k. (steps rng ask m dst ^^ n) (packet_of w) (dest_of m dst)) \<longleftrightarrow>
        packet_of w = dest_of m dst"
      by (auto simp: relpowp_stuck trace_step_stuck)
    moreover have "snd out \<longleftrightarrow> packet_of w = dest_of m dst"
      using Inl trace_step_reached [of rng ask m dst w "fst out"]
      by (cases out; cases "snd out") (auto simp: trace_step_cases dest_of_def packet_of_def)
    ultimately show ?thesis using Inl by simp
  next
    case (Inr w')
    note step = relpowp_step [of "steps rng ask m dst" "packet_of w", OF trace_step_det [OF Inr]]
    have ne: "packet_of w \<noteq> dest_of m dst"
      using Inr by (auto simp: trace_step_cases dest_of_def packet_of_def)
    have "(\<exists>n < Suc k. (steps rng ask m dst ^^ n) (packet_of w) (dest_of m dst)) \<longleftrightarrow>
        (\<exists>n < k. (steps rng ask m dst ^^ n) (packet_of w') (dest_of m dst))"
      using ne by (simp add: Ex_less_Suc2 step del: relpowp.simps(2))
    with Suc.IH [of "Suc i" w'] Inr show ?thesis by simp
  qed
qed simp

lemma trace_loop_prefix: "prefix (w_hops w) (fst (trace_loop rng ask m dst i k w))"
proof (induction k arbitrary: i w)
  case (Suc k)
  show ?case
  proof (cases "trace_step rng (ask i) m dst w")
    case (Inl out)
    then have "prefix (w_hops w) (fst out)" by (cases rule: trace_step_Inl) (auto simp: next_hop_def)
    with Inl show ?thesis by simp
  next
    case (Inr w')
    with Suc.IH [of w' "Suc i"] show ?thesis
      by (auto simp: next_hop_def elim!: trace_step_Inr dest: append_prefixD)
  qed
qed simp

text \<open>The number of hops: one for every step of the journey, when all 24 iterations are used.\<close>

lemma trace_loop_cut_off:
  "(\<exists>hs. trace_loop rng (\<lambda>_. ask) m dst i k w = (w_hops w @ hs, False) \<and> length hs = k \<and>
      list_all (\<lambda>h. h_kind h \<in> set fwd_kinds) hs) \<longleftrightarrow>
    (\<exists>c. (steps rng ask m dst ^^ k) (packet_of w) c)"
proof (induction k arbitrary: i w)
  case (Suc k)
  show ?case
  proof (cases "trace_step rng ask m dst w")
    case (Inl out)
    then have "\<not> (\<exists>c. (steps rng ask m dst ^^ Suc k) (packet_of w) c)"
      by (auto simp: relpowp_stuck trace_step_stuck simp del: relpowp.simps)
    moreover have "\<not> (\<exists>hs. out = (w_hops w @ hs, False) \<and> list_all (\<lambda>h. h_kind h \<in> set fwd_kinds) hs)"
      using Inl
      by (cases rule: trace_step_Inl) (auto simp: final_hop_def fwd_kinds_def next_hop_def)
    ultimately show ?thesis using Inl by auto
  next
    case (Inr w')
    then obtain h st where w': "w' = next_hop w (hop_target m h) st h" "hop_of w h"
      by (rule trace_step_Inr)
    note step = relpowp_step [of "steps rng ask m dst" "packet_of w", OF trace_step_det [OF Inr]]
    have "(\<exists>hs. trace_loop rng (\<lambda>_. ask) m dst (Suc i) k w' = (w_hops w @ hs, False) \<and>
          length hs = Suc k \<and> list_all (\<lambda>h. h_kind h \<in> set fwd_kinds) hs) \<longleftrightarrow>
        (\<exists>hs. trace_loop rng (\<lambda>_. ask) m dst (Suc i) k w' = (w_hops w' @ hs, False) \<and>
          length hs = k \<and> list_all (\<lambda>h. h_kind h \<in> set fwd_kinds) hs)" (is "?L \<longleftrightarrow> ?R")
    proof
      assume ?L
      then obtain hs where hs: "trace_loop rng (\<lambda>_. ask) m dst (Suc i) k w' = (w_hops w @ hs, False)"
          "length hs = Suc k" "list_all (\<lambda>h. h_kind h \<in> set fwd_kinds) hs" by blast
      obtain rest where "w_hops w @ hs = w_hops w' @ rest"
        using trace_loop_prefix hs(1) by (metis fst_conv prefixE)
      with w' hs show ?R by (intro exI [of _ rest]) (auto simp: next_hop_def)
    next
      assume ?R
      with w' show ?L by (auto simp: next_hop_def hop_of_def)
    qed
    with Suc.IH [of "Suc i" w'] Inr step show ?thesis by (simp del: relpowp.simps)
  qed
qed simp

text \<open>
  C30: on forwarding tables that do not change, a trace reports the destination as reached exactly when
  a packet for it, forwarded from the start node by IP route and label, arrives unlabelled at the
  node that has the address, within 23 hops. So the trace never claims a path that does not exist,
  and it finds every path that short.
\<close>

theorem trace_reaches_iff:
  "snd (trace_path rng (\<lambda>_. ask) m start dst) \<longleftrightarrow>
    (\<exists>n < 24. (fwd_to (dest_of m dst) (\<lambda>n. routeLookup rng ask n dst) (mplsLookup ask) m ^^ n)
       (start, []) (dest_of m dst))"
  unfolding trace_path_def trace_loop_reached by (simp add: packet_of_def walk_start_def)

text \<open>
  C31: a trace that neither arrives nor is dropped is cut off: it lists 24 forwarding hops and is
  reported as not reached exactly when the packet is forwarded 24 times. In particular it always
  returns on a forwarding loop.
\<close>

theorem trace_cut_off_iff:
  "(\<exists>hs. trace_path rng (\<lambda>_. ask) m start dst = (hs, False) \<and> length hs = 24 \<and>
      list_all (\<lambda>h. h_kind h \<in> set fwd_kinds) hs) \<longleftrightarrow>
    (\<exists>c. (fwd_to (dest_of m dst) (\<lambda>n. routeLookup rng ask n dst) (mplsLookup ask) m ^^ 24) (start, []) c)"
  using trace_loop_cut_off [of rng ask m dst 0 24 "walk_start start"]
  unfolding trace_path_def by (simp add: packet_of_def walk_start_def)

end
