(* ===== verification/Network.thy ===== *)
theory Network
  imports Fpm_Props Netlink_Props Pathtrace_Props
begin

text \<open>
  The composition of the collector and the path trace: what the FPM and the kernel ingesters of the
  nodes put into their caches is what the trace reads back through Get, so that a trace follows the
  forwarding tables of the network. The route table of a node is the abstract relation \<open>fib_route\<close>
  over its cache, the label table \<open>lfib_row\<close>; \<open>net_fwd\<close> forwards a packet by longest prefix match
  and by label over them, without reference to the code of the exporter.
\<close>

section \<open>Route tables\<close>

text \<open>An IPv4 network as zebra sends it, with no bits beyond the prefix length, and its text.\<close>

definition net_ok :: "ip \<Rightarrow> nat \<Rightarrow> bool" where
  "net_ok b n \<longleftrightarrow> length b = 4 \<and> n \<le> 32 \<and> map2 (\<lambda>x i. x AND cidr_mask n i) b [0, 1, 2, 3] = b"

definition net_text :: "ip \<Rightarrow> nat \<Rightarrow> string" where
  "net_text b n = dotted b @ ''/'' @ dec n"

lemma parse_net_text: "net_ok b n \<Longrightarrow> parse_cidr4 (net_text b n) = Some (b, n)"
  unfolding net_text_def by (subst parse_cidr4_print) (simp_all add: net_ok_def)

lemma net_text_inj: "net_ok b n \<Longrightarrow> net_ok b' n' \<Longrightarrow> net_text b n = net_text b' n' \<longleftrightarrow> b = b' \<and> n = n'"
  by (metis option.inject parse_net_text prod.inject)

lemma net_text_not_Nil [simp]: "net_text b n \<noteq> []"
  by (simp add: net_text_def)

text \<open>Two networks of the same length that contain an address are the same.\<close>

lemma net_contains_unique:
  assumes "net_ok b n" "net_ok b' n" "net_contains (b, n) a" "net_contains (b', n) a"
  shows "b = b'"
proof -
  have nth: "c ! i = a ! i AND cidr_mask n i" if "net_ok c n" "net_contains (c, n) a" "i < 4" for c i
  proof -
    have "length c = 4" using that(1) by (simp add: net_ok_def)
    then obtain w x y z where c: "c = [w, x, y, z]" by (rule length_4E)
    from that have "i \<in> {0, 1, 2, 3}" by auto
    with that c show ?thesis by (auto simp: net_ok_def net_contains_def)
  qed
  show ?thesis
  proof (rule nth_equalityI)
    show "length b = length b'" using assms by (simp add: net_ok_def)
    show "b ! i = b' ! i" if "i < length b" for i
      using nth [of b i] nth [of b' i] assms that by (simp add: net_ok_def)
  qed
qed

definition ipv4 :: string where
  "ipv4 = ''ipv4-unicast''"

text \<open>A route of a cache: the next hop and the labels of its row. \<open>fib_ok\<close> holds of a cache whose IPv4
  forwarding entries were written by the FPM ingester, when no prefix is in two VRFs.\<close>

definition fib_route :: "store \<Rightarrow> string \<Rightarrow> ip \<Rightarrow> nat \<Rightarrow> string \<Rightarrow> string \<Rightarrow> bool" where
  "fib_route st vrf b n nh lbl \<longleftrightarrow>
     net_ok b n \<and> fst (aft_table st (vrf, ipv4, net_text b n)) = Some (StringVal nh) \<and>
     lbl = sval (snd (aft_table st (vrf, ipv4, net_text b n)))"

definition aft_shaped :: "store \<Rightarrow> bool" where
  "aft_shaped st \<longleftrightarrow>
     (\<forall>q v. store_look st ''openconfig'' q = Some v \<and> path_match (gp_elem aftQuery) q \<longrightarrow>
        (\<exists>vrf b n leaf t. q = aftPath vrf ipv4 (net_text b n) leaf \<and> net_ok b n \<and>
           leaf \<in> {''next-hop'', ''pushed-mpls-label-stack''} \<and>
           v = StringVal t \<and> t \<noteq> [] \<and> (leaf \<noteq> ''next-hop'' \<longrightarrow> CHR ''*'' \<notin> set t))) \<and>
     (\<forall>vrf b n. net_ok b n \<longrightarrow> fst (aft_table st (vrf, ipv4, net_text b n)) = None \<longrightarrow>
        snd (aft_table st (vrf, ipv4, net_text b n)) = None)"

definition one_vrf :: "store \<Rightarrow> bool" where
  "one_vrf st \<longleftrightarrow>
     (\<forall>vrf vrf' pfx. fst (aft_table st (vrf, ipv4, pfx)) \<noteq> None \<longrightarrow>
        fst (aft_table st (vrf', ipv4, pfx)) \<noteq> None \<longrightarrow> vrf = vrf')"

definition lpm :: "store \<Rightarrow> ip \<Rightarrow> found \<Rightarrow> bool" where
  "lpm st a r \<longleftrightarrow>
     (\<exists>vrf b n nh lbl. r = (vrf, net_text b n, nh, lbl) \<and> fib_route st vrf b n nh lbl \<and>
        net_contains (b, n) a \<and>
        (\<forall>vrf' b' n' nh' lbl'. fib_route st vrf' b' n' nh' lbl' \<longrightarrow> net_contains (b', n') a \<longrightarrow> n' \<le> n))"

lemma fib_route_fun:
  assumes "one_vrf st" "fib_route st vrf b n nh lbl" "fib_route st vrf' b n nh' lbl'"
  shows "vrf' = vrf \<and> nh' = nh \<and> lbl' = lbl"
proof -
  from assms have "vrf' = vrf" unfolding one_vrf_def fib_route_def by blast
  with assms show ?thesis by (simp add: fib_route_def)
qed

lemma lpm_fun:
  assumes "one_vrf st" "lpm st a r" "lpm st a r'"
  shows "r = r'"
proof -
  from assms(2) obtain vrf b n nh lbl where 1: "r = (vrf, net_text b n, nh, lbl)" "fib_route st vrf b n nh lbl"
      "net_contains (b, n) a"
      "\<And>vrf' b' n' nh' lbl'. fib_route st vrf' b' n' nh' lbl' \<Longrightarrow> net_contains (b', n') a \<Longrightarrow> n' \<le> n"
    unfolding lpm_def by blast
  from assms(3) obtain vrf' b' n' nh' lbl' where 2: "r' = (vrf', net_text b' n', nh', lbl')"
      "fib_route st vrf' b' n' nh' lbl'" "net_contains (b', n') a"
      "\<And>vrf b n nh lbl. fib_route st vrf b n nh lbl \<Longrightarrow> net_contains (b, n) a \<Longrightarrow> n \<le> n'"
    unfolding lpm_def by blast
  have n: "n' = n" using 1(4) [OF 2(2,3)] 2(4) [OF 1(2,3)] by simp
  with 1 2 net_contains_unique [of b n b' a] have "b' = b" by (simp add: fib_route_def)
  with n 1 2 fib_route_fun [OF assms(1) 1(2)] show ?thesis by blast
qed

lemma aft_shaped_row:
  assumes "aft_shaped st" "net_ok b n"
    and "store_look st ''openconfig'' (aftPath vrf ipv4 (net_text b n) ''pushed-mpls-label-stack'') \<noteq> None"
  shows "store_look st ''openconfig'' (aftPath vrf ipv4 (net_text b n) ''next-hop'') \<noteq> None"
proof
  assume "store_look st ''openconfig'' (aftPath vrf ipv4 (net_text b n) ''next-hop'') = None"
  then have "fst (aft_table st (vrf, ipv4, net_text b n)) = None" by (simp add: aft_table_def)
  with assms(1,2) have "snd (aft_table st (vrf, ipv4, net_text b n)) = None"
    unfolding aft_shaped_def by blast
  with assms(3) show False by (simp add: aft_table_def)
qed

text \<open>What the exporter's map holds, given the answer of the node: exactly the routes of its cache.\<close>

lemma dissect_aftPath:
  "dissect (Some (aftPath vrf ipv4 pfx leaf)) = ([(''name'', vrf), (''prefix'', pfx)], leaf)"
  by (simp add: dissect_def aftPath_def ipv4_def)

lemma aftPath_match: "path_match (gp_elem aftQuery) (aftPath vrf ipv4 pfx leaf)"
  by (simp add: aftQuery_def aftPath_def ipv4_def)

lemma ent_fold:
  assumes "\<And>u. u \<in> set us \<Longrightarrow> snd (dissect (fst u)) = ''next-hop'' \<Longrightarrow>
      sval (snd u) = nh \<and> get_or '''' (fst (dissect (fst u))) ''name'' = vrf"
    and "\<And>u. u \<in> set us \<Longrightarrow> snd (dissect (fst u)) = ''pushed-mpls-label-stack'' \<Longrightarrow> sval (snd u) = lbl"
  shows "foldl ent_step e us =
    \<lparr>en_vrf = (if \<exists>u \<in> set us. snd (dissect (fst u)) = ''next-hop'' then vrf else en_vrf e),
     en_nh = (if \<exists>u \<in> set us. snd (dissect (fst u)) = ''next-hop'' then nh else en_nh e),
     en_lbl = (if \<exists>u \<in> set us. snd (dissect (fst u)) = ''pushed-mpls-label-stack'' then lbl else en_lbl e)\<rparr>"
  using assms
proof (induction us arbitrary: e)
  case (Cons u us)
  then show ?case by (auto simp: ent_step_def split_beta)
qed simp

lemma map_of_byPfx_routes:
  assumes "answers_of st aftQuery ups" "aft_shaped st" "one_vrf st"
  shows "map_of (byPfx ups) p = Some e \<longleftrightarrow>
    (\<exists>vrf b n nh lbl. p = net_text b n \<and> fib_route st vrf b n nh lbl \<and>
       e = \<lparr>en_vrf = vrf, en_nh = nh, en_lbl = lbl\<rparr>)"
proof -
  define us where "us = filter (\<lambda>u. ans_pfx u = p) ups"
  let ?nh = "''next-hop''" and ?lb = "''pushed-mpls-label-stack''"
  have leafD: "\<exists>vrf b n leaf t. u = (Some (aftPath vrf ipv4 p leaf), Some (StringVal t)) \<and> p = net_text b n \<and>
      net_ok b n \<and> leaf \<in> {?nh, ?lb} \<and> store_look st ''openconfig'' (aftPath vrf ipv4 p leaf) = Some (StringVal t)"
    if "u \<in> set us" for u
  proof -
    from that have "u \<in> set ups" and p: "ans_pfx u = p" by (simp_all add: us_def)
    from assms(1) this(1) obtain q v where q: "u = (Some q, Some v)"
        "store_look st ''openconfig'' q = Some v" "path_match (gp_elem aftQuery) q"
      by (rule answers_ofD) (simp add: aftQuery_def)
    with assms(2) obtain vrf b n leaf t where "q = aftPath vrf ipv4 (net_text b n) leaf" "net_ok b n"
        "v = StringVal t" "leaf \<in> {?nh, ?lb}" unfolding aft_shaped_def by blast
    with q p show ?thesis by (auto simp: ans_pfx_def dissect_aftPath get_or_def)
  qed
  have leafI: "(Some (aftPath vrf ipv4 p leaf), Some v) \<in> set us"
    if "store_look st ''openconfig'' (aftPath vrf ipv4 p leaf) = Some v" for vrf leaf v
    using that answers_ofI [OF assms(1) _ aftPath_match]
    by (auto simp: us_def ans_pfx_def dissect_aftPath get_or_def aftQuery_def)
  show ?thesis
  proof (cases "us = []")
    case True
    then have "map_of (byPfx ups) p = None" by (simp add: map_of_byPfx us_def Let_def)
    moreover have "\<not> fib_route st vrf b n nh lbl" if "p = net_text b n" for vrf b n nh lbl
      using leafI [of vrf ?nh] True that by (auto simp: fib_route_def aft_table_def)
    ultimately show ?thesis by auto
  next
    case False
    then have u0: "hd us \<in> set us" by simp
    from leafD [OF u0] obtain vrf b n leaf0 t0 where hd: "p = net_text b n" "net_ok b n"
        "hd us = (Some (aftPath vrf ipv4 p leaf0), Some (StringVal t0))" by blast
    have row: "\<exists>nh. store_look st ''openconfig'' (aftPath vrf' ipv4 p ?nh) = Some (StringVal nh)"
      if "(Some (aftPath vrf' ipv4 p leaf), Some v) \<in> set us" for vrf' leaf v
    proof -
      from leafD [OF that] have "store_look st ''openconfig'' (aftPath vrf' ipv4 p leaf) \<noteq> None"
          "leaf = ?nh \<or> leaf = ?lb" by auto
      with aft_shaped_row [OF assms(2) hd(2), of vrf'] hd(1)
      have "store_look st ''openconfig'' (aftPath vrf' ipv4 p ?nh) \<noteq> None" by blast
      then obtain v where "store_look st ''openconfig'' (aftPath vrf' ipv4 p ?nh) = Some v" by blast
      with leafD [OF leafI [OF this]] show ?thesis by auto
    qed
    from row [OF u0 [unfolded hd(3)]] obtain nh where nh:
        "store_look st ''openconfig'' (aftPath vrf ipv4 p ?nh) = Some (StringVal nh)" by blast
    have same: "vrf' = vrf" if "(Some (aftPath vrf' ipv4 p leaf), Some v) \<in> set us" for vrf' leaf v
    proof -
      from row [OF that] nh have "fst (aft_table st (vrf', ipv4, p)) \<noteq> None" "fst (aft_table st (vrf, ipv4, p)) \<noteq> None"
        by (auto simp: aft_table_def)
      with assms(3) show ?thesis unfolding one_vrf_def by blast
    qed
    define lbl where "lbl = sval (store_look st ''openconfig'' (aftPath vrf ipv4 p ?lb))"
    have route: "fib_route st vrf b n nh lbl"
      using hd nh by (simp add: fib_route_def aft_table_def lbl_def)
    have "foldl ent_step ent0 us = \<lparr>en_vrf = vrf, en_nh = nh, en_lbl = lbl\<rparr>"
    proof (subst ent_fold [where nh = nh and vrf = vrf and lbl = lbl])
      fix u assume u: "u \<in> set us"
      from leafD [OF u] obtain vrf' leaf t where u': "u = (Some (aftPath vrf' ipv4 p leaf), Some (StringVal t))"
          "store_look st ''openconfig'' (aftPath vrf' ipv4 p leaf) = Some (StringVal t)" by blast
      with same u have v: "vrf' = vrf" by blast
      show "sval (snd u) = nh \<and> get_or '''' (fst (dissect (fst u))) ''name'' = vrf"
        if "snd (dissect (fst u)) = ?nh"
        using that u' v nh by (simp add: dissect_aftPath get_or_def sval_def)
      show "sval (snd u) = lbl" if "snd (dissect (fst u)) = ?lb"
        using that u' v by (simp add: dissect_aftPath lbl_def)
    next
      have "\<exists>u \<in> set us. snd (dissect (fst u)) = ?nh"
        using leafI [OF nh] by (force simp: dissect_aftPath)
      moreover have "lbl = []" if "\<not> (\<exists>u \<in> set us. snd (dissect (fst u)) = ?lb)"
      proof -
        have "store_look st ''openconfig'' (aftPath vrf ipv4 p ?lb) = None"
        proof (rule ccontr)
          assume "store_look st ''openconfig'' (aftPath vrf ipv4 p ?lb) \<noteq> None"
          then obtain v where "(Some (aftPath vrf ipv4 p ?lb), Some v) \<in> set us" using leafI by blast
          with that show False by (force simp: dissect_aftPath)
        qed
        then show ?thesis by (simp add: lbl_def sval_def)
      qed
      ultimately show "\<lparr>en_vrf = if \<exists>u \<in> set us. snd (dissect (fst u)) = ?nh then vrf else en_vrf ent0,
          en_nh = if \<exists>u \<in> set us. snd (dissect (fst u)) = ?nh then nh else en_nh ent0,
          en_lbl = if \<exists>u \<in> set us. snd (dissect (fst u)) = ?lb then lbl else en_lbl ent0\<rparr> =
        \<lparr>en_vrf = vrf, en_nh = nh, en_lbl = lbl\<rparr>" by (auto simp: ent0_def)
    qed
    then have e: "map_of (byPfx ups) p = Some \<lparr>en_vrf = vrf, en_nh = nh, en_lbl = lbl\<rparr>"
      using False hd(1) by (simp add: map_of_byPfx us_def Let_def)
    have uniq: "vrf' = vrf \<and> nh' = nh \<and> lbl' = lbl"
      if "p = net_text b' n'" "fib_route st vrf' b' n' nh' lbl'" for vrf' b' n' nh' lbl'
    proof -
      have "net_text b' n' = net_text b n" "net_ok b' n'" using that hd(1) by (auto simp: fib_route_def)
      with net_text_inj [OF this(2) hd(2)] have "b' = b" "n' = n" by simp_all
      with that(2) fib_route_fun [OF assms(3) route] show ?thesis by blast
    qed
    have "map_of (byPfx ups) p = Some e \<longleftrightarrow> e = \<lparr>en_vrf = vrf, en_nh = nh, en_lbl = lbl\<rparr>"
      using e by auto
    also have "\<dots> \<longleftrightarrow> (\<exists>vrf b n nh lbl. p = net_text b n \<and> fib_route st vrf b n nh lbl \<and>
        e = \<lparr>en_vrf = vrf, en_nh = nh, en_lbl = lbl\<rparr>)" (is "_ = ?R")
    proof
      assume "e = \<lparr>en_vrf = vrf, en_nh = nh, en_lbl = lbl\<rparr>"
      with hd(1) route show ?R by blast
    next
      assume ?R
      with uniq show "e = \<lparr>en_vrf = vrf, en_nh = nh, en_lbl = lbl\<rparr>" by blast
    qed
    finally show ?thesis .
  qed
qed

lemma fib_route_text:
  assumes "aft_shaped st" "fib_route st vrf b n nh lbl"
  shows "nh \<noteq> []" "CHR ''*'' \<notin> set lbl"
proof -
  have shaped: "\<exists>t. v = StringVal t \<and> t \<noteq> [] \<and> (leaf \<noteq> ''next-hop'' \<longrightarrow> CHR ''*'' \<notin> set t)"
    if "store_look st ''openconfig'' (aftPath vrf ipv4 pfx leaf) = Some v" for pfx leaf v
  proof -
    from assms(1) that aftPath_match obtain vrf' b' n' leaf' t where
      "aftPath vrf ipv4 pfx leaf = aftPath vrf' ipv4 (net_text b' n') leaf'" "v = StringVal t" "t \<noteq> []"
      "leaf' \<noteq> ''next-hop'' \<longrightarrow> CHR ''*'' \<notin> set t"
      unfolding aft_shaped_def by blast
    then show ?thesis by simp
  qed
  from assms(2) show "nh \<noteq> []" using shaped by (fastforce simp: fib_route_def aft_table_def)
  let ?v = "store_look st ''openconfig'' (aftPath vrf ipv4 (net_text b n) ''pushed-mpls-label-stack'')"
  show "CHR ''*'' \<notin> set lbl"
  proof (cases ?v)
    case None
    with assms(2) show ?thesis by (simp add: fib_route_def aft_table_def sval_def)
  next
    case (Some v)
    with shaped [OF Some] assms(2) show ?thesis by (auto simp: fib_route_def aft_table_def sval_def)
  qed
qed

lemma ent_match_route:
  assumes "aft_shaped st" "fib_route st vrf b n nh lbl"
  shows "ent_match a (net_text b n) \<lparr>en_vrf = vrf, en_nh = nh, en_lbl = lbl\<rparr> =
    (if net_contains (b, n) a then Some n else None)"
proof -
  have "parse_cidr4 (net_text b n) = Some (b, n)" using assms(2) by (intro parse_net_text) (simp add: fib_route_def)
  with fib_route_text(1) [OF assms] show ?thesis by (simp add: ent_match_def)
qed

text \<open>The route the exporter finds is the longest match among the routes of all VRFs.\<close>

lemma routeLookup_lpm:
  assumes "\<And>m. mset (rng m) = mset m" "answers_of st aftQuery (ask node aftQuery)"
    and "aft_shaped st" "one_vrf st" "length a = 4"
  shows "routeLookup rng ask node (dotted a) = r \<longleftrightarrow>
    (if \<exists>r. lpm st a r then lpm st a r else r = ('''', '''', '''', ''''))"
proof -
  note tbl = map_of_byPfx_routes [OF assms(2,3,4)]
  obtain vrf pfx nh lbl where look: "routeLookup rng ask node (dotted a) = (vrf, pfx, nh, lbl)"
    by (metis prod_cases4)
  have ip: "parse_ip4 (dotted a) = a" "a \<noteq> []" using assms(5) by (auto simp: parse_ip4_dotted)
  have "(\<exists>r. lpm st a r) \<and> lpm st a (vrf, pfx, nh, lbl) \<or>
      (\<nexists>r. lpm st a r) \<and> (vrf, pfx, nh, lbl) = ('''', '''', '''', '''')"
    using routeLookup_cases [where rng = rng and ask = ask and node = node and dst = "dotted a",
        OF assms(1) _ look, unfolded ip(1), OF ip(2)]
  proof (elim disjE conjE exE)
    assume none: "(vrf, pfx, nh, lbl) = ('''', '''', '''', '''')"
      "\<forall>p e. map_of (byPfx (ask node aftQuery)) p = Some e \<longrightarrow> ent_match a p e = None"
    have "\<not> lpm st a r" for r
      using none(2) ent_match_route [OF assms(3)] by (fastforce simp: lpm_def tbl)
    with none(1) show ?thesis by blast
  next
    fix k
    assume e: "map_of (byPfx (ask node aftQuery)) pfx = Some \<lparr>en_vrf = vrf, en_nh = nh, en_lbl = lbl\<rparr>"
      and k: "ent_match a pfx \<lparr>en_vrf = vrf, en_nh = nh, en_lbl = lbl\<rparr> = Some k"
      and max: "\<forall>p e n. map_of (byPfx (ask node aftQuery)) p = Some e \<longrightarrow> ent_match a p e = Some n \<longrightarrow> n \<le> k"
    from e obtain b n where r: "pfx = net_text b n" "fib_route st vrf b n nh lbl" by (auto simp: tbl)
    with k ent_match_route [OF assms(3) r(2)] have k': "net_contains (b, n) a" "k = n"
      by (auto split: if_splits)
    have "n' \<le> n" if "fib_route st vrf' b' n' nh' lbl'" "net_contains (b', n') a" for vrf' b' n' nh' lbl'
    proof -
      have "map_of (byPfx (ask node aftQuery)) (net_text b' n') =
          Some \<lparr>en_vrf = vrf', en_nh = nh', en_lbl = lbl'\<rparr>" using that(1) tbl by blast
      moreover have "ent_match a (net_text b' n') \<lparr>en_vrf = vrf', en_nh = nh', en_lbl = lbl'\<rparr> = Some n'"
        using ent_match_route [OF assms(3) that(1)] that(2) by simp
      ultimately show ?thesis using max k'(2) by blast
    qed
    with r k' have "lpm st a (vrf, pfx, nh, lbl)" unfolding lpm_def by blast
    then show ?thesis by blast
  qed
  then show ?thesis unfolding look using lpm_fun [OF assms(4)] by metis
qed


section \<open>Label tables\<close>

definition lfibElems :: "string \<Rightarrow> string \<Rightarrow> elems" where
  "lfibElems lab leaf = [el ''mpls'', el ''lfib'', elk ''entry'' [(''label'', lab)], el ''state'', el leaf]"

lemma mplsElems_lfib: "leaf \<noteq> [] \<Longrightarrow> mplsElems label leaf = lfibElems (dec (unat label)) leaf"
  by (simp add: mplsElems_def lfibElems_def state_leaf_def)

definition lfib_row :: "store \<Rightarrow> string \<Rightarrow> string \<times> string \<times> string" where
  "lfib_row st lab =
     (sval (store_look st ''frr'' (lfibElems lab ''out-label'')),
      sval (store_look st ''frr'' (lfibElems lab ''next-hop'')),
      sval (store_look st ''frr'' (lfibElems lab ''interface'')))"

text \<open>A cache whose label entries were written by the kernel ingester: text, and no \<^verbatim>\<open>*\<close> in a label.\<close>

definition lfib_leaf :: "elems \<Rightarrow> tval \<Rightarrow> bool" where
  "lfib_leaf q v \<longleftrightarrow>
     (\<exists>lab leaf t. q = lfibElems lab leaf \<and> v = StringVal t \<and> (leaf = ''out-label'' \<longrightarrow> CHR ''*'' \<notin> set t))"

lemma lfib_leafI: "(leaf = ''out-label'' \<Longrightarrow> CHR ''*'' \<notin> set t) \<Longrightarrow> lfib_leaf (lfibElems lab leaf) (StringVal t)"
  by (auto simp: lfib_leaf_def)

definition lfib_shaped :: "store \<Rightarrow> bool" where
  "lfib_shaped st \<longleftrightarrow>
     (\<forall>q v. store_look st ''frr'' q = Some v \<and> path_match (gp_elem (lfibQuery ''*'')) q \<longrightarrow> lfib_leaf q v)"

lemma lfib_match:
  "lab \<noteq> ''*'' \<Longrightarrow> path_match (gp_elem (lfibQuery lab)) (lfibElems lab' leaf) \<longleftrightarrow> lab' = lab"
  "path_match (gp_elem (lfibQuery lab)) q \<Longrightarrow> path_match (gp_elem (lfibQuery ''*'')) q"
  "path_match (gp_elem (lfibQuery ''*'')) (lfibElems lab' leaf)"
  by (auto simp: lfibQuery_def lfibElems_def elim!: path_match.elims)

lemma query_origin [simp]: "gp_origin (lfibQuery lab) = ''frr''" "gp_origin aftQuery = ''openconfig''"
  by (simp_all add: lfibQuery_def aftQuery_def)

lemma dissect_lfib: "dissect (Some (lfibElems lab leaf)) = ([(''label'', lab)], leaf)"
  by (simp add: dissect_def lfibElems_def)

lemma mpls_fold:
  assumes "\<And>u. u \<in> set us \<Longrightarrow> sval (snd u) = f (snd (dissect (fst u)))"
  shows "foldl mpls_step (o0, n0, i0) us =
    (if ''out-label'' \<in> snd ` dissect ` fst ` set us then f ''out-label'' else o0,
     if ''next-hop'' \<in> snd ` dissect ` fst ` set us then f ''next-hop'' else n0,
     if ''interface'' \<in> snd ` dissect ` fst ` set us then f ''interface'' else i0)"
  using assms
proof (induction us arbitrary: o0 n0 i0)
  case (Cons u us)
  then show ?case by (simp add: mpls_step_def Let_def)
qed simp

lemma mplsLookup_row:
  assumes "answers_of st (lfibQuery lab) (ask node (lfibQuery lab))" "lfib_shaped st" "lab \<noteq> ''*''"
  shows "mplsLookup ask node lab = lfib_row st lab"
proof -
  let ?us = "ask node (lfibQuery lab)"
  define f where "f leaf = sval (store_look st ''frr'' (lfibElems lab leaf))" for leaf
  have leafD: "\<exists>leaf v. u = (Some (lfibElems lab leaf), Some v) \<and> store_look st ''frr'' (lfibElems lab leaf) = Some v"
    if "u \<in> set ?us" for u
  proof -
    from assms(1) that obtain q v where q: "u = (Some q, Some v)" "store_look st ''frr'' q = Some v"
        "path_match (gp_elem (lfibQuery lab)) q"
      by (rule answers_ofD) simp
    with assms(2) lfib_match(2) obtain lab' leaf where q': "q = lfibElems lab' leaf"
      unfolding lfib_shaped_def lfib_leaf_def by blast
    with q(3) lfib_match(1) [OF assms(3)] have "lab' = lab" by blast
    with q q' show ?thesis by blast
  qed
  have leafI: "leaf \<in> snd ` dissect ` fst ` set ?us" if "store_look st ''frr'' (lfibElems lab leaf) \<noteq> None" for leaf
  proof -
    from that obtain v where "store_look st ''frr'' (lfibElems lab leaf) = Some v" by blast
    then have "store_look st (gp_origin (lfibQuery lab)) (lfibElems lab leaf) = Some v"
      by (simp only: query_origin)
    from answers_ofI [OF assms(1) this] have "(Some (lfibElems lab leaf), Some v) \<in> set ?us"
      using lfib_match(1) [OF assms(3)] by blast
    then show ?thesis by (force simp: dissect_lfib image_iff)
  qed
  have "sval (snd u) = f (snd (dissect (fst u)))" if "u \<in> set ?us" for u
    using leafD [OF that] by (auto simp: dissect_lfib f_def)
  from mpls_fold [OF this] have "mplsLookup ask node lab =
    (if ''out-label'' \<in> snd ` dissect ` fst ` set ?us then f ''out-label'' else '''',
     if ''next-hop'' \<in> snd ` dissect ` fst ` set ?us then f ''next-hop'' else '''',
     if ''interface'' \<in> snd ` dissect ` fst ` set ?us then f ''interface'' else '''')"
    by (simp add: mplsLookup_def)
  moreover have "(if leaf \<in> snd ` dissect ` fst ` set ?us then f leaf else '''') = f leaf" for leaf
    using leafI [of leaf]
    by (cases "store_look st ''frr'' (lfibElems lab leaf)") (auto simp: f_def sval_def)
  ultimately show ?thesis by (simp only: lfib_row_def f_def)
qed


section \<open>Forwarding over the caches\<close>

text \<open>The forwarding of a packet for the address \<open>a\<close>, by the tables in the nodes' caches.\<close>

inductive net_fwd ::
    "(string \<Rightarrow> store) \<Rightarrow> (string, string) gomap \<Rightarrow> ip \<Rightarrow> packet \<Rightarrow> packet \<Rightarrow> bool"
  for cache m a where
  net_ip: "lpm (cache n) a (vrf, pfx, nh, lbl) \<Longrightarrow> nodeOf m nh \<noteq> ''?'' \<Longrightarrow>
    net_fwd cache m a (n, []) (nodeOf m nh, if lbl = '''' then [] else split_on CHR '','' lbl)"
| net_swap: "lfib_row (cache n) lab = (out, nh, iface) \<Longrightarrow> out \<noteq> '''' \<Longrightarrow> nodeOf m nh \<noteq> ''?'' \<Longrightarrow>
    net_fwd cache m a (n, lab # rest) (nodeOf m nh, split_on CHR '','' out @ rest)"
| net_php: "lfib_row (cache n) lab = ('''', nh, iface) \<Longrightarrow> nh \<noteq> '''' \<Longrightarrow> nodeOf m nh \<noteq> ''?'' \<Longrightarrow>
    net_fwd cache m a (n, lab # rest) (nodeOf m nh, rest)"
| net_vrf: "lfib_row (cache n) lab = ('''', '''', iface) \<Longrightarrow> iface \<noteq> '''' \<Longrightarrow> n \<noteq> ''?'' \<Longrightarrow>
    net_fwd cache m a (n, lab # rest) (n, rest)"

inductive_cases net_fwd_ipE: "net_fwd cache m a (n, []) c"
inductive_cases net_fwd_mplsE: "net_fwd cache m a (n, lab # rest) c"

text \<open>The labels on a packet are never the wildcard.\<close>

definition labels_ok :: "packet \<Rightarrow> bool" where
  "labels_ok c \<longleftrightarrow> ''*'' \<notin> set (snd c)"

lemma split_no_star: "CHR ''*'' \<notin> set s \<Longrightarrow> ''*'' \<notin> set (split_on CHR '','' s)"
  using split_by_parts [of "''*''" "\<lambda>x. x = CHR '',''" s "CHR ''*''"] by (auto simp: split_on_def)

lemma lfib_row_no_star:
  assumes "lfib_shaped st" "lfib_row st lab = (out, nh, iface)"
  shows "CHR ''*'' \<notin> set out"
proof (cases "store_look st ''frr'' (lfibElems lab ''out-label'')")
  case None
  with assms(2) show ?thesis by (auto simp: lfib_row_def sval_def)
next
  case (Some v)
  with assms(1) lfib_match(3) obtain lab' leaf t where "lfibElems lab ''out-label'' = lfibElems lab' leaf"
      "v = StringVal t" "leaf = ''out-label'' \<longrightarrow> CHR ''*'' \<notin> set t"
    unfolding lfib_shaped_def lfib_leaf_def by blast
  then have "v = StringVal t" "CHR ''*'' \<notin> set t" by (simp_all add: lfibElems_def)
  with Some assms(2) show ?thesis by (auto simp: lfib_row_def sval_def)
qed

lemma relpowp_cong_inv:
  assumes "\<And>c c'. ok c \<Longrightarrow> r c c' \<longleftrightarrow> s c c'" "\<And>c c'. ok c \<Longrightarrow> s c c' \<Longrightarrow> ok c'"
  shows "ok c \<Longrightarrow> (r ^^ n) c e \<longleftrightarrow> (s ^^ n) c e"
proof (induction n arbitrary: c)
  case (Suc n)
  show ?case
  proof
    assume "(r ^^ Suc n) c e"
    then obtain d where "r c d" "(r ^^ n) d e" by (blast dest: relpowp_Suc_D2)
    with assms Suc show "(s ^^ Suc n) c e" by (blast intro: relpowp_Suc_I2)
  next
    assume "(s ^^ Suc n) c e"
    then obtain d where "s c d" "(s ^^ n) d e" by (blast dest: relpowp_Suc_D2)
    with assms Suc show "(r ^^ Suc n) c e" by (blast intro: relpowp_Suc_I2)
  qed
qed simp

text \<open>A network whose nodes answer from caches that their ingesters wrote.\<close>

definition served :: "(string \<Rightarrow> store) \<Rightarrow> ask \<Rightarrow> bool" where
  "served cache ask \<longleftrightarrow>
     (\<forall>n. answers_of (cache n) aftQuery (ask n aftQuery) \<and> aft_shaped (cache n) \<and> one_vrf (cache n) \<and>
        lfib_shaped (cache n) \<and>
        (\<forall>lab. lab \<noteq> ''*'' \<longrightarrow> answers_of (cache n) (lfibQuery lab) (ask n (lfibQuery lab))))"

lemma served_route:
  assumes "served cache ask" "\<And>m. mset (rng m) = mset m" "length a = 4"
  shows "routeLookup rng ask n (dotted a) = r \<longleftrightarrow>
    (if \<exists>r. lpm (cache n) a r then lpm (cache n) a r else r = ('''', '''', '''', ''''))"
proof -
  from assms(1) have "answers_of (cache n) aftQuery (ask n aftQuery)" "aft_shaped (cache n)" "one_vrf (cache n)"
    by (auto simp: served_def)
  from routeLookup_lpm [where rng = rng and ask = ask and node = n, OF assms(2) this assms(3)] show ?thesis .
qed

lemma served_label:
  "served cache ask \<Longrightarrow> lab \<noteq> ''*'' \<Longrightarrow> mplsLookup ask n lab = lfib_row (cache n) lab"
  unfolding served_def by (blast intro: mplsLookup_row)

lemma lpm_nonempty: "lpm st a (vrf, pfx, nh, lbl) \<Longrightarrow> pfx \<noteq> []"
  by (auto simp: lpm_def)

lemma served_fwd:
  assumes "served cache ask" "\<And>m. mset (rng m) = mset m" "length a = 4" "labels_ok c"
  shows "fwd (\<lambda>n. routeLookup rng ask n (dotted a)) (mplsLookup ask) m c c' \<longleftrightarrow> net_fwd cache m a c c'"
proof -
  obtain n st where c: "c = (n, st)" by force
  note route = served_route [where rng = rng and ask = ask, OF assms(1,2,3)]
  show ?thesis
  proof (cases st)
    case Nil
    have "fwd (\<lambda>n. routeLookup rng ask n (dotted a)) (mplsLookup ask) m (n, []) c' \<longleftrightarrow>
      (\<exists>vrf pfx nh lbl. routeLookup rng ask n (dotted a) = (vrf, pfx, nh, lbl) \<and>
        \<not> (nh = '''' \<and> lbl = '''' \<and> pfx = '''') \<and> nodeOf m nh \<noteq> ''?'' \<and>
        c' = (nodeOf m nh, if lbl = '''' then [] else split_on CHR '','' lbl))"
      by (blast intro: fwd_ip elim: fwd_ipE)
    also have "\<dots> \<longleftrightarrow> (\<exists>vrf pfx nh lbl. lpm (cache n) a (vrf, pfx, nh, lbl) \<and> nodeOf m nh \<noteq> ''?'' \<and>
        c' = (nodeOf m nh, if lbl = '''' then [] else split_on CHR '','' lbl))"
    proof (cases "\<exists>r. lpm (cache n) a r")
      case True
      then have eq: "routeLookup rng ask n (dotted a) = r \<longleftrightarrow> lpm (cache n) a r" for r
        by (simp only: route if_True)
      show ?thesis unfolding eq using lpm_nonempty by blast
    next
      case False
      then have eq: "routeLookup rng ask n (dotted a) = r \<longleftrightarrow> r = ('''', '''', '''', '''')" for r
        by (simp only: route if_False)
      from False show ?thesis unfolding eq by blast
    qed
    also have "\<dots> \<longleftrightarrow> net_fwd cache m a (n, []) c'"
      by (blast intro: net_ip elim: net_fwd_ipE)
    finally show ?thesis using c Nil by simp
  next
    case (Cons lab rest)
    with c assms(4) have "lab \<noteq> ''*''" by (auto simp: labels_ok_def)
    note label = served_label [OF assms(1) this]
    have "fwd (\<lambda>n. routeLookup rng ask n (dotted a)) (mplsLookup ask) m (n, lab # rest) c' \<longleftrightarrow>
        net_fwd cache m a (n, lab # rest) c'"
      by (auto elim!: fwd_mplsE net_fwd_mplsE simp: label intro: fwd.intros net_fwd.intros)
    with c Cons show ?thesis by simp
  qed
qed

lemma net_fwd_labels:
  assumes "served cache ask" "labels_ok c" "net_fwd cache m a c c'"
  shows "labels_ok c'"
  using assms(3,2)
proof cases
  case (net_ip n vrf pfx nh lbl)
  then obtain b k where "fib_route (cache n) vrf b k nh lbl" by (auto simp: lpm_def)
  with assms(1) have "CHR ''*'' \<notin> set lbl" unfolding served_def by (blast dest: fib_route_text)
  with net_ip show ?thesis by (auto simp: labels_ok_def split_no_star)
next
  case (net_swap n lab out nh iface rest)
  with assms(1) have "CHR ''*'' \<notin> set out" unfolding served_def by (blast dest: lfib_row_no_star)
  with net_swap assms(2) show ?thesis by (auto simp: labels_ok_def split_no_star)
qed (use assms(2) in \<open>auto simp: labels_ok_def\<close>)

text \<open>The ingesters keep the shapes: the FPM ingester for an IPv4 route, the kernel ingester for a
  label entry.\<close>

lemma join_no_star: "\<forall>w \<in> set ws. CHR ''*'' \<notin> set w \<Longrightarrow> CHR ''*'' \<notin> set (join '','' ws)"
  by (induction "'',''" ws rule: join.induct) auto

lemma dec_no_star [simp]: "CHR ''*'' \<notin> set (dec n)" "CHR ''*'' \<notin> set (itoa i)"
  by (auto simp: itoa_def is_digit_def dest!: dec_digits)

lemma join_not_Nil: "ws \<noteq> [] \<Longrightarrow> [] \<notin> set ws \<Longrightarrow> join sep ws \<noteq> []"
  by (induction sep ws rule: join.induct) auto

lemma labelsCSV_text: "CHR ''*'' \<notin> set (labelsCSV ls)" "ls \<noteq> [] \<Longrightarrow> labelsCSV ls \<noteq> []"
proof -
  show "CHR ''*'' \<notin> set (labelsCSV ls)"
    unfolding labelsCSV_join by (rule join_no_star) auto
  have "[] \<notin> set (map (\<lambda>x. dec (unat x)) ls)" using dec_not_Nil by (metis (no_types, lifting) imageE list.set_map)
  then show "labelsCSV ls \<noteq> []" if "ls \<noteq> []"
    unfolding labelsCSV_join using that by (intro join_not_Nil) auto
qed

lemma route_effects_shaped:
  assumes "aft_shaped st" "net_ok b n" "nh \<noteq> []"
  shows "aft_shaped (apply_effs st (route_effects vrf ipv4 (net_text b n) nh labels del))"
proof -
  let ?es = "route_effects vrf ipv4 (net_text b n) nh labels del"
  let ?p = "aftPath vrf ipv4 (net_text b n)"
  have new: "store_look st ''openconfig'' q = Some v \<or>
      q = ?p ''next-hop'' \<and> v = StringVal nh \<or>
      q = ?p ''pushed-mpls-label-stack'' \<and> v = StringVal (labelsCSV labels) \<and> labels \<noteq> []"
    if "store_look (apply_effs st ?es) ''openconfig'' q = Some v" for q v
    using that
    by (auto simp: route_effects_def Let_def look_apply_upd look_apply_del strVal_def
        simp del: apply_eff.simps(1) split: if_splits option.splits)
  have row: "snd (aft_table st (vrf', ipv4, net_text b' n')) = None"
    if "net_ok b' n'" "fst (aft_table st (vrf', ipv4, net_text b' n')) = None" for vrf' b' n'
    using assms(1) that unfolding aft_shaped_def by blast
  show ?thesis
    unfolding aft_shaped_def aft_table_effects
  proof (intro conjI allI impI)
    fix q v
    assume q: "store_look (apply_effs st ?es) ''openconfig'' q = Some v \<and> path_match (gp_elem aftQuery) q"
    from new [OF conjunct1 [OF q]] q assms show "\<exists>vrf b n leaf t. q = aftPath vrf ipv4 (net_text b n) leaf \<and>
        net_ok b n \<and> leaf \<in> {''next-hop'', ''pushed-mpls-label-stack''} \<and> v = StringVal t \<and> t \<noteq> [] \<and>
        (leaf \<noteq> ''next-hop'' \<longrightarrow> CHR ''*'' \<notin> set t)"
    proof (elim disjE conjE)
      assume "store_look st ''openconfig'' q = Some v"
      with q assms(1) show ?thesis unfolding aft_shaped_def by blast
    qed (use assms labelsCSV_text in blast)+
  next
    fix vrf' b' n'
    assume "net_ok b' n'" "fst (((aft_table st)((vrf, ipv4, net_text b n) :=
        if del then (None, None) else aft_entry nh labels)) (vrf', ipv4, net_text b' n')) = None"
    then show "snd (((aft_table st)((vrf, ipv4, net_text b n) :=
        if del then (None, None) else aft_entry nh labels)) (vrf', ipv4, net_text b' n')) = None"
      using row by (auto simp: aft_entry_def split: if_splits)
  qed
qed

lemma writeLFIB_shaped:
  assumes "lfib_shaped st"
  shows "lfib_shaped (apply_effs st (writeLFIB byIndex r))"
proof (cases "mr_dst r")
  case None
  then show ?thesis using assms by (simp add: writeLFIB_def)
next
  case (Some d)
  have csv: "CHR ''*'' \<notin> set (intsCSV ls)" for ls
    unfolding intsCSV_join by (rule join_no_star) auto
  have new: "store_look st ''frr'' q = Some v \<or> lfib_leaf q v"
    if "store_look (apply_effs st (writeLFIB byIndex r)) ''frr'' q = Some v" for q v
    using that Some csv
    by (auto simp: writeLFIB_def Let_def look_apply_upd leafUpdate_def strVal_def mplsElems_lfib
        simp del: apply_eff.simps(1) split: if_splits option.splits intro!: lfib_leafI)
  then show ?thesis using assms unfolding lfib_shaped_def by blast
qed

text \<open>
  End to end, the path trace follows the forwarding tables the collectors hold. When every node
  answers Get from its cache, the IPv4 entries there were written by the FPM ingester and the label
  entries by the kernel ingester, and no prefix is in two VRFs of a node, a trace for an address
  reports it as reached exactly when, in at most 23 hops, longest-prefix-match and label switching
  over those tables carry a packet from the start node to the node that has the address, in whatever
  order the nodes answer and the exporter's map is visited.
\<close>

lemma trace_follows_caches:
  assumes "served cache ask" and "\<And>m. mset (rng m) = mset m" and "length a = 4"
  shows "snd (trace_path rng (\<lambda>_. ask) m start (dotted a)) \<longleftrightarrow>
    (\<exists>n < 24. ((\<lambda>c c'. c \<noteq> dest_of m (dotted a) \<and> net_fwd cache m a c c') ^^ n)
       (start, []) (dest_of m (dotted a)))"
proof -
  let ?d = "dest_of m (dotted a)"
  let ?r = "fwd_to ?d (\<lambda>n. routeLookup rng ask n (dotted a)) (mplsLookup ask) m"
  let ?s = "\<lambda>c c'. c \<noteq> ?d \<and> net_fwd cache m a c c'"
  have "(?r ^^ n) (start, []) ?d \<longleftrightarrow> (?s ^^ n) (start, []) ?d" for n
  proof (rule relpowp_cong_inv [where ok = labels_ok])
    show "?r c c' \<longleftrightarrow> ?s c c'" if "labels_ok c" for c c'
      using served_fwd [where rng = rng, OF assms that] by (simp add: fwd_to_def)
    show "labels_ok c'" if "labels_ok c" "?s c c'" for c c'
      using net_fwd_labels [OF assms(1)] that by blast
  qed (simp add: labels_ok_def)
  then show ?thesis
    unfolding trace_path_def trace_loop_reached by (simp add: packet_of_def walk_start_def)
qed

text \<open>A sample network: \<^verbatim>\<open>pe1\<close> sends 10.9.0.0/24 to \<^verbatim>\<open>pe2\<close> with the label 18, which \<^verbatim>\<open>pe2\<close> pops into the VRF
  \<^verbatim>\<open>cust\<close>. The caches are what the ingesters write; a node answers with the matching leaves.\<close>

definition pe1_effs :: "eff list" where
  "pe1_effs = route_effects ''cust'' ipv4 (net_text [10, 9, 0, 0] 24) ''10.0.0.2'' [18] False"

definition pe2_effs :: "eff list" where
  "pe2_effs = writeLFIB (\<lambda>_. Some ''cust'')
     \<lparr>mr_dst = Some 18, mr_newdst = None, mr_via = [], mr_gw = [], mr_link = 5\<rparr>"

definition demo_cache :: "string \<Rightarrow> store" where
  "demo_cache n = apply_effs (\<lambda>_. None) (if n = ''pe1'' then pe1_effs else if n = ''pe2'' then pe2_effs else [])"

definition demo_leaves :: "string \<Rightarrow> leaf_list" where
  "demo_leaves n =
     (if n = ''pe1'' then
        [((''openconfig'', aftPath ''cust'' ipv4 (net_text [10, 9, 0, 0] 24) ''next-hop''), StringVal ''10.0.0.2''),
         ((''openconfig'', aftPath ''cust'' ipv4 (net_text [10, 9, 0, 0] 24) ''pushed-mpls-label-stack''), StringVal ''18'')]
      else if n = ''pe2'' then
        [((''frr'', lfibElems ''18'' ''in-label''), StringVal ''18''),
         ((''frr'', lfibElems ''18'' ''out-label''), StringVal ''''),
         ((''frr'', lfibElems ''18'' ''next-hop''), StringVal ''''),
         ((''frr'', lfibElems ''18'' ''interface''), StringVal ''cust'')]
      else [])"

lemma lfibElems_eq [simp]: "lfibElems l x = lfibElems l' x' \<longleftrightarrow> l = l' \<and> x = x'"
  by (auto simp: lfibElems_def)

lemma demo_cache_leaves: "demo_cache n = map_of (demo_leaves n)"
  by (auto simp: fun_eq_iff demo_cache_def demo_leaves_def pe1_effs_def pe2_effs_def route_effects_def
      writeLFIB_def Let_def store_upd_def strVal_def leafUpdate_def mplsElems_lfib labelsCSV_join dec_eval
      if_name_def)

lemma demo_leaves_ok: "gomap_ok (demo_leaves n)"
  by (simp add: demo_leaves_def)

lemma empty_shaped: "aft_shaped (\<lambda>_. None)" "lfib_shaped (\<lambda>_. None)"
  by (simp_all add: aft_shaped_def lfib_shaped_def store_look_def aft_table_def)

lemma demo_net_ok: "net_ok [10, 9, 0, 0] 24"
  by (simp add: net_ok_def cidr_mask_def)

lemma demo_shaped: "aft_shaped (demo_cache n)" "lfib_shaped (demo_cache n)" "one_vrf (demo_cache n)"
proof -
  have "lfib_shaped (demo_cache ''pe1'')" "aft_shaped (demo_cache ''pe2'')"
    by (auto simp: demo_cache_leaves demo_leaves_def lfib_shaped_def aft_shaped_def store_look_def aft_table_def)
  then show "aft_shaped (demo_cache n)" "lfib_shaped (demo_cache n)"
    using route_effects_shaped [OF empty_shaped(1) demo_net_ok, of "''10.0.0.2''" "''cust''" "[18]" False]
      writeLFIB_shaped [OF empty_shaped(2)] empty_shaped
    by (auto simp: demo_cache_def pe1_effs_def pe2_effs_def)
  show "one_vrf (demo_cache n)"
    by (auto simp: one_vrf_def demo_cache_leaves demo_leaves_def aft_table_def store_look_def)
qed

lemma demo_served: "served demo_cache (\<lambda>n. serve (demo_leaves n))"
  unfolding served_def using demo_shaped serve_answers [OF demo_leaves_ok]
  by (auto simp: demo_cache_leaves)

abbreviation (input) demo_map :: "(string, string) gomap" where
  "demo_map \<equiv> [(''10.0.0.2'', ''pe2''), (''10.9.0.1'', ''pe2'')]"

lemma demo_walk:
  "\<exists>n < 24. ((\<lambda>c c'. c \<noteq> dest_of demo_map (dotted [10, 9, 0, 1]) \<and> net_fwd demo_cache demo_map [10, 9, 0, 1] c c') ^^ n)
     (''pe1'', []) (dest_of demo_map (dotted [10, 9, 0, 1]))"
proof -
  let ?m = demo_map and ?a = "[10, 9, 0, 1] :: ip"
  have a: "dotted ?a = ''10.9.0.1''" by (simp add: dotted_def dec_eval)
  have look: "routeLookup id (\<lambda>n. serve (demo_leaves n)) ''pe1'' (dotted ?a) =
      (''cust'', net_text [10, 9, 0, 0] 24, ''10.0.0.2'', ''18'')"
    using parse_net_text [OF demo_net_ok]
    by (simp add: routeLookup_def serve_def demo_leaves_def aftPath_match byPfx_def byPfx_put_def
        dissect_aftPath get_or_def best_step_def net_contains_def cidr_mask_def sval_def parse_ip4_dotted)
  then have "lpm (demo_cache ''pe1'') ?a (''cust'', net_text [10, 9, 0, 0] 24, ''10.0.0.2'', ''18'')"
    using served_route [OF demo_served, where rng = id and a = ?a and n = "''pe1''"]
    by (auto split: if_splits)
  from net_ip [where cache = demo_cache and n = "''pe1''" and m = ?m, OF this]
  have 1: "net_fwd demo_cache ?m ?a (''pe1'', []) (''pe2'', [''18''])"
    by (simp add: nodeOf_def get_or_def split_on_def)
  have "lfib_row (demo_cache ''pe2'') ''18'' = ('''', '''', ''cust'')"
    by (simp add: lfib_row_def demo_cache_leaves demo_leaves_def store_look_def sval_def)
  from net_vrf [where cache = demo_cache and n = "''pe2''" and m = ?m and a = ?a and rest = "[]", OF this] have 2: "net_fwd demo_cache ?m ?a (''pe2'', [''18'']) (''pe2'', [])" by simp
  let ?s = "\<lambda>c c'. c \<noteq> dest_of ?m (dotted ?a) \<and> net_fwd demo_cache ?m ?a c c'"
  have "(?s ^^ Suc (Suc 0)) (''pe1'', []) (dest_of ?m (dotted ?a))"
    by (rule relpowp_Suc_I2 [of _ _ "(''pe2'', [''18''])"]; (rule relpowp_Suc_I2 [of _ _ "(''pe2'', [])"])?)
       (use 1 2 in \<open>simp_all add: dest_of_def a get_or_def\<close>)
  then show ?thesis
    by (intro exI [of _ "Suc (Suc 0)"]) simp
qed


section \<open>Prefixes of several VRFs\<close>

text \<open>
  The exporter keeps one entry per prefix, whatever VRF it is in. When a node has the same prefix in
  two VRFs, a plain route in one and a labelled one in the other, the route a trace takes can be the
  next hop of the first with the label stack of the second: a route that no VRF of the node has.
\<close>

theorem route_lookup_mixes_vrfs:
  assumes "\<And>m. mset (rng m) = mset m" and "length a = 4" and "net_ok b n" and "net_contains (b, n) a"
    and "nh1 \<noteq> ''''"
    and "ask node aftQuery =
      [(Some (aftPath vrf2 ipv4 (net_text b n) ''next-hop''), Some (StringVal nh2)),
       (Some (aftPath vrf2 ipv4 (net_text b n) ''pushed-mpls-label-stack''), Some (StringVal lbl)),
       (Some (aftPath vrf1 ipv4 (net_text b n) ''next-hop''), Some (StringVal nh1))]"
  shows "routeLookup rng ask node (dotted a) = (vrf1, net_text b n, nh1, lbl)"
proof -
  let ?e = "\<lparr>en_vrf = vrf1, en_nh = nh1, en_lbl = lbl\<rparr>"
  have m: "byPfx (ask node aftQuery) = [(net_text b n, ?e)]"
    by (simp add: assms(6) byPfx_def byPfx_put_def dissect_aftPath get_or_def sval_def)
  have "rng [(net_text b n, ?e)] = [(net_text b n, ?e)]"
    using assms(1) [of "[(net_text b n, ?e)]"] by simp
  moreover have "a \<noteq> []" using assms(2) by auto
  ultimately show ?thesis
    using assms(2,4,5) parse_net_text [OF assms(3)]
    by (simp add: routeLookup_def m best_step_def parse_ip4_dotted)
qed

theorem route_lookup_mixes_vrfs_witness:
  "routeLookup id (\<lambda>_ _.
      [(Some (aftPath ''blue'' ipv4 (net_text [10, 9, 0, 0] 24) ''next-hop''), Some (StringVal ''10.0.0.2'')),
       (Some (aftPath ''blue'' ipv4 (net_text [10, 9, 0, 0] 24) ''pushed-mpls-label-stack''), Some (StringVal ''18'')),
       (Some (aftPath ''red'' ipv4 (net_text [10, 9, 0, 0] 24) ''next-hop''), Some (StringVal ''192.168.1.2''))])
     ''pe1'' (dotted [10, 9, 0, 1]) = (''red'', net_text [10, 9, 0, 0] 24, ''192.168.1.2'', ''18'')"
  by (rule route_lookup_mixes_vrfs [OF _ _ demo_net_ok]) (simp_all add: net_contains_def cidr_mask_def)

end
