(* ===== verification/Topology.thy ===== *)
theory Topology
  imports Exporter
begin

text \<open>
  \<^verbatim>\<open>cmd/topology-exporter/main.go\<close>: the multi-layer topology built from the nodes' answers, and the
  metrics page. The loop over the nodes makes calls of the closures \<^verbatim>\<open>addEdge\<close> and \<^verbatim>\<open>addPseudo\<close>;
  \<open>node_calls\<close> is the list of the calls for a node in their order, and \<^const>\<open>None\<close> the panic of
  \<^verbatim>\<open>niName\<close> on an update without a path. \<open>rng\<close> is the order in which the loop over the map of next
  hops meets its entries. \<^verbatim>\<open>strings.EqualFold\<close> is modelled on ASCII.
\<close>

record edge =
  ed_layer :: string
  ed_src :: string
  ed_dst :: string
  ed_detail :: string


section \<open>Queries\<close>

abbreviation (input) any_ni :: path_elem where
  "any_ni \<equiv> elk ''network-instance'' [(''name'', ''*'')]"

abbreviation (input) any_proto :: path_elem where
  "any_proto \<equiv> elk ''protocol'' [(''identifier'', ''*''), (''name'', ''*'')]"

definition oc_path :: "elems \<Rightarrow> gpath" where
  "oc_path es = \<lparr>gp_target = '''', gp_origin = ''openconfig'', gp_elem = es\<rparr>"

definition lldpPath :: gpath where
  "lldpPath = oc_path
     [el ''lldp'', el ''interfaces'', elk ''interface'' [(''name'', ''*'')], el ''neighbors'',
      elk ''neighbor'' [(''id'', ''*'')], el ''state'', el ''system-name'']"

definition ospfPath :: gpath where
  "ospfPath = oc_path
     [el ''network-instances'', any_ni, el ''protocols'', any_proto, el ''ospfv2'', el ''areas'',
      elk ''area'' [(''identifier'', ''*'')], el ''interfaces'', elk ''interface'' [(''id'', ''*'')],
      el ''neighbors'', elk ''neighbor'' [(''router-id'', ''*'')], el ''state'', el ''adjacency-state'']"

definition bgpPath :: gpath where
  "bgpPath = oc_path
     [el ''network-instances'', any_ni, el ''protocols'', any_proto, el ''bgp'', el ''neighbors'',
      elk ''neighbor'' [(''neighbor-address'', ''*'')], el ''state'', el ''session-state'']"

definition lfibPath :: gpath where
  "lfibPath = \<lparr>gp_target = '''', gp_origin = ''frr'', gp_elem =
     [el ''mpls'', el ''lfib'', elk ''entry'' [(''label'', ''*'')], el ''state'']\<rparr>"

definition fdbPath :: gpath where
  "fdbPath = oc_path
     [el ''network-instances'', any_ni, el ''fdb'', el ''mac-table'', el ''entries'',
      elk ''entry'' [(''mac-address'', ''*''), (''vlan'', ''*'')], el ''state'']"


section \<open>Names\<close>

definition role :: "string \<Rightarrow> string" where
  "role name =
     (if prefix ''vlan:'' name then ''VLAN''
      else if prefix ''mac:'' name then ''MAC''
      else if prefix ''pe'' name then ''PE''
      else if prefix ''ce'' name then ''CE''
      else if prefix ''p'' name then ''P''
      else ''?'')"

text \<open>The ellipsis is its UTF-8 encoding.\<close>

definition title :: "string \<Rightarrow> string" where
  "title name =
     (if prefix ''vlan:'' name then ''vlan'' @ drop 5 name
      else if prefix ''mac:'' name then
        (let s = drop 4 name; p = split_on CHR '':'' s
         in if 2 \<le> length p
            then [CHR 0xE2, CHR 0x80, CHR 0xA6] @ p ! (length p - 2) @ '':'' @ p ! (length p - 1)
            else s)
      else name)"

fun ni_name :: "elems \<Rightarrow> string" where
  "ni_name [] = ''''"
| "ni_name (e # es) =
     (if pe_name e = ''network-instance'' then get_or '''' (pe_key e) ''name'' else ni_name es)"

definition niName :: "elems option \<Rightarrow> string option" where
  "niName p = map_option ni_name p"

definition ifacePeer :: "string \<Rightarrow> string \<Rightarrow> string" where
  "ifacePeer iface self =
     (case find (\<lambda>part. part \<noteq> '''' \<and> part \<noteq> self) (split_on CHR ''-'' iface) of
        None \<Rightarrow> '''' | Some part \<Rightarrow> part)"

definition equal_fold :: "string \<Rightarrow> string \<Rightarrow> bool" where
  "equal_fold s t \<longleftrightarrow> to_lower s = to_lower t"


section \<open>The edges\<close>

type_synonym edges = "(string, edge) gomap"

definition edge_key :: "string \<Rightarrow> string \<Rightarrow> string \<Rightarrow> string" where
  "edge_key layer x y = layer @ ''|'' @ x @ ''|'' @ y"

definition addEdge ::
    "(string, string) gomap \<Rightarrow> string \<Rightarrow> string \<Rightarrow> string \<Rightarrow> string \<Rightarrow> edges \<Rightarrow> edges" where
  "addEdge inventory layer a b detail es =
     (if map_of inventory a = None \<or> map_of inventory b = None \<or> a = b then es
      else
        (let (x, y) = (if b < a then (b, a) else (a, b));
             key = edge_key layer x y
         in case map_of es key of
              Some prev \<Rightarrow>
                if \<not> suffix ''=default'' (ed_detail prev) then es
                else map_put key \<lparr>ed_layer = layer, ed_src = x, ed_dst = y, ed_detail = detail\<rparr> es
            | None \<Rightarrow> map_put key \<lparr>ed_layer = layer, ed_src = x, ed_dst = y, ed_detail = detail\<rparr> es))"

definition addPseudo :: "string \<Rightarrow> string \<Rightarrow> string \<Rightarrow> edges \<Rightarrow> edges" where
  "addPseudo a b detail es =
     (if a = '''' \<or> b = '''' \<or> a = b then es
      else
        (let (x, y) = (if b < a then (b, a) else (a, b));
             key = edge_key ''vlan'' x y
         in case map_of es key of
              Some prev \<Rightarrow> es
            | None \<Rightarrow> map_put key \<lparr>ed_layer = ''vlan'', ed_src = x, ed_dst = y, ed_detail = detail\<rparr> es))"

datatype call =
    Edge string string string string
  | Pseudo string string string

fun do_call :: "(string, string) gomap \<Rightarrow> call \<Rightarrow> edges \<Rightarrow> edges" where
  "do_call inventory (Edge layer a b detail) es = addEdge inventory layer a b detail es"
| "do_call inventory (Pseudo a b detail) es = addPseudo a b detail es"


section \<open>The calls for a node\<close>

definition lldp_calls :: "string \<Rightarrow> answer list \<Rightarrow> call list" where
  "lldp_calls node ups = map (\<lambda>(p, v). Edge ''physical'' node (sval v) ''lldp'') ups"

definition ospf_calls :: "(string, string) gomap \<Rightarrow> string \<Rightarrow> answer list \<Rightarrow> call list" where
  "ospf_calls ip2node node ups =
     concat (map (\<lambda>(p, v).
       if \<not> equal_fold (sval v) ''FULL'' then []
       else
         (let keys = fst (dissect p);
              peer = ifacePeer (get_or '''' keys ''id'') node;
              peer = (if peer = '''' then get_or '''' ip2node (get_or '''' keys ''router-id'') else peer)
          in [Edge ''ospf'' node peer ''area''])) ups)"

fun bgp_calls :: "(string, string) gomap \<Rightarrow> string \<Rightarrow> answer list \<Rightarrow> call list option" where
  "bgp_calls ip2node node [] = Some []"
| "bgp_calls ip2node node ((p, v) # ups) =
     (if \<not> equal_fold (sval v) ''ESTABLISHED'' then bgp_calls ip2node node ups
      else do {
        let peer = get_or '''' ip2node (get_or '''' (fst (dissect p)) ''neighbor-address'');
        ni \<leftarrow> niName p;
        cs \<leftarrow> bgp_calls ip2node node ups;
        Some (Edge ''bgp'' node peer (''vrf='' @ ni) # cs) })"

definition lfib_put ::
    "answer \<Rightarrow> (string, string) gomap \<times> (string, string) gomap
      \<Rightarrow> (string, string) gomap \<times> (string, string) gomap" where
  "lfib_put u s =
     (let (nh, oif) = s; (keys, leaf) = dissect (fst u); label = get_or '''' keys ''label''
      in if leaf = ''next-hop'' then (map_put label (sval (snd u)) nh, oif)
         else if leaf = ''interface'' then (nh, map_put label (sval (snd u)) oif)
         else s)"

definition mpls_calls ::
    "((string \<times> string) list \<Rightarrow> (string \<times> string) list) \<Rightarrow> (string, string) gomap \<Rightarrow> string
      \<Rightarrow> answer list \<Rightarrow> call list" where
  "mpls_calls rng ip2node node ups =
     (let (nh, oif) = foldl (\<lambda>s u. lfib_put u s) ([], []) ups
      in map (\<lambda>(lbl, hop).
           let peer = get_or '''' ip2node hop;
               peer = (if peer = '''' then ifacePeer (get_or '''' oif lbl) node else peer)
           in Edge ''mpls'' node peer ''lsp'') (rng nh))"

definition vlan_calls :: "string \<Rightarrow> answer list \<Rightarrow> call list" where
  "vlan_calls node ups =
     concat (map (\<lambda>(p, v).
       let (keys, leaf) = dissect p;
           vlan = get_or '''' keys ''vlan'';
           mac = get_or '''' keys ''mac-address''
       in if leaf \<noteq> ''mac-address'' then []
          else if vlan = '''' \<or> vlan = ''0'' \<or> vlan = ''1'' \<or> mac = '''' then []
          else [Pseudo node (''vlan:'' @ vlan) ''member'',
                Pseudo (''vlan:'' @ vlan) (''mac:'' @ mac) ''learned'']) ups)"

definition node_calls ::
    "((string \<times> string) list \<Rightarrow> (string \<times> string) list) \<Rightarrow> ask \<Rightarrow> (string, string) gomap
      \<Rightarrow> string \<Rightarrow> call list option" where
  "node_calls rng ask ip2node node = do {
     bgp \<leftarrow> bgp_calls ip2node node (ask node bgpPath);
     Some (lldp_calls node (ask node lldpPath) @
           ospf_calls ip2node node (ask node ospfPath) @
           bgp @
           mpls_calls rng ip2node node (ask node lfibPath) @
           vlan_calls node (ask node fdbPath)) }"

fun all_calls ::
    "((string \<times> string) list \<Rightarrow> (string \<times> string) list) \<Rightarrow> ask \<Rightarrow> (string, string) gomap
      \<Rightarrow> string list \<Rightarrow> call list option" where
  "all_calls rng ask ip2node [] = Some []"
| "all_calls rng ask ip2node (node # nodes) = do {
     cs \<leftarrow> node_calls rng ask ip2node node;
     cs' \<leftarrow> all_calls rng ask ip2node nodes;
     Some (cs @ cs') }"

text \<open>The inventory's keys, \<open>ns\<close> in the order in which \<^verbatim>\<open>buildIP2Node\<close> visits them and \<open>nodes\<close> in the order
  of the edges' loop: Go chooses one for each iteration.\<close>

definition topo_edges ::
    "((string \<times> string) list \<Rightarrow> (string \<times> string) list) \<Rightarrow> ask \<Rightarrow> (string, string) gomap
      \<Rightarrow> string list \<Rightarrow> string list \<Rightarrow> edges option" where
  "topo_edges rng ask inventory ns nodes =
     map_option (foldl (\<lambda>es c. do_call inventory c es) [])
       (all_calls rng ask (buildIP2Node ask ns) nodes)"


section \<open>The page\<close>

text \<open>The endpoints of a layer's edges: a set, sorted, so that no iteration order shows.\<close>

definition layer_nodes :: "edges \<Rightarrow> string \<Rightarrow> string list" where
  "layer_nodes es layer =
     sort (map fst (foldl (\<lambda>m (k, e).
       if ed_layer e = layer then map_put (ed_dst e) True (map_put (ed_src e) True m) else m) [] es))"

definition topo_nl :: string where
  "topo_nl = [CHR 0x0A]"

definition node_line :: "string \<Rightarrow> string \<Rightarrow> string" where
  "node_line layer n =
     ''frr_topo_node{layer='' @ quote layer @ '',id='' @ quote n @ '',title='' @ quote (title n) @
     '',role='' @ quote (role n) @ ''} 1'' @ topo_nl"

definition edge_line :: "edge \<Rightarrow> string" where
  "edge_line e =
     ''frr_topo_edge{layer='' @ quote (ed_layer e) @ '',id='' @ quote (ed_src e @ ''|'' @ ed_dst e) @
     '',source='' @ quote (ed_src e) @ '',target='' @ quote (ed_dst e) @ '',detail='' @ quote (ed_detail e) @
     ''} 1'' @ topo_nl"

definition layers :: "string list" where
  "layers = [''physical'', ''vlan'', ''ospf'', ''bgp'', ''mpls'']"

definition topo_page :: "edges \<Rightarrow> string" where
  "topo_page es =
     ''# HELP frr_topo_node A node in the topology (per layer).'' @ topo_nl @
     ''# TYPE frr_topo_node gauge'' @ topo_nl @
     concat (map (\<lambda>layer. concat (map (node_line layer) (layer_nodes es layer))) layers) @
     ''# HELP frr_topo_edge An adjacency/session between two nodes (per layer).'' @ topo_nl @
     ''# TYPE frr_topo_edge gauge'' @ topo_nl @
     concat (map (\<lambda>k. edge_line (get_or \<lparr>ed_layer = '''', ed_src = '''', ed_dst = '''', ed_detail = ''''\<rparr> es k))
       (sort (map fst es))) @
     ''# HELP frr_topo_up 1 if the last refresh completed.'' @ topo_nl @
     ''# TYPE frr_topo_up gauge'' @ topo_nl @ ''frr_topo_up 1'' @ topo_nl"

definition topo_render ::
    "((string \<times> string) list \<Rightarrow> (string \<times> string) list) \<Rightarrow> ask \<Rightarrow> (string, string) gomap
      \<Rightarrow> string list \<Rightarrow> string list \<Rightarrow> string option" where
  "topo_render rng ask inventory ns nodes = map_option topo_page (topo_edges rng ask inventory ns nodes)"

end
