(* ===== verification/Topology_Props.thy ===== *)
theory Topology_Props
  imports Topology Bmp
begin

text \<open>
  What the topology exporter does: the edges it keeps, their independence of the order in which nodes
  and answers are visited, and the adjacencies in the nodes' caches they stand for.
\<close>

section \<open>Calls\<close>

text \<open>The edge a call offers, and whether a later call may replace it.\<close>

definition sorted_pair :: "string \<Rightarrow> string \<Rightarrow> string \<times> string" where
  "sorted_pair a b = (if b < a then (b, a) else (a, b))"

definition mk_edge :: "string \<Rightarrow> string \<Rightarrow> string \<Rightarrow> string \<Rightarrow> edge" where
  "mk_edge layer a b detail =
     \<lparr>ed_layer = layer, ed_src = fst (sorted_pair a b), ed_dst = snd (sorted_pair a b), ed_detail = detail\<rparr>"

fun call_edge :: "(string, string) gomap \<Rightarrow> call \<Rightarrow> edge option" where
  "call_edge iv (Edge layer a b detail) =
     (if map_of iv a = None \<or> map_of iv b = None \<or> a = b then None else Some (mk_edge layer a b detail))"
| "call_edge iv (Pseudo a b detail) =
     (if a = '''' \<or> b = '''' \<or> a = b then None else Some (mk_edge ''vlan'' a b detail))"

definition key_of :: "edge \<Rightarrow> string" where
  "key_of e = edge_key (ed_layer e) (ed_src e) (ed_dst e)"

definition weak :: "edge \<Rightarrow> bool" where
  "weak e \<longleftrightarrow> suffix ''=default'' (ed_detail e)"

fun replaces :: "call \<Rightarrow> bool" where
  "replaces (Edge layer a b detail) = True"
| "replaces (Pseudo a b detail) = False"

lemma do_call_eq:
  "do_call iv c es =
    (case call_edge iv c of
       None \<Rightarrow> es
     | Some e \<Rightarrow>
         (case map_of es (key_of e) of
            None \<Rightarrow> map_put (key_of e) e es
          | Some prev \<Rightarrow> if weak prev \<and> replaces c then map_put (key_of e) e es else es))"
  by (cases c)
     (auto simp: addEdge_def addPseudo_def mk_edge_def sorted_pair_def key_of_def weak_def Let_def
       split: option.splits)

definition do_calls :: "(string, string) gomap \<Rightarrow> call list \<Rightarrow> edges" where
  "do_calls iv cs = foldl (\<lambda>es c. do_call iv c es) [] cs"

lemma do_calls_Nil [simp]: "do_calls iv [] = []"
  and do_calls_snoc [simp]: "do_calls iv (cs @ [c]) = do_call iv c (do_calls iv cs)"
  by (simp_all add: do_calls_def)

lemma do_calls_ok: "gomap_ok (do_calls iv cs)"
  by (induction cs rule: rev_induct) (auto simp: do_call_eq gomap_ok_put split: option.splits)

text \<open>Every edge was offered by a call; an offered edge leaves an edge for its pair.\<close>

lemma do_calls_offered:
  "map_of (do_calls iv cs) k = Some e \<Longrightarrow> \<exists>c \<in> set cs. call_edge iv c = Some e \<and> key_of e = k"
  by (induction cs arbitrary: e rule: rev_induct) (auto simp: do_call_eq split: option.splits if_splits)

lemma do_calls_present:
  "c \<in> set cs \<Longrightarrow> call_edge iv c = Some e \<Longrightarrow> map_of (do_calls iv cs) (key_of e) \<noteq> None"
  by (induction cs rule: rev_induct) (auto simp: do_call_eq split: option.splits if_splits)

lemma call_edge_ok:
  assumes "call_edge iv c = Some e"
  shows "ed_src e < ed_dst e"
    and "(\<exists>layer a b d. c = Edge layer a b d \<and> ed_layer e = layer \<and> map_of iv (ed_src e) \<noteq> None \<and> map_of iv (ed_dst e) \<noteq> None) \<or>
      (\<exists>a b d. c = Pseudo a b d \<and> ed_layer e = ''vlan'')"
proof -
  show "ed_src e < ed_dst e"
    using assms by (cases c) (auto simp: mk_edge_def sorted_pair_def split: if_splits)
  show "(\<exists>layer a b d. c = Edge layer a b d \<and> ed_layer e = layer \<and> map_of iv (ed_src e) \<noteq> None \<and> map_of iv (ed_dst e) \<noteq> None) \<or>
      (\<exists>a b d. c = Pseudo a b d \<and> ed_layer e = ''vlan'')"
    using assms by (cases c) (auto simp: mk_edge_def sorted_pair_def split: if_splits)
qed

text \<open>Calls that agree: two edges offered for one pair are the same, unless one is replaceable by the
  other; the pseudo edges of the program never carry a default detail.\<close>

definition agree :: "(string, string) gomap \<Rightarrow> call set \<Rightarrow> bool" where
  "agree iv C \<longleftrightarrow>
     (\<forall>c \<in> C. \<forall>c' \<in> C. \<forall>e e'. call_edge iv c = Some e \<longrightarrow> call_edge iv c' = Some e' \<longrightarrow>
        key_of e = key_of e' \<longrightarrow> weak e = weak e' \<longrightarrow> e = e') \<and>
     (\<forall>c \<in> C. \<forall>e. call_edge iv c = Some e \<longrightarrow> \<not> replaces c \<longrightarrow>
        (\<forall>c' \<in> C. \<forall>e'. call_edge iv c' = Some e' \<longrightarrow> key_of e' = key_of e \<longrightarrow> \<not> weak e'))"

lemma agreeD:
  "agree iv C \<Longrightarrow> c \<in> C \<Longrightarrow> c' \<in> C \<Longrightarrow> call_edge iv c = Some e \<Longrightarrow> call_edge iv c' = Some e' \<Longrightarrow>
    key_of e = key_of e' \<Longrightarrow> weak e = weak e' \<Longrightarrow> e = e'"
  unfolding agree_def by blast

lemma agree_pseudo:
  "agree iv C \<Longrightarrow> c \<in> C \<Longrightarrow> c' \<in> C \<Longrightarrow> call_edge iv c = Some e \<Longrightarrow> call_edge iv c' = Some e' \<Longrightarrow>
    key_of e' = key_of e \<Longrightarrow> \<not> replaces c \<Longrightarrow> \<not> weak e'"
  unfolding agree_def by blast

lemma agree_mono: "agree iv C \<Longrightarrow> D \<subseteq> C \<Longrightarrow> agree iv D"
  unfolding agree_def by blast

text \<open>The edge of a pair: the one with a specific detail if any call offers one.\<close>

definition best_edge :: "(string, string) gomap \<Rightarrow> call set \<Rightarrow> string \<Rightarrow> edge \<Rightarrow> bool" where
  "best_edge iv C k e \<longleftrightarrow>
     (\<exists>c \<in> C. call_edge iv c = Some e) \<and> key_of e = k \<and>
     (weak e \<longrightarrow> \<not> (\<exists>c \<in> C. \<exists>e'. call_edge iv c = Some e' \<and> key_of e' = k \<and> \<not> weak e'))"

lemma do_calls_best:
  "agree iv (set cs) \<Longrightarrow> map_of (do_calls iv cs) k = Some e \<Longrightarrow> best_edge iv (set cs) k e"
proof (induction cs arbitrary: e rule: rev_induct)
  case (snoc c cs)
  have IH: "best_edge iv (set cs) k e'" if "map_of (do_calls iv cs) k = Some e'" for e'
    using snoc.IH [OF _ that] snoc.prems(1) agree_mono [of iv "set (cs @ [c])" "set cs"] by auto
  show ?case
  proof (cases "\<exists>e1. call_edge iv c = Some e1 \<and> key_of e1 = k")
    case False
    with snoc.prems(2) have "map_of (do_calls iv cs) k = Some e"
      by (auto simp: do_call_eq split: option.splits if_splits)
    from IH [OF this] False show ?thesis by (auto simp: best_edge_def)
  next
    case True
    then obtain e1 where e1: "call_edge iv c = Some e1" "key_of e1 = k" by blast
    note agr = agreeD [OF snoc.prems(1)]
    show ?thesis
    proof (cases "map_of (do_calls iv cs) k")
      case None
      with snoc.prems(2) e1 have e: "e = e1" by (simp add: do_call_eq)
      have "call_edge iv c' = Some e' \<Longrightarrow> key_of e' \<noteq> k" if "c' \<in> set cs" for c' e'
        using None do_calls_present [OF that] by blast
      with e e1 show ?thesis by (auto simp: best_edge_def)
    next
      case (Some prev)
      note prev = IH [OF Some, unfolded best_edge_def]
      show ?thesis
      proof (cases "weak prev \<and> replaces c")
        case True
        with snoc.prems(2) e1 Some have e: "e = e1" by (simp add: do_call_eq)
        with prev e1 True show ?thesis by (auto simp: best_edge_def)
      next
        case False
        with snoc.prems(2) e1 Some have e: "e = prev" by (auto simp: do_call_eq split: if_splits)
        have "\<not> weak prev"
        proof (cases "replaces c")
          case False
          from prev obtain c' where "c' \<in> set cs" "call_edge iv c' = Some prev" "key_of prev = k" by blast
          with agree_pseudo [OF snoc.prems(1), of c c' e1 prev] e1 False show ?thesis by auto
        qed (use False in simp)
        with prev e show ?thesis by (auto simp: best_edge_def)
      qed
    qed
  qed
qed simp

lemma best_edge_fun: "agree iv C \<Longrightarrow> best_edge iv C k e \<Longrightarrow> best_edge iv C k e' \<Longrightarrow> e = e'"
  using agreeD unfolding best_edge_def by (metis (no_types, lifting))

lemma map_of_do_calls:
  assumes "agree iv (set cs)"
  shows "map_of (do_calls iv cs) k = Some e \<longleftrightarrow> best_edge iv (set cs) k e"
proof
  assume b: "best_edge iv (set cs) k e"
  then obtain c where "c \<in> set cs" "call_edge iv c = Some e" "key_of e = k" by (auto simp: best_edge_def)
  then obtain e' where "map_of (do_calls iv cs) k = Some e'" using do_calls_present by blast
  with b do_calls_best [OF assms this] best_edge_fun [OF assms] show "map_of (do_calls iv cs) k = Some e" by blast
qed (rule do_calls_best [OF assms])

lemma do_calls_set:
  assumes "agree iv (set cs)" "set cs' = set cs"
  shows "map_of (do_calls iv cs') = map_of (do_calls iv cs)"
proof
  fix k
  have "map_of (do_calls iv cs') k = Some e \<longleftrightarrow> map_of (do_calls iv cs) k = Some e" for e
    using assms map_of_do_calls by metis
  then show "map_of (do_calls iv cs') k = map_of (do_calls iv cs) k"
    by (metis not_None_eq)
qed


section \<open>The page shows the map of the edges\<close>

lemma sort_same_set:
  "distinct xs \<Longrightarrow> distinct ys \<Longrightarrow> set xs = set ys \<Longrightarrow> sort xs = sort ys"
  by (intro sorted_distinct_set_unique) simp_all

abbreviation (input) ln_put :: "string \<Rightarrow> (string, bool) gomap \<Rightarrow> string \<times> edge \<Rightarrow> (string, bool) gomap" where
  "ln_put layer \<equiv> \<lambda>m (k, e).
     if ed_layer e = layer then map_put (ed_dst e) True (map_put (ed_src e) True m) else m"

lemma ln_put_keys:
  "fst ` set (foldl (ln_put layer) m es) =
    fst ` set m \<union> {n. \<exists>(k, e) \<in> set es. ed_layer e = layer \<and> (n = ed_src e \<or> n = ed_dst e)}"
proof (induction es arbitrary: m)
  case (Cons x es)
  obtain k e where x: "x = (k, e)" by force
  show ?case unfolding foldl_Cons Cons.IH by (auto simp: x dom_map_of_conv_image_fst [symmetric] simp del: set_map)
qed auto

lemma ln_put_ok: "gomap_ok m \<Longrightarrow> gomap_ok (foldl (ln_put layer) m es)"
  by (induction es arbitrary: m) (auto simp: gomap_ok_put)

lemma gomap_eq_set: "gomap_ok es \<Longrightarrow> gomap_ok es' \<Longrightarrow> map_of es = map_of es' \<Longrightarrow> set es = set es'"
  by (metis map_of_eqI map_of_eq_Some_iff set_eqI surj_pair)

lemma topo_page_cong:
  assumes "gomap_ok es" "gomap_ok es'" "map_of es' = map_of es"
  shows "topo_page es' = topo_page es"
proof -
  have set_eq: "set es' = set es" using gomap_eq_set assms by metis
  have "layer_nodes es' layer = layer_nodes es layer" for layer
    unfolding layer_nodes_def
    by (rule sort_same_set) (simp_all add: ln_put_ok ln_put_keys set_eq)
  moreover have "sort (map fst es') = sort (map fst es)"
    using assms set_eq by (intro sort_same_set) simp_all
  ultimately show ?thesis by (simp add: topo_page_def get_or_def assms(3))
qed


section \<open>The calls of a refresh, as a set\<close>

definition bgp_up :: "answer \<Rightarrow> bool" where
  "bgp_up u \<longleftrightarrow> equal_fold (sval (snd u)) ''ESTABLISHED''"

definition bgp_call :: "(string, string) gomap \<Rightarrow> string \<Rightarrow> answer \<Rightarrow> call" where
  "bgp_call m node u =
     Edge ''bgp'' node (get_or '''' m (get_or '''' (fst (dissect (fst u))) ''neighbor-address''))
       (''vrf='' @ (case fst u of None \<Rightarrow> '''' | Some es \<Rightarrow> ni_name es))"

lemma bgp_calls_Cons:
  "bgp_calls m node (u # ups) =
    (if \<not> bgp_up u then bgp_calls m node ups
     else if fst u = None then None
     else map_option ((#) (bgp_call m node u)) (bgp_calls m node ups))"
  by (cases u; cases "fst u")
     (auto simp: bgp_up_def bgp_call_def niName_def split: Option.bind_splits)

lemma bgp_calls_None:
  "bgp_calls m node ups = None \<longleftrightarrow> (\<exists>u \<in> set ups. bgp_up u \<and> fst u = None)"
  by (induction ups) (auto simp: bgp_calls_Cons simp del: bgp_calls.simps(2))

lemma bgp_calls_Some:
  "bgp_calls m node ups = Some cs \<Longrightarrow> set cs = bgp_call m node ` {u \<in> set ups. bgp_up u}"
  by (induction ups arbitrary: cs)
     (auto simp: bgp_calls_Cons simp del: bgp_calls.simps(2) split: if_splits)

definition bgp_set :: "(string, string) gomap \<Rightarrow> string \<Rightarrow> answer set \<Rightarrow> call set" where
  "bgp_set m node U = bgp_call m node ` {u \<in> U. bgp_up u}"

definition ospf_set :: "(string, string) gomap \<Rightarrow> string \<Rightarrow> answer set \<Rightarrow> call set" where
  "ospf_set m node U = (\<Union>u \<in> U. set (ospf_calls m node [u]))"

definition lldp_set :: "string \<Rightarrow> answer set \<Rightarrow> call set" where
  "lldp_set node U = (\<Union>u \<in> U. set (lldp_calls node [u]))"

definition vlan_set :: "string \<Rightarrow> answer set \<Rightarrow> call set" where
  "vlan_set node U = (\<Union>u \<in> U. set (vlan_calls node [u]))"

lemma calls_sets:
  "set (ospf_calls m node ups) = ospf_set m node (set ups)"
  "set (lldp_calls node ups) = lldp_set node (set ups)"
  "set (vlan_calls node ups) = vlan_set node (set ups)"
  by (auto simp: ospf_set_def ospf_calls_def lldp_set_def lldp_calls_def vlan_set_def vlan_calls_def)

text \<open>The maps of next hops and interfaces by label hold what the answers say, when these say one thing
  for each label.\<close>

definition lfib_label :: "answer \<Rightarrow> string" where
  "lfib_label u = get_or '''' (fst (dissect (fst u))) ''label''"

definition lfib_fun :: "answer list \<Rightarrow> bool" where
  "lfib_fun ups \<longleftrightarrow>
     (\<forall>u \<in> set ups. \<forall>u' \<in> set ups. lfib_label u = lfib_label u' \<longrightarrow>
        snd (dissect (fst u)) = snd (dissect (fst u')) \<longrightarrow> sval (snd u) = sval (snd u'))"

lemma lfib_fun_cong: "set ups' = set ups \<Longrightarrow> lfib_fun ups' = lfib_fun ups"
  by (simp add: lfib_fun_def)

definition says :: "answer set \<Rightarrow> string \<Rightarrow> string \<Rightarrow> string \<Rightarrow> bool" where
  "says U leaf lbl v \<longleftrightarrow> (\<exists>u \<in> U. snd (dissect (fst u)) = leaf \<and> lfib_label u = lbl \<and> sval (snd u) = v)"

lemma lfib_put_eq:
  "lfib_put u (nh, oif) =
    (if snd (dissect (fst u)) = ''next-hop'' then (map_put (lfib_label u) (sval (snd u)) nh, oif)
     else if snd (dissect (fst u)) = ''interface'' then (nh, map_put (lfib_label u) (sval (snd u)) oif)
     else (nh, oif))"
  by (simp add: lfib_put_def lfib_label_def split_beta Let_def)

lemma lfib_fold:
  "foldl (\<lambda>s u. lfib_put u s) (nh0, oif0) ups =
    (foldl (\<lambda>m (k, v). map_put k v m) nh0
       (map (\<lambda>u. (lfib_label u, sval (snd u))) (filter (\<lambda>u. snd (dissect (fst u)) = ''next-hop'') ups)),
     foldl (\<lambda>m (k, v). map_put k v m) oif0
       (map (\<lambda>u. (lfib_label u, sval (snd u))) (filter (\<lambda>u. snd (dissect (fst u)) = ''interface'') ups)))"
  by (induction ups arbitrary: nh0 oif0) (simp_all add: lfib_put_eq)

lemma map_of_says:
  assumes "lfib_fun ups"
  shows "map_of (rev (map (\<lambda>u. (lfib_label u, sval (snd u))) (filter (\<lambda>u. snd (dissect (fst u)) = leaf) ups))) lbl = Some v
    \<longleftrightarrow> says (set ups) leaf lbl v"
proof -
  let ?ls = "rev (map (\<lambda>u. (lfib_label u, sval (snd u))) (filter (\<lambda>u. snd (dissect (fst u)) = leaf) ups))"
  have mem: "(lbl, v) \<in> set ?ls \<longleftrightarrow> says (set ups) leaf lbl v" for v
    unfolding says_def set_rev set_map set_filter by blast
  show ?thesis
  proof
    assume "map_of ?ls lbl = Some v"
    from map_of_SomeD [OF this] show "says (set ups) leaf lbl v" unfolding mem .
  next
    assume s: "says (set ups) leaf lbl v"
    then have "(lbl, v) \<in> set ?ls" unfolding mem .
    from weak_map_of_SomeI [OF this] obtain v' where v': "map_of ?ls lbl = Some v'" by blast
    from map_of_SomeD [OF this] have "says (set ups) leaf lbl v'" unfolding mem .
    then obtain u' where u': "u' \<in> set ups" "snd (dissect (fst u')) = leaf" "lfib_label u' = lbl" "sval (snd u') = v'"
      unfolding says_def by blast
    from s obtain u where u: "u \<in> set ups" "snd (dissect (fst u)) = leaf" "lfib_label u = lbl" "sval (snd u) = v"
      unfolding says_def by blast
    from assms u' u have "v' = v" unfolding lfib_fun_def by metis
    with v' show "map_of ?ls lbl = Some v" by simp
  qed
qed

definition says_or :: "answer set \<Rightarrow> string \<Rightarrow> string \<Rightarrow> string \<Rightarrow> bool" where
  "says_or U leaf lbl v \<longleftrightarrow> says U leaf lbl v \<or> (\<forall>v. \<not> says U leaf lbl v) \<and> v = ''''"

definition mpls_peer :: "(string, string) gomap \<Rightarrow> string \<Rightarrow> string \<Rightarrow> string \<Rightarrow> string" where
  "mpls_peer m node hop i = (if get_or '''' m hop = '''' then ifacePeer i node else get_or '''' m hop)"

definition mpls_set :: "(string, string) gomap \<Rightarrow> string \<Rightarrow> answer set \<Rightarrow> call set" where
  "mpls_set m node U =
     {Edge ''mpls'' node (mpls_peer m node hop i) ''lsp'' | lbl hop i.
        says U ''next-hop'' lbl hop \<and> says_or U ''interface'' lbl i}"

lemma mpls_calls_set:
  assumes "lfib_fun ups" "\<And>m. mset (rng m) = mset m"
  shows "set (mpls_calls rng m node ups) = mpls_set m node (set ups)"
proof -
  obtain nh oif where f: "foldl (\<lambda>s u. lfib_put u s) ([], []) ups = (nh, oif)" by force
  have ok: "gomap_ok nh" using f by (auto simp: lfib_fold gomap_ok_foldl_put)
  have nh: "map_of nh lbl = Some v \<longleftrightarrow> says (set ups) ''next-hop'' lbl v" for lbl v
    using f map_of_says [OF assms(1)] by (auto simp: lfib_fold map_of_foldl_put)
  have oif: "map_of oif lbl = Some v \<longleftrightarrow> says (set ups) ''interface'' lbl v" for lbl v
    using f map_of_says [OF assms(1)] by (auto simp: lfib_fold map_of_foldl_put)
  have get: "get_or '''' oif lbl = i \<longleftrightarrow> says_or (set ups) ''interface'' lbl i" for lbl i
    unfolding says_or_def oif [symmetric] by (auto simp: get_or_def split: option.splits)
  have "set (rng nh) = set nh" using assms(2) by (rule mset_eq_setD)
  then have s: "(lbl, hop) \<in> set (rng nh) \<longleftrightarrow> says (set ups) ''next-hop'' lbl hop" for lbl hop
    using nh [of lbl hop] ok by simp
  have calls: "mpls_calls rng m node ups =
      map (\<lambda>(lbl, hop). Edge ''mpls'' node (mpls_peer m node hop (get_or '''' oif lbl)) ''lsp'') (rng nh)"
    by (simp add: mpls_calls_def f mpls_peer_def Let_def)
  show ?thesis
  proof (intro equalityI subsetI)
    fix c assume "c \<in> set (mpls_calls rng m node ups)"
    then obtain lbl hop where "(lbl, hop) \<in> set (rng nh)"
        "c = Edge ''mpls'' node (mpls_peer m node hop (get_or '''' oif lbl)) ''lsp''"
      by (auto simp: calls)
    with s get [of lbl "get_or '''' oif lbl"] show "c \<in> mpls_set m node (set ups)"
      unfolding mpls_set_def by blast
  next
    fix c assume "c \<in> mpls_set m node (set ups)"
    then obtain lbl hop i where c: "c = Edge ''mpls'' node (mpls_peer m node hop i) ''lsp''"
        "(lbl, hop) \<in> set (rng nh)" "get_or '''' oif lbl = i"
      unfolding mpls_set_def using s get by blast
    then show "c \<in> set (mpls_calls rng m node ups)" by (force simp: calls)
  qed
qed

definition node_set :: "ask \<Rightarrow> (string, string) gomap \<Rightarrow> string \<Rightarrow> call set" where
  "node_set ask m n =
     lldp_set n (set (ask n lldpPath)) \<union> ospf_set m n (set (ask n ospfPath)) \<union>
     bgp_set m n (set (ask n bgpPath)) \<union> mpls_set m n (set (ask n lfibPath)) \<union>
     vlan_set n (set (ask n fdbPath))"

definition no_panic :: "ask \<Rightarrow> string \<Rightarrow> bool" where
  "no_panic ask n \<longleftrightarrow> \<not> (\<exists>u \<in> set (ask n bgpPath). bgp_up u \<and> fst u = None)"

lemma node_calls_None: "node_calls rng ask m n = None \<longleftrightarrow> \<not> no_panic ask n"
  using bgp_calls_None [of m n "ask n bgpPath"]
  by (cases "bgp_calls m n (ask n bgpPath)") (simp_all add: node_calls_def no_panic_def)

lemma node_calls_Some:
  assumes "\<And>m. mset (rng m) = mset m" "lfib_fun (ask n lfibPath)" "node_calls rng ask m n = Some cs"
  shows "set cs = node_set ask m n"
proof -
  from assms(3) obtain b where b: "bgp_calls m n (ask n bgpPath) = Some b" and
    cs: "cs = lldp_calls n (ask n lldpPath) @ ospf_calls m n (ask n ospfPath) @ b @
      mpls_calls rng m n (ask n lfibPath) @ vlan_calls n (ask n fdbPath)"
    by (auto simp: node_calls_def split: Option.bind_splits)
  from mpls_calls_set [OF assms(2,1)]
  have "set (mpls_calls rng m n (ask n lfibPath)) = mpls_set m n (set (ask n lfibPath))" by simp
  with cs bgp_calls_Some [OF b] show ?thesis
    by (simp add: node_set_def calls_sets bgp_set_def Un_assoc)
qed

lemma all_calls_None: "all_calls rng ask m nodes = None \<longleftrightarrow> \<not> (\<forall>n \<in> set nodes. no_panic ask n)"
proof (induction nodes)
  case (Cons n nodes)
  show ?case
    using Cons node_calls_None [of rng ask m n]
    by (cases "node_calls rng ask m n"; cases "all_calls rng ask m nodes") auto
qed simp

lemma all_calls_Some:
  assumes "\<And>m. mset (rng m) = mset m"
  shows "\<forall>n \<in> set nodes. lfib_fun (ask n lfibPath) \<Longrightarrow> all_calls rng ask m nodes = Some cs \<Longrightarrow>
    set cs = (\<Union>n \<in> set nodes. node_set ask m n)"
proof (induction nodes arbitrary: cs)
  case (Cons n nodes)
  then obtain a b where "node_calls rng ask m n = Some a" "all_calls rng ask m nodes = Some b" "cs = a @ b"
    by (auto split: Option.bind_splits)
  with Cons node_calls_Some [where rng = rng, OF assms, of ask n m a] show ?case by simp
qed simp

text \<open>The map from addresses to nodes enters through its lookups only.\<close>

lemma node_set_cong:
  assumes "map_of m' = map_of m" "\<And>p. set (ask' n p) = set (ask n p)"
  shows "node_set ask' m' n = node_set ask m n"
proof -
  have g: "get_or d m' = get_or d m" for d by (rule ext) (simp add: get_or_def assms(1))
  have "ospf_calls m' n = ospf_calls m n" "bgp_call m' n = bgp_call m n" "mpls_peer m' n = mpls_peer m n"
    by (intro ext, simp only: ospf_calls_def bgp_call_def mpls_peer_def g)+
  then show ?thesis by (simp add: node_set_def assms(2) ospf_set_def bgp_set_def mpls_set_def)
qed


section \<open>Properties\<close>

text \<open>
  C32: the topology is a simple graph per layer. Whatever the nodes answer, every edge the exporter keeps
  joins two different endpoints, the smaller name first, under the key of its layer and endpoints, so
  a link seen from both ends is one edge; and every edge outside the VLAN layer joins two nodes of
  the inventory.
\<close>

theorem topo_edges_wellformed:
  assumes "topo_edges rng ask iv ns nodes = Some es"
  shows "gomap_ok es \<and>
    (\<forall>k e. map_of es k = Some e \<longrightarrow>
       k = edge_key (ed_layer e) (ed_src e) (ed_dst e) \<and> ed_src e < ed_dst e \<and>
       (ed_layer e = ''vlan'' \<or> map_of iv (ed_src e) \<noteq> None \<and> map_of iv (ed_dst e) \<noteq> None))"
proof -
  from assms obtain cs where es: "es = do_calls iv cs" by (auto simp: topo_edges_def do_calls_def)
  have "k = key_of e \<and> ed_src e < ed_dst e \<and>
      (ed_layer e = ''vlan'' \<or> map_of iv (ed_src e) \<noteq> None \<and> map_of iv (ed_dst e) \<noteq> None)"
    if "map_of es k = Some e" for k e
    using do_calls_offered [of iv cs k e] that es call_edge_ok [of iv _ e] by blast
  with do_calls_ok es show ?thesis by (auto simp: key_of_def)
qed

text \<open>
  C33: the page does not depend on the order in which Go visits its maps or a node lists its updates. When
  no address belongs to two nodes, a label has one next hop and interface, and the sessions of one
  pair of nodes agree up to the default instance (a provider reports its VRF, the customer its own
  default), two refreshes that get the same answers in any order give the same page.
\<close>

theorem topo_page_order_independent:
  assumes "set nodes' = set nodes" and "set ns = set nodes" and "set ns' = set nodes"
    and "\<And>n p. set (ask' n p) = set (ask n p)"
    and "\<And>m. mset (rng m) = mset m" and "\<And>m. mset (rng' m) = mset m"
    and "\<And>ip n n'. n \<in> set (ip_owners ask nodes ip) \<Longrightarrow> n' \<in> set (ip_owners ask nodes ip) \<Longrightarrow> n = n'"
    and "\<And>n. n \<in> set nodes \<Longrightarrow> lfib_fun (ask n lfibPath)"
    and "agree iv (\<Union>n \<in> set nodes. node_set ask (buildIP2Node ask nodes) n)"
  shows "topo_render rng' ask' iv ns' nodes' = topo_render rng ask iv ns nodes"
proof -
  let ?m = "buildIP2Node ask ns" and ?m' = "buildIP2Node ask' ns'"
  have ips: "set (answer_ips (ask' n addrPath)) = set (answer_ips (ask n addrPath))" for n
    by (auto simp: answer_ips_def assms(4))
  have m0: "map_of ?m = map_of (buildIP2Node ask nodes)" by (rule buildIP2Node_order [OF assms(2,7)])
  have "map_of ?m' = map_of (buildIP2Node ask ns')"
    by (simp add: fun_eq_iff map_of_buildIP2Node ip_owners_def ips)
  also have "\<dots> = map_of (buildIP2Node ask nodes)" by (rule buildIP2Node_order [OF assms(3,7)])
  finally have m: "map_of ?m' = map_of ?m" by (simp only: m0)
  have fun': "\<forall>n \<in> set nodes'. lfib_fun (ask' n lfibPath)" "\<forall>n \<in> set nodes. lfib_fun (ask n lfibPath)"
    using assms(1,8) lfib_fun_cong [OF assms(4)] by auto
  have panic: "no_panic ask' n \<longleftrightarrow> no_panic ask n" for n by (simp add: no_panic_def assms(4))
  show ?thesis
  proof (cases "all_calls rng ask ?m nodes")
    case None
    then have "all_calls rng' ask' ?m' nodes' = None"
      using all_calls_None [of rng ask ?m nodes] all_calls_None [of rng' ask' ?m' nodes'] panic assms(1) by simp
    with None show ?thesis by (simp add: topo_render_def topo_edges_def)
  next
    case (Some cs)
    then obtain cs' where cs': "all_calls rng' ask' ?m' nodes' = Some cs'"
      using all_calls_None [of rng ask ?m nodes] all_calls_None [of rng' ask' ?m' nodes'] panic assms(1)
      by (cases "all_calls rng' ask' ?m' nodes'") auto
    have "set cs' = (\<Union>n \<in> set nodes'. node_set ask' ?m' n)"
      by (rule all_calls_Some [where rng = rng', OF assms(6) fun'(1) cs'])
    also have "\<dots> = (\<Union>n \<in> set nodes. node_set ask ?m n)"
      using assms(1) node_set_cong [of ?m' ?m ask' _ ask, OF m assms(4)] by simp
    also have eq: "\<dots> = set cs"
      by (rule all_calls_Some [where rng = rng, OF assms(5) fun'(2) Some, symmetric])
    finally have "set cs' = set cs" .
    moreover have "agree iv (set cs)"
      using assms(9) node_set_cong [of ?m "buildIP2Node ask nodes" ask _ ask, OF m0 refl] eq by simp
    ultimately have "map_of (do_calls iv cs') = map_of (do_calls iv cs)" by (intro do_calls_set)
    from topo_page_cong [OF do_calls_ok do_calls_ok this]
    show ?thesis
      unfolding topo_render_def topo_edges_def Some cs' do_calls_def by simp
  qed
qed

text \<open>
  The detail of an edge does depend on the order when a pair of nodes has sessions in two VRFs: the
  edge keeps the VRF that is seen first and the other one is not shown.
\<close>

theorem topo_detail_depends_on_order:
  assumes "map_of iv a \<noteq> None" and "map_of iv b \<noteq> None" and "a < b"
    and "\<not> suffix ''=default'' d1" and "\<not> suffix ''=default'' d2"
  shows "map_option ed_detail (map_of (addEdge iv ''bgp'' a b d2 (addEdge iv ''bgp'' a b d1 [])) (edge_key ''bgp'' a b)) =
      Some d1 \<and>
    map_option ed_detail (map_of (addEdge iv ''bgp'' a b d1 (addEdge iv ''bgp'' a b d2 [])) (edge_key ''bgp'' a b)) =
      Some d2"
  using assms by (auto simp: addEdge_def Let_def)

theorem topo_detail_depends_on_order_witness:
  "map_option ed_detail (map_of (addEdge [(''pe1'', ''172.31.0.1''), (''pe2'', ''172.31.0.2'')] ''bgp'' ''pe1'' ''pe2'' ''vrf=blue''
      (addEdge [(''pe1'', ''172.31.0.1''), (''pe2'', ''172.31.0.2'')] ''bgp'' ''pe1'' ''pe2'' ''vrf=red'' []))
      (edge_key ''bgp'' ''pe1'' ''pe2'')) = Some ''vrf=red''"
  by (rule topo_detail_depends_on_order [THEN conjunct1]) (simp_all add: suffix_def)

text \<open>A provider edge and its customer: each sees the session, the provider in the VRF \<^verbatim>\<open>cust\<close>.\<close>

definition pair_ask :: ask where
  "pair_ask n p =
     (if p = bgpPath then
        (if n = ''pe1'' then [(Some (neighborElems ''cust'' ''10.1.1.2'' ''session-state''), Some (StringVal ''ESTABLISHED''))]
         else if n = ''ce1'' then [(Some (neighborElems ''default'' ''10.1.1.1'' ''session-state''), Some (StringVal ''ESTABLISHED''))]
         else [])
      else if p = addrPath then
        (if n = ''pe1'' then [(Some [elk ''address'' [(''ip'', ''10.1.1.1'')]], None)]
         else if n = ''ce1'' then [(Some [elk ''address'' [(''ip'', ''10.1.1.2'')]], None)]
         else [])
      else [])"

abbreviation (input) pair_inv :: "(string, string) gomap" where
  "pair_inv \<equiv> [(''ce1'', ''172.31.0.1''), (''pe1'', ''172.31.0.2'')]"

lemma pair_paths:
  "lldpPath \<noteq> bgpPath" "ospfPath \<noteq> bgpPath" "lfibPath \<noteq> bgpPath" "fdbPath \<noteq> bgpPath" "addrPath \<noteq> bgpPath"
  "lldpPath \<noteq> addrPath" "ospfPath \<noteq> addrPath" "lfibPath \<noteq> addrPath" "fdbPath \<noteq> addrPath"
  by (simp_all add: lldpPath_def ospfPath_def bgpPath_def lfibPath_def fdbPath_def addrPath_def oc_path_def)

lemma pair_ips:
  "answer_ips (pair_ask n addrPath) = (if n = ''pe1'' then [''10.1.1.1''] else if n = ''ce1'' then [''10.1.1.2''] else [])"
  by (simp add: pair_ask_def pair_paths answer_ips_def dissect_def get_or_def skip_ip_def)

lemma pair_ip2node:
  "buildIP2Node pair_ask [''ce1'', ''pe1''] = [(''10.1.1.2'', ''ce1''), (''10.1.1.1'', ''pe1'')]"
  by (simp add: buildIP2Node_def ip_loop_def pair_ask_def pair_paths dissect_def get_or_def skip_ip_def)

lemma pair_calls:
  "(\<Union>n \<in> set [''ce1'', ''pe1'']. node_set pair_ask (buildIP2Node pair_ask [''ce1'', ''pe1'']) n) =
    {Edge ''bgp'' ''ce1'' ''pe1'' ''vrf=default'', Edge ''bgp'' ''pe1'' ''ce1'' ''vrf=cust''}"
  unfolding pair_ip2node
  by (auto simp: node_set_def lldp_set_def ospf_set_def bgp_set_def mpls_set_def vlan_set_def says_def
      pair_ask_def pair_paths bgp_up_def bgp_call_def sval_def equal_fold_def dissect_def neighborElems_def
      get_or_def)

theorem topo_page_order_independent_witness:
  "topo_render rev pair_ask pair_inv [''ce1'', ''pe1''] [''pe1'', ''ce1''] =
   topo_render id pair_ask pair_inv [''pe1'', ''ce1''] [''ce1'', ''pe1'']"
proof (rule topo_page_order_independent)
  show "set [''pe1'', ''ce1''] = set [''ce1'', ''pe1'']" by auto
  show "set [''pe1'', ''ce1''] = set [''ce1'', ''pe1'']" by auto
  show "n = n'" if "n \<in> set (ip_owners pair_ask [''ce1'', ''pe1''] ip)" "n' \<in> set (ip_owners pair_ask [''ce1'', ''pe1''] ip)"
    for ip n n'
    using that by (auto simp: ip_owners_def pair_ips split: if_splits)
  show "lfib_fun (pair_ask n lfibPath)" for n by (simp add: pair_ask_def pair_paths lfib_fun_def)
  show "agree pair_inv (\<Union>n \<in> set [''ce1'', ''pe1'']. node_set pair_ask (buildIP2Node pair_ask [''ce1'', ''pe1'']) n)"
    unfolding pair_calls by (auto simp: agree_def mk_edge_def sorted_pair_def weak_def suffix_def)
qed simp_all

theorem topo_edges_wellformed_witness:
  "topo_edges rev pair_ask pair_inv [''ce1'', ''pe1''] [''pe1'', ''ce1''] =
     Some [(edge_key ''bgp'' ''ce1'' ''pe1'', \<lparr>ed_layer = ''bgp'', ed_src = ''ce1'', ed_dst = ''pe1'', ed_detail = ''vrf=cust''\<rparr>)] \<and>
   ''ce1'' < ''pe1'' \<and> map_of pair_inv ''ce1'' \<noteq> None"
proof -
  have es: "topo_edges rev pair_ask pair_inv [''ce1'', ''pe1''] [''pe1'', ''ce1''] =
      Some [(edge_key ''bgp'' ''ce1'' ''pe1'', \<lparr>ed_layer = ''bgp'', ed_src = ''ce1'', ed_dst = ''pe1'', ed_detail = ''vrf=cust''\<rparr>)]"
    by code_simp
  with topo_edges_wellformed [OF es] show ?thesis by simp
qed

end
