(* ===== verification/Topology_Adj.thy ===== *)
theory Topology_Adj
  imports Topology_Props Lldp Ospf Netlink
begin

text \<open>
  The composition of the collectors and the topology exporter: its edges are the adjacencies that the
  LLDP, OSPF and BMP ingesters wrote into the nodes' caches, seen from either end.
\<close>

section \<open>Edges are the adjacencies in the caches\<close>

text \<open>What the ingesters of a node wrote: system names by the LLDP ingester, adjacency states by the OSPF
  ingester, session states by the BMP ingester.\<close>

definition adj_shaped :: "store \<Rightarrow> bool" where
  "adj_shaped st \<longleftrightarrow>
     (\<forall>q v. store_look st ''openconfig'' q = Some v \<longrightarrow>
        (path_match (gp_elem lldpPath) q \<longrightarrow> (\<exists>ifn nid t. q = lldpElems ifn nid ''system-name'' \<and> v = StringVal t)) \<and>
        (path_match (gp_elem ospfPath) q \<longrightarrow> (\<exists>ifn rid t. q = ospfNbrElems ifn rid ''adjacency-state'' \<and> v = StringVal t)) \<and>
        (path_match (gp_elem bgpPath) q \<longrightarrow> (\<exists>vrf ip t. q = neighborElems vrf ip ''session-state'' \<and> v = StringVal t)))"

definition lldp_adj :: "store \<Rightarrow> string \<Rightarrow> bool" where
  "lldp_adj st peer \<longleftrightarrow>
     (\<exists>ifn nid. store_look st ''openconfig'' (lldpElems ifn nid ''system-name'') = Some (StringVal peer))"

definition ospf_adj :: "(string, string) gomap \<Rightarrow> store \<Rightarrow> string \<Rightarrow> string \<Rightarrow> bool" where
  "ospf_adj m st self peer \<longleftrightarrow>
     (\<exists>ifn rid t. store_look st ''openconfig'' (ospfNbrElems ifn rid ''adjacency-state'') = Some (StringVal t) \<and>
        equal_fold t ''FULL'' \<and>
        peer = (if ifacePeer ifn self = '''' then get_or '''' m rid else ifacePeer ifn self))"

definition bgp_adj :: "(string, string) gomap \<Rightarrow> store \<Rightarrow> string \<Rightarrow> bool" where
  "bgp_adj m st peer \<longleftrightarrow>
     (\<exists>vrf ip t. store_look st ''openconfig'' (neighborElems vrf ip ''session-state'') = Some (StringVal t) \<and>
        equal_fold t ''ESTABLISHED'' \<and> get_or '''' m ip = peer)"

text \<open>The paths of the ingesters are in the subtrees the exporter asks for, and it reads their keys.\<close>

lemma ingester_paths:
  "path_match (gp_elem lldpPath) (lldpElems ifn nid ''system-name'')"
  "path_match (gp_elem ospfPath) (ospfNbrElems ifn rid ''adjacency-state'')"
  "path_match (gp_elem bgpPath) (neighborElems vrf ip ''session-state'')"
  by (simp_all add: lldpPath_def ospfPath_def bgpPath_def oc_path_def lldpElems_def ospfNbrElems_def
      neighborElems_def state_leaf_def)

lemma ingester_keys:
  "get_or '''' (fst (dissect (Some (ospfNbrElems ifn rid ''adjacency-state'')))) ''id'' = ifn"
  "get_or '''' (fst (dissect (Some (ospfNbrElems ifn rid ''adjacency-state'')))) ''router-id'' = rid"
  "get_or '''' (fst (dissect (Some (neighborElems vrf ip ''session-state'')))) ''neighbor-address'' = ip"
  "ni_name (neighborElems vrf ip ''session-state'') = vrf"
  by (simp_all add: dissect_def ospfNbrElems_def neighborElems_def state_leaf_def get_or_def)

lemma path_origin [simp]:
  "gp_origin lldpPath = ''openconfig''" "gp_origin ospfPath = ''openconfig''" "gp_origin bgpPath = ''openconfig''"
  by (simp_all add: lldpPath_def ospfPath_def bgpPath_def oc_path_def)

lemma lldp_set_adj:
  assumes "answers_of st lldpPath ups" "adj_shaped st"
  shows "Edge layer a b d \<in> lldp_set n (set ups) \<longleftrightarrow> layer = ''physical'' \<and> a = n \<and> d = ''lldp'' \<and> lldp_adj st b"
proof
  assume "Edge layer a b d \<in> lldp_set n (set ups)"
  then obtain u where u: "u \<in> set ups" "layer = ''physical'' \<and> a = n \<and> d = ''lldp'' \<and> b = sval (snd u)"
    by (auto simp: lldp_set_def lldp_calls_def)
  from assms(1) u(1) obtain q v where q: "u = (Some q, Some v)" "store_look st ''openconfig'' q = Some v"
      "path_match (gp_elem lldpPath) q" by (rule answers_ofD) simp
  with assms(2) obtain ifn nid t where "q = lldpElems ifn nid ''system-name''" "v = StringVal t"
    unfolding adj_shaped_def by blast
  with q u(2) show "layer = ''physical'' \<and> a = n \<and> d = ''lldp'' \<and> lldp_adj st b"
    unfolding lldp_adj_def by (auto simp: sval_def)
next
  assume h: "layer = ''physical'' \<and> a = n \<and> d = ''lldp'' \<and> lldp_adj st b"
  then obtain ifn nid where "store_look st ''openconfig'' (lldpElems ifn nid ''system-name'') = Some (StringVal b)"
    by (auto simp: lldp_adj_def)
  with answers_ofI [OF assms(1) _ ingester_paths(1)]
  have "(Some (lldpElems ifn nid ''system-name''), Some (StringVal b)) \<in> set ups" by simp
  with h show "Edge layer a b d \<in> lldp_set n (set ups)"
    by (force simp: lldp_set_def lldp_calls_def sval_def)
qed

lemma ospf_set_adj:
  assumes "answers_of st ospfPath ups" "adj_shaped st"
  shows "Edge layer a b d \<in> ospf_set m n (set ups) \<longleftrightarrow> layer = ''ospf'' \<and> a = n \<and> d = ''area'' \<and> ospf_adj m st n b"
proof
  assume "Edge layer a b d \<in> ospf_set m n (set ups)"
  then obtain u where u: "u \<in> set ups" "Edge layer a b d \<in> set (ospf_calls m n [u])"
    by (auto simp: ospf_set_def)
  from assms(1) u(1) obtain q v where q: "u = (Some q, Some v)" "store_look st ''openconfig'' q = Some v"
      "path_match (gp_elem ospfPath) q" by (rule answers_ofD) simp
  with assms(2) obtain ifn rid t where "q = ospfNbrElems ifn rid ''adjacency-state''" "v = StringVal t"
    unfolding adj_shaped_def by blast
  with q u(2) show "layer = ''ospf'' \<and> a = n \<and> d = ''area'' \<and> ospf_adj m st n b"
    unfolding ospf_adj_def
    by (auto simp: ospf_calls_def ingester_keys sval_def Let_def split: if_splits)
next
  assume h: "layer = ''ospf'' \<and> a = n \<and> d = ''area'' \<and> ospf_adj m st n b"
  then obtain ifn rid t where o:
      "store_look st ''openconfig'' (ospfNbrElems ifn rid ''adjacency-state'') = Some (StringVal t)"
      "equal_fold t ''FULL''" "b = (if ifacePeer ifn n = '''' then get_or '''' m rid else ifacePeer ifn n)"
    by (auto simp: ospf_adj_def)
  with answers_ofI [OF assms(1) _ ingester_paths(2)]
  have "(Some (ospfNbrElems ifn rid ''adjacency-state''), Some (StringVal t)) \<in> set ups" by simp
  moreover have "Edge layer a b d \<in>
      set (ospf_calls m n [(Some (ospfNbrElems ifn rid ''adjacency-state''), Some (StringVal t))])"
    using h o by (simp add: ospf_calls_def ingester_keys sval_def Let_def)
  ultimately show "Edge layer a b d \<in> ospf_set m n (set ups)" unfolding ospf_set_def by blast
qed

lemma bgp_set_adj:
  assumes "answers_of st bgpPath ups" "adj_shaped st"
  shows "(\<exists>d. Edge layer a b d \<in> bgp_set m n (set ups)) \<longleftrightarrow> layer = ''bgp'' \<and> a = n \<and> bgp_adj m st b"
proof
  assume "\<exists>d. Edge layer a b d \<in> bgp_set m n (set ups)"
  then obtain d u where u: "u \<in> set ups" "bgp_up u" "Edge layer a b d = bgp_call m n u"
    by (auto simp: bgp_set_def)
  from assms(1) u(1) obtain q v where q: "u = (Some q, Some v)" "store_look st ''openconfig'' q = Some v"
      "path_match (gp_elem bgpPath) q" by (rule answers_ofD) simp
  with assms(2) obtain vrf ip t where "q = neighborElems vrf ip ''session-state''" "v = StringVal t"
    unfolding adj_shaped_def by blast
  with q u(2,3) show "layer = ''bgp'' \<and> a = n \<and> bgp_adj m st b"
    unfolding bgp_adj_def by (auto simp: bgp_call_def bgp_up_def ingester_keys sval_def)
next
  assume h: "layer = ''bgp'' \<and> a = n \<and> bgp_adj m st b"
  then obtain vrf ip t where o:
      "store_look st ''openconfig'' (neighborElems vrf ip ''session-state'') = Some (StringVal t)"
      "equal_fold t ''ESTABLISHED''" "get_or '''' m ip = b"
    by (auto simp: bgp_adj_def)
  let ?u = "(Some (neighborElems vrf ip ''session-state''), Some (StringVal t))"
  from o answers_ofI [OF assms(1) _ ingester_paths(3)] have "?u \<in> set ups" by simp
  moreover have "bgp_up ?u" "Edge layer a b (''vrf='' @ vrf) = bgp_call m n ?u"
    using h o by (simp_all add: bgp_up_def bgp_call_def ingester_keys sval_def)
  ultimately show "\<exists>d. Edge layer a b d \<in> bgp_set m n (set ups)" unfolding bgp_set_def by blast
qed

text \<open>The calls of a refresh for the layers of the fabric.\<close>

lemma node_calls_mem:
  assumes "node_calls rng ask m n = Some cs" "layer \<in> {''physical'', ''ospf'', ''bgp''}"
  shows "Edge layer a b d \<in> set cs \<longleftrightarrow>
    Edge layer a b d \<in> lldp_set n (set (ask n lldpPath)) \<union> ospf_set m n (set (ask n ospfPath)) \<union>
      bgp_set m n (set (ask n bgpPath))"
proof -
  from assms(1) obtain c where c: "bgp_calls m n (ask n bgpPath) = Some c" and
    cs: "cs = lldp_calls n (ask n lldpPath) @ ospf_calls m n (ask n ospfPath) @ c @
      mpls_calls rng m n (ask n lfibPath) @ vlan_calls n (ask n fdbPath)"
    by (auto simp: node_calls_def split: Option.bind_splits)
  have "Edge layer a b d \<notin> set (mpls_calls rng m n (ask n lfibPath))"
    using assms(2) by (auto simp: mpls_calls_def Let_def split: prod.splits)
  moreover have "Edge layer a b d \<notin> vlan_set n U" for U
    by (auto simp: vlan_set_def vlan_calls_def Let_def split: prod.splits if_splits)
  ultimately show ?thesis
    unfolding cs by (auto simp: calls_sets bgp_calls_Some [OF c] bgp_set_def)
qed

lemma all_calls_mem:
  "all_calls rng ask m nodes = Some cs \<Longrightarrow> layer \<in> {''physical'', ''ospf'', ''bgp''} \<Longrightarrow>
    Edge layer a b d \<in> set cs \<longleftrightarrow>
    (\<exists>n \<in> set nodes. Edge layer a b d \<in> lldp_set n (set (ask n lldpPath)) \<union> ospf_set m n (set (ask n ospfPath)) \<union>
      bgp_set m n (set (ask n bgpPath)))"
proof (induction nodes arbitrary: cs)
  case (Cons n nodes)
  then obtain x y where "node_calls rng ask m n = Some x" "all_calls rng ask m nodes = Some y" "cs = x @ y"
    by (auto split: Option.bind_splits)
  with Cons node_calls_mem [of rng ask m n x layer a b d] show ?case by simp
qed simp

text \<open>Keys tell edges apart when the names of nodes have no bar.\<close>

definition no_bar :: "string \<Rightarrow> bool" where
  "no_bar s \<longleftrightarrow> CHR ''|'' \<notin> set s"

lemma edge_key_inj:
  assumes "no_bar l" "no_bar l'" "edge_key l x y = edge_key l' x' y'"
  shows "l = l' \<and> x @ ''|'' @ y = x' @ ''|'' @ y'"
  using assms append_sep_eq [of "CHR ''|''" l l' "x @ ''|'' @ y" "x' @ ''|'' @ y'"]
  by (simp add: edge_key_def no_bar_def)

lemma bar_inj: "no_bar x \<Longrightarrow> no_bar x' \<Longrightarrow> x @ ''|'' @ y = x' @ ''|'' @ y' \<Longrightarrow> x = x' \<and> y = y'"
  using append_sep_eq [of "CHR ''|''" x x' y y'] by (simp add: no_bar_def)

definition has_edge :: "edges \<Rightarrow> string \<Rightarrow> string \<Rightarrow> string \<Rightarrow> bool" where
  "has_edge es layer x y \<longleftrightarrow>
     (\<exists>k e. map_of es k = Some e \<and> ed_layer e = layer \<and> ed_src e = x \<and> ed_dst e = y)"

definition layers_of :: "call set \<Rightarrow> string set" where
  "layers_of C = {layer. \<exists>a b d. Edge layer a b d \<in> C}"

lemma has_edge_iff:
  assumes "\<And>n. map_of iv n \<noteq> None \<Longrightarrow> no_bar n" "\<And>l. l \<in> layers_of (set cs) \<Longrightarrow> no_bar l \<and> l \<noteq> ''vlan''"
    and "layer \<noteq> ''vlan''" "no_bar layer"
  shows "has_edge (do_calls iv cs) layer x y \<longleftrightarrow>
    x < y \<and> map_of iv x \<noteq> None \<and> map_of iv y \<noteq> None \<and>
    (\<exists>d. Edge layer x y d \<in> set cs \<or> Edge layer y x d \<in> set cs)"
proof
  assume "has_edge (do_calls iv cs) layer x y"
  then obtain k e where e: "map_of (do_calls iv cs) k = Some e" "ed_layer e = layer" "ed_src e = x" "ed_dst e = y"
    by (auto simp: has_edge_def)
  from do_calls_offered [OF e(1)] obtain c where c: "c \<in> set cs" "call_edge iv c = Some e" by blast
  with assms(3) e show "x < y \<and> map_of iv x \<noteq> None \<and> map_of iv y \<noteq> None \<and>
      (\<exists>d. Edge layer x y d \<in> set cs \<or> Edge layer y x d \<in> set cs)"
    by (cases c) (auto simp: mk_edge_def sorted_pair_def split: if_splits)
next
  assume h: "x < y \<and> map_of iv x \<noteq> None \<and> map_of iv y \<noteq> None \<and>
    (\<exists>d. Edge layer x y d \<in> set cs \<or> Edge layer y x d \<in> set cs)"
  then obtain d where d: "Edge layer x y d \<in> set cs \<or> Edge layer y x d \<in> set cs" by blast
  have "call_edge iv (Edge layer x y d) = Some \<lparr>ed_layer = layer, ed_src = x, ed_dst = y, ed_detail = d\<rparr>"
      "call_edge iv (Edge layer y x d) = Some \<lparr>ed_layer = layer, ed_src = x, ed_dst = y, ed_detail = d\<rparr>"
    using h by (auto simp: mk_edge_def sorted_pair_def)
  with d obtain c where c: "c \<in> set cs"
      "call_edge iv c = Some \<lparr>ed_layer = layer, ed_src = x, ed_dst = y, ed_detail = d\<rparr>" by blast
  from do_calls_present [OF this] obtain e where
    e: "map_of (do_calls iv cs) (edge_key layer x y) = Some e" by (auto simp: key_of_def)
  from do_calls_offered [OF this] obtain c' where
    c': "c' \<in> set cs" "call_edge iv c' = Some e" "edge_key (ed_layer e) (ed_src e) (ed_dst e) = edge_key layer x y"
    by (auto simp: key_of_def)
  have "no_bar (ed_layer e)"
  proof (cases c')
    case (Edge l a b d)
    with c' have "ed_layer e = l" "l \<in> layers_of (set cs)"
      by (auto simp: layers_of_def mk_edge_def split: if_splits)
    with assms(2) show ?thesis by blast
  next
    case (Pseudo a b d)
    with c'(2) show ?thesis by (auto simp: mk_edge_def no_bar_def split: if_splits)
  qed
  from edge_key_inj [OF this assms(4) c'(3)] have
    l: "ed_layer e = layer" and xy: "ed_src e @ ''|'' @ ed_dst e = x @ ''|'' @ y" by blast+
  from call_edge_ok(2) [OF c'(2)] l assms(3) have "map_of iv (ed_src e) \<noteq> None" by blast
  with assms(1) h have "no_bar (ed_src e)" "no_bar x" by blast+
  from bar_inj [OF this xy] e l show "has_edge (do_calls iv cs) layer x y" unfolding has_edge_def by blast
qed

lemma program_layers:
  assumes "all_calls rng ask m nodes = Some cs"
  shows "layers_of (set cs) \<subseteq> {''physical'', ''ospf'', ''bgp'', ''mpls''}"
  using assms
proof (induction nodes arbitrary: cs)
  case (Cons n nodes)
  then obtain x y where xy: "node_calls rng ask m n = Some x" "all_calls rng ask m nodes = Some y" "cs = x @ y"
    by (auto split: Option.bind_splits)
  then obtain b where b: "bgp_calls m n (ask n bgpPath) = Some b" and
    x: "x = lldp_calls n (ask n lldpPath) @ ospf_calls m n (ask n ospfPath) @ b @
      mpls_calls rng m n (ask n lfibPath) @ vlan_calls n (ask n fdbPath)"
    by (auto simp: node_calls_def split: Option.bind_splits)
  have "layers_of (set x) \<subseteq> {''physical'', ''ospf'', ''bgp'', ''mpls''}"
    unfolding x layers_of_def
    by (auto simp: bgp_calls_Some [OF b] bgp_call_def lldp_calls_def ospf_calls_def mpls_calls_def vlan_calls_def
        Let_def split: prod.splits if_splits)
  moreover have "layers_of (set cs) = layers_of (set x) \<union> layers_of (set y)"
    unfolding xy(3) layers_of_def by auto
  ultimately show ?case using Cons.IH [OF xy(2)] by simp
qed (simp add: layers_of_def)

lemma set_layers:
  "Edge layer a b d \<in> lldp_set n U \<Longrightarrow> layer = ''physical'' \<and> a = n"
  "Edge layer a b d \<in> ospf_set m n U \<Longrightarrow> layer = ''ospf'' \<and> a = n"
  "Edge layer a b d \<in> bgp_set m n U \<Longrightarrow> layer = ''bgp'' \<and> a = n"
  by (auto simp: lldp_set_def lldp_calls_def ospf_set_def ospf_calls_def bgp_set_def bgp_call_def Let_def
      split: if_splits)

lemma layer_mem:
  assumes "all_calls rng ask m nodes = Some cs"
  shows "Edge ''physical'' a b d \<in> set cs \<longleftrightarrow>
      a \<in> set nodes \<and> Edge ''physical'' a b d \<in> lldp_set a (set (ask a lldpPath))"
    and "Edge ''ospf'' a b d \<in> set cs \<longleftrightarrow>
      a \<in> set nodes \<and> Edge ''ospf'' a b d \<in> ospf_set m a (set (ask a ospfPath))"
    and "Edge ''bgp'' a b d \<in> set cs \<longleftrightarrow>
      a \<in> set nodes \<and> Edge ''bgp'' a b d \<in> bgp_set m a (set (ask a bgpPath))"
proof -
  have neq: "Edge ''physical'' a b d \<notin> ospf_set m n U" "Edge ''physical'' a b d \<notin> bgp_set m n U"
      "Edge ''ospf'' a b d \<notin> lldp_set n U" "Edge ''ospf'' a b d \<notin> bgp_set m n U"
      "Edge ''bgp'' a b d \<notin> lldp_set n U" "Edge ''bgp'' a b d \<notin> ospf_set m n U" for n U
    using set_layers by fastforce+
  show "Edge ''physical'' a b d \<in> set cs \<longleftrightarrow>
      a \<in> set nodes \<and> Edge ''physical'' a b d \<in> lldp_set a (set (ask a lldpPath))"
    using set_layers(1) by (simp add: all_calls_mem [OF assms] neq) blast
  show "Edge ''ospf'' a b d \<in> set cs \<longleftrightarrow>
      a \<in> set nodes \<and> Edge ''ospf'' a b d \<in> ospf_set m a (set (ask a ospfPath))"
    using set_layers(2) by (simp add: all_calls_mem [OF assms] neq) blast
  show "Edge ''bgp'' a b d \<in> set cs \<longleftrightarrow>
      a \<in> set nodes \<and> Edge ''bgp'' a b d \<in> bgp_set m a (set (ask a bgpPath))"
    using set_layers(3) by (simp add: all_calls_mem [OF assms] neq) blast
qed

text \<open>
  The edges of the topology are the adjacencies in the nodes' caches. When the nodes of the inventory
  answer from caches their ingesters wrote and the names of nodes have no bar, two nodes are joined in
  the physical layer exactly when one has the other's name as an LLDP neighbour, in the OSPF layer
  exactly when one has a full adjacency whose interface or router id leads to the other, and in the
  BGP layer exactly when one has an established session with an address of the other.
\<close>

theorem topo_edges_are_adjacencies:
  assumes "topo_edges rng ask iv ns nodes = Some es" and "\<And>n. n \<in> set nodes \<longleftrightarrow> map_of iv n \<noteq> None"
    and "\<And>n. n \<in> set nodes \<Longrightarrow> no_bar n" and "\<And>n. n \<in> set nodes \<Longrightarrow> adj_shaped (cache n)"
    and "\<And>n p. n \<in> set nodes \<Longrightarrow> p \<in> {lldpPath, ospfPath, bgpPath} \<Longrightarrow> answers_of (cache n) p (ask n p)"
  defines "m \<equiv> buildIP2Node ask ns"
  shows "(has_edge es ''physical'' x y \<longleftrightarrow>
      x < y \<and> {x, y} \<subseteq> set nodes \<and> (lldp_adj (cache x) y \<or> lldp_adj (cache y) x)) \<and>
    (has_edge es ''ospf'' x y \<longleftrightarrow>
      x < y \<and> {x, y} \<subseteq> set nodes \<and> (ospf_adj m (cache x) x y \<or> ospf_adj m (cache y) y x)) \<and>
    (has_edge es ''bgp'' x y \<longleftrightarrow>
      x < y \<and> {x, y} \<subseteq> set nodes \<and> (bgp_adj m (cache x) y \<or> bgp_adj m (cache y) x))"
proof -
  from assms(1) obtain cs where cs: "all_calls rng ask m nodes = Some cs" "es = do_calls iv cs"
    by (auto simp: topo_edges_def do_calls_def m_def)
  have bar: "map_of iv n \<noteq> None \<Longrightarrow> no_bar n" for n using assms(2,3) by blast
  have lay: "l \<in> layers_of (set cs) \<Longrightarrow> no_bar l \<and> l \<noteq> ''vlan''" for l
    using program_layers [OF cs(1)] by (auto simp: no_bar_def)
  have phys: "(\<exists>d. Edge ''physical'' a b d \<in> set cs) \<longleftrightarrow> a \<in> set nodes \<and> lldp_adj (cache a) b" for a b
    using lldp_set_adj [OF assms(5) assms(4), where layer = "''physical''" and n = a and a = a and b = b]
    by (cases "a \<in> set nodes") (simp_all add: layer_mem [OF cs(1)])
  have ospf: "(\<exists>d. Edge ''ospf'' a b d \<in> set cs) \<longleftrightarrow> a \<in> set nodes \<and> ospf_adj m (cache a) a b" for a b
    using ospf_set_adj [OF assms(5) assms(4), where layer = "''ospf''" and n = a and a = a and b = b and m = m]
    by (cases "a \<in> set nodes") (simp_all add: layer_mem [OF cs(1)])
  have bgp: "(\<exists>d. Edge ''bgp'' a b d \<in> set cs) \<longleftrightarrow> a \<in> set nodes \<and> bgp_adj m (cache a) b" for a b
    using bgp_set_adj [OF assms(5) assms(4), where layer = "''bgp''" and n = a and a = a and b = b and m = m]
    by (cases "a \<in> set nodes") (simp_all add: layer_mem [OF cs(1)])
  have iff: "has_edge es layer x y \<longleftrightarrow> x < y \<and> x \<in> set nodes \<and> y \<in> set nodes \<and>
      ((\<exists>d. Edge layer x y d \<in> set cs) \<or> (\<exists>d. Edge layer y x d \<in> set cs))"
    if "layer \<in> {''physical'', ''ospf'', ''bgp''}" for layer
    unfolding cs(2) assms(2) using that
    by (subst has_edge_iff [OF bar lay]) (auto simp: no_bar_def)
  show ?thesis
    by (simp only: iff insertI1 insertI2 phys ospf bgp) auto
qed

definition pair_leaves :: "string \<Rightarrow> leaf_list" where
  "pair_leaves n =
     (if n = ''pe1'' then
        [((''openconfig'', neighborElems ''cust'' ''10.1.1.2'' ''session-state''), StringVal ''ESTABLISHED''),
         ((''openconfig'', addrElems ''eth1'' ''10.1.1.1'' ''ip''), StringVal ''10.1.1.1'')]
      else
        [((''openconfig'', neighborElems ''default'' ''10.1.1.1'' ''session-state''), StringVal ''IDLE''),
         ((''openconfig'', addrElems ''eth1'' ''10.1.1.2'' ''ip''), StringVal ''10.1.1.2'')])"

lemma pair_leaves_ok: "gomap_ok (pair_leaves n)"
  by (simp add: pair_leaves_def neighborElems_def addrElems_def)

lemma pair_leaves_shaped: "adj_shaped (map_of (pair_leaves n))"
  unfolding adj_shaped_def
  by (auto simp: pair_leaves_def store_look_def lldpPath_def ospfPath_def bgpPath_def oc_path_def
      neighborElems_def addrElems_def state_leaf_def)

lemma pair_leaves_ip2node:
  "buildIP2Node (\<lambda>n. serve (pair_leaves n)) [''ce1'', ''pe1''] = [(''10.1.1.2'', ''ce1''), (''10.1.1.1'', ''pe1'')]"
  by (simp add: buildIP2Node_def ip_loop_def serve_def pair_leaves_def addrPath_def neighborElems_def addrElems_def
      state_leaf_def dissect_def get_or_def skip_ip_def)

theorem topo_edges_are_adjacencies_witness:
  "\<exists>es. topo_edges id (\<lambda>n. serve (pair_leaves n)) pair_inv [''ce1'', ''pe1''] [''ce1'', ''pe1''] = Some es \<and>
    has_edge es ''bgp'' ''ce1'' ''pe1'' \<and> \<not> has_edge es ''physical'' ''ce1'' ''pe1''"
proof -
  let ?ask = "\<lambda>n. serve (pair_leaves n)" and ?ns = "[''ce1'', ''pe1'']"
  have "\<forall>n \<in> set ?ns. no_panic ?ask n"
    by (simp add: no_panic_def serve_def split_beta)
  with all_calls_None [of id ?ask "buildIP2Node ?ask ?ns" ?ns] obtain cs where
    "all_calls id ?ask (buildIP2Node ?ask ?ns) ?ns = Some cs" by blast
  then obtain es where es: "topo_edges id ?ask pair_inv ?ns ?ns = Some es" by (simp add: topo_edges_def)
  have "bgp_adj (buildIP2Node ?ask ?ns) (map_of (pair_leaves ''pe1'')) ''ce1''"
    unfolding bgp_adj_def pair_leaves_ip2node
    by (intro exI [of _ "''cust''"] exI [of _ "''10.1.1.2''"] exI [of _ "''ESTABLISHED''"])
       (simp add: store_look_def pair_leaves_def equal_fold_def get_or_def)
  moreover have "\<not> lldp_adj (map_of (pair_leaves n)) peer" for n peer
    by (auto simp: lldp_adj_def store_look_def pair_leaves_def neighborElems_def addrElems_def lldpElems_def)
  moreover have inv: "n \<in> set ?ns \<longleftrightarrow> map_of pair_inv n \<noteq> None" for n by simp
  moreover have bar: "no_bar n" if "n \<in> set ?ns" for n using that by (auto simp: no_bar_def)
  ultimately have "has_edge es ''bgp'' ''ce1'' ''pe1'' \<and> \<not> has_edge es ''physical'' ''ce1'' ''pe1''"
    using topo_edges_are_adjacencies [OF es inv bar pair_leaves_shaped serve_answers [OF pair_leaves_ok],
        where x = "''ce1''" and y = "''pe1''"] by simp
  with es show ?thesis by blast
qed

end
