(* ===== verification/Cgroup.thy ===== *)
theory Cgroup
  imports Gnmi
begin

text \<open>
  \<^verbatim>\<open>internal/ingest/cgroup.go\<close>: the sampler of the container's own control group. The files are the
  argument \<open>fs\<close>, the content under a path or \<^const>\<open>None\<close> when it cannot be read; the ticker and the
  log are left out. A sample is the list of its calls to the cache.
\<close>

section \<open>Operations\<close>

abbreviation (input) cg_root :: string where
  "cg_root \<equiv> ''/sys/fs/cgroup''"

definition hostElems :: "string \<Rightarrow> string \<Rightarrow> elems" where
  "hostElems grp leaf = [el ''container'', el grp, el ''state'', el leaf]"

definition hostUpdate :: "string \<Rightarrow> string \<Rightarrow> u64 \<Rightarrow> gupdate" where
  "hostUpdate grp leaf v = (hostElems grp leaf, uintVal v)"

text \<open>The lines a \<^verbatim>\<open>bufio.Scanner\<close> delivers: without their line feed and one carriage return before it, no
  empty last line, and nothing from a line on that does not fit its buffer of 64 KB.\<close>

definition drop_cr :: "string \<Rightarrow> string" where
  "drop_cr l = (if l \<noteq> [] \<and> last l = CHR 0x0D then butlast l else l)"

definition scan_lines :: "string \<Rightarrow> string list" where
  "scan_lines s =
     (let ls = split_on CHR 0x0A s;
          ls = (if last ls = [] then butlast ls else ls)
      in map drop_cr (takeWhile (\<lambda>l. length l < 65536) ls))"

definition kv_line :: "string \<Rightarrow> (string, u64) gomap \<Rightarrow> (string, u64) gomap" where
  "kv_line l m =
     (case GoStrings.fields l of
        [k, w] \<Rightarrow> (case parse_uint w of Some v \<Rightarrow> map_put k v m | None \<Rightarrow> m)
      | _ \<Rightarrow> m)"

definition readKV :: "string option \<Rightarrow> (string, u64) gomap" where
  "readKV f = (case f of None \<Rightarrow> [] | Some s \<Rightarrow> foldl (\<lambda>m l. kv_line l m) [] (scan_lines s))"

definition readUint :: "string option \<Rightarrow> u64 option" where
  "readUint f = (case f of None \<Rightarrow> None | Some s \<Rightarrow> parse_uint (trim_space s))"

definition readLimit :: "string option \<Rightarrow> u64 option" where
  "readLimit f =
     (case f of None \<Rightarrow> None
      | Some s \<Rightarrow> if trim_space s = ''max'' then None else parse_uint (trim_space s))"

definition cpu_leaves :: "(string \<times> string) list" where
  "cpu_leaves =
     [(''usage_usec'', ''usage-usec''), (''user_usec'', ''user-usec''), (''system_usec'', ''system-usec''),
      (''nr_periods'', ''nr-periods''), (''nr_throttled'', ''nr-throttled''),
      (''throttled_usec'', ''throttled-usec'')]"

definition opt_update :: "string \<Rightarrow> string \<Rightarrow> u64 option \<Rightarrow> gupdate list" where
  "opt_update grp leaf v = (case v of None \<Rightarrow> [] | Some v \<Rightarrow> [hostUpdate grp leaf v])"

definition sample_updates :: "(string \<Rightarrow> string option) \<Rightarrow> gupdate list" where
  "sample_updates fs =
     (let cpu = readKV (fs (cg_root @ ''/cpu.stat''))
      in concat (map (\<lambda>(key, leaf). opt_update ''cpu'' leaf (map_of cpu key)) cpu_leaves) @
         opt_update ''memory'' ''current'' (readUint (fs (cg_root @ ''/memory.current''))) @
         opt_update ''memory'' ''swap-current'' (readUint (fs (cg_root @ ''/memory.swap.current''))) @
         opt_update ''memory'' ''max'' (readLimit (fs (cg_root @ ''/memory.max''))))"

definition cgroup_sample :: "(string \<Rightarrow> string option) \<Rightarrow> eff list" where
  "cgroup_sample fs =
     (let ups = sample_updates fs in if ups \<noteq> [] then [CacheUpdate ''host'' ups []] else [])"

text \<open>\<^verbatim>\<open>Run\<close>: nothing without \<^verbatim>\<open>cpu.stat\<close>; else a sample at once and one at every tick.\<close>

definition cgroup_Run :: "(string \<Rightarrow> string option) list \<Rightarrow> eff list" where
  "cgroup_Run fss =
     (case fss of [] \<Rightarrow> []
      | fs # _ \<Rightarrow> if fs (cg_root @ ''/cpu.stat'') = None then [] else concat (map cgroup_sample fss))"


section \<open>Lemmas\<close>

definition kv_text :: "(string \<times> nat) list \<Rightarrow> string" where
  "kv_text kvs = concat (map (\<lambda>(k, v). k @ '' '' @ dec v @ [CHR 0x0A]) kvs)"

definition kv_ok :: "string \<times> nat \<Rightarrow> bool" where
  "kv_ok kv \<longleftrightarrow> fst kv \<noteq> [] \<and> (\<forall>c \<in> set (fst kv). \<not> is_space c) \<and> snd kv < 18446744073709551616 \<and>
     length (fst kv) < 65000"

lemma space_chars [simp]: "is_space CHR '' ''" "is_space CHR 0x0A" "is_space CHR 0x0D"
  by (simp_all add: is_space_def)

lemma digit_not_space: "is_digit c \<Longrightarrow> \<not> is_space c"
  by (auto simp: is_digit_def is_space_def Let_def)

lemma dec_not_space: "c \<in> set (dec n) \<Longrightarrow> \<not> is_space c"
  by (rule digit_not_space) (rule dec_digits)

lemma dec_length: "n < 10 ^ k \<Longrightarrow> 0 < k \<Longrightarrow> length (dec n) \<le> k"
proof (induction n arbitrary: k rule: dec.induct)
  case (1 n)
  show ?case
  proof (cases "n < 10")
    case True
    with 1 show ?thesis by (subst dec.simps) simp
  next
    case False
    with "1.prems" obtain j where k: "k = Suc j" "0 < j" by (cases k; cases "k - 1") auto
    with "1.prems" have "n div 10 < 10 ^ j" by (simp add: less_mult_imp_div_less mult.commute)
    with "1.IH" False k have "length (dec (n div 10)) \<le> j" by simp
    with False k show ?thesis by (subst dec.simps) simp
  qed
qed

lemma fields_pair:
  assumes "w \<noteq> []" "v \<noteq> []" "\<forall>c \<in> set w. \<not> is_space c" "\<forall>c \<in> set v. \<not> is_space c"
  shows "GoStrings.fields (w @ CHR '' '' # v) = [w, v]"
  using assms split_by_append [of is_space "CHR '' ''" w v] split_by_no_sep [of v is_space]
  by (simp add: GoStrings.fields_def)

lemma kv_line_print:
  "kv_ok (k, v) \<Longrightarrow> kv_line (k @ CHR '' '' # dec v) m = map_put k (of_nat v) m"
  by (simp add: kv_line_def kv_ok_def fields_pair dec_not_space parse_uint_dec)

lemma scan_kv_text:
  assumes "list_all kv_ok kvs"
  shows "scan_lines (kv_text kvs) = map (\<lambda>(k, v). k @ CHR '' '' # dec v) kvs"
proof -
  let ?l = "\<lambda>(k, v). k @ CHR '' '' # dec v"
  have split: "split_on CHR 0x0A (kv_text kvs) = map ?l kvs @ [[]]"
    using assms
  proof (induction kvs)
    case (Cons kv kvs)
    obtain k v where kv: "kv = (k, v)" by force
    have "CHR 0x0A \<notin> set (k @ CHR '' '' # dec v)"
      using Cons.prems kv dec_not_space [of "CHR 0x0A" v] by (auto simp: kv_ok_def)
    with Cons kv split_on_append [of "CHR 0x0A" "k @ CHR '' '' # dec v" "kv_text kvs"]
    show ?case by (simp add: kv_text_def)
  qed (simp add: kv_text_def split_on_def)
  have short: "length (?l kv) < 65536" if "kv \<in> set kvs" for kv
  proof -
    have "snd kv < 10 ^ 20" "length (fst kv) < 65000" using assms that by (auto simp: list_all_iff kv_ok_def)
    with dec_length [of "snd kv" 20] show ?thesis by (cases kv) simp
  qed
  have cr: "drop_cr (?l kv) = ?l kv" for kv
  proof (cases kv)
    case (Pair k v)
    have "last (dec v) \<noteq> CHR 0x0D" using dec_not_space [of "last (dec v)" v] by auto
    with Pair show ?thesis by (simp add: drop_cr_def)
  qed
  have "takeWhile (\<lambda>l. length l < 65536) (map ?l kvs) = map ?l kvs"
    using short by (auto simp: takeWhile_eq_all_conv)
  moreover have "map drop_cr (map ?l kvs) = map ?l kvs" using cr by (simp add: comp_def)
  ultimately show ?thesis by (simp only: scan_lines_def split Let_def last_snoc butlast_snoc if_True simp_thms)
qed

lemma readKV_print:
  assumes "list_all kv_ok kvs"
  shows "map_of (readKV (Some (kv_text kvs))) = map_option of_nat \<circ> map_of (rev kvs)"
proof -
  have "foldl (\<lambda>m l. kv_line l m) m (map (\<lambda>(k, v). k @ CHR '' '' # dec v) kvs) =
      foldl (\<lambda>m (k, v). map_put k v m) m (map (\<lambda>(k, v). (k, of_nat v)) kvs)" for m
    using assms by (induction kvs arbitrary: m) (auto simp: kv_line_print)
  then have "map_of (readKV (Some (kv_text kvs))) = map_of (rev (map (\<lambda>(k, v). (k, of_nat v)) kvs))"
    by (simp add: readKV_def scan_kv_text [OF assms] map_of_foldl_put)
  also have "\<dots> = map_option of_nat \<circ> map_of (rev kvs)"
    unfolding rev_map by (rule ext) (simp add: map_of_map)
  finally show ?thesis .
qed

lemma trim_line: "\<forall>c \<in> set s. \<not> is_space c \<Longrightarrow> trim_space (s @ [CHR 0x0A]) = s"
  by (cases s rule: rev_cases)
     (auto simp: trim_space_def trim_by_def dropWhile_append dropWhile_eq_self_iff hd_append split: if_splits)

lemma readUint_print: "n < 18446744073709551616 \<Longrightarrow> readUint (Some (dec n @ [CHR 0x0A])) = Some (of_nat n)"
  by (simp add: readUint_def trim_line dec_not_space parse_uint_dec)

lemma readLimit_print:
  "n < 18446744073709551616 \<Longrightarrow> readLimit (Some (dec n @ [CHR 0x0A])) = Some (of_nat n)"
  "readLimit (Some (''max'' @ [CHR 0x0A])) = None"
proof -
  have "dec n \<noteq> ''max''"
    using dec_digits [of "CHR ''m''" n] by (auto simp: is_digit_def)
  then show "n < 18446744073709551616 \<Longrightarrow> readLimit (Some (dec n @ [CHR 0x0A])) = Some (of_nat n)"
    by (simp add: readLimit_def trim_line dec_not_space parse_uint_dec)
  show "readLimit (Some (''max'' @ [CHR 0x0A])) = None"
    by (simp add: readLimit_def trim_space_def trim_by_def is_space_def)
qed

text \<open>The leaves a sample writes.\<close>

lemma hostElems_eq [simp]: "hostElems a x = hostElems b y \<longleftrightarrow> a = b \<and> x = y"
  by (auto simp: hostElems_def)

lemma map_of_opt:
  "map_of (rev (opt_update grp leaf v)) q = (if q = hostElems grp leaf then map_option uintVal v else None)"
  by (cases v) (auto simp: opt_update_def hostUpdate_def)

definition cpu_value :: "(string \<Rightarrow> 'v option) \<Rightarrow> elems \<Rightarrow> 'v option" where
  "cpu_value f q =
     (case filter (\<lambda>(key, leaf). q = hostElems ''cpu'' leaf) cpu_leaves of
        [] \<Rightarrow> None | (key, leaf) # _ \<Rightarrow> f key)"

lemma map_of_opts:
  "distinct (map snd tbl) \<Longrightarrow>
    map_of (rev (concat (map (\<lambda>(key, leaf). opt_update grp leaf (g key)) tbl))) q =
    (case filter (\<lambda>(key, leaf). q = hostElems grp leaf) tbl of
       [] \<Rightarrow> None | (key, leaf) # _ \<Rightarrow> map_option uintVal (g key))"
proof (induction tbl)
  case (Cons kl tbl)
  obtain key leaf where kl: "kl = (key, leaf)" by force
  show ?case
  proof (cases "q = hostElems grp leaf")
    case True
    with Cons.prems kl have "filter (\<lambda>(key, leaf). q = hostElems grp leaf) tbl = []"
      by (force simp: filter_empty_conv)
    with Cons kl True show ?thesis by (simp add: map_add_def map_of_opt)
  next
    case False
    with Cons kl show ?thesis by (auto simp: map_add_def map_of_opt split: option.splits list.splits)
  qed
qed simp

lemma sample_store:
  "store_look (apply_effs st (cgroup_sample fs)) og q =
    (if og = ''host'' then (case map_of (rev (sample_updates fs)) q of Some v \<Rightarrow> Some v | None \<Rightarrow> store_look st og q)
     else store_look st og q)"
  by (cases "sample_updates fs")
     (simp_all add: cgroup_sample_def look_apply_upd Let_def del: apply_eff.simps(1))

lemma map_of_rev_append: "map_of (rev (xs @ ys)) q = (case map_of (rev ys) q of Some v \<Rightarrow> Some v | None \<Rightarrow> map_of (rev xs) q)"
  by (simp add: map_add_def split: option.splits)

text \<open>
  C37: a sample writes what the control group says and nothing else. When \<^verbatim>\<open>cpu.stat\<close> holds key/value
  lines and the memory files a number or, for the limit, \<^verbatim>\<open>max\<close>, every CPU leaf is the last value of
  its key, the memory leaves are the numbers, and a leaf whose key is missing, the limit when it is
  \<^verbatim>\<open>max\<close>, and every other leaf of the cache are left as they were.
\<close>

theorem cgroup_sample_reads:
  assumes "list_all kv_ok kvs" and "cur < 18446744073709551616" and "swap < 18446744073709551616"
    and "\<And>n. limit = Some n \<Longrightarrow> n < 18446744073709551616"
    and "fs (cg_root @ ''/cpu.stat'') = Some (kv_text kvs)"
    and "fs (cg_root @ ''/memory.current'') = Some (dec cur @ [CHR 0x0A])"
    and "fs (cg_root @ ''/memory.swap.current'') = Some (dec swap @ [CHR 0x0A])"
    and "fs (cg_root @ ''/memory.max'') =
      Some ((case limit of None \<Rightarrow> ''max'' | Some n \<Rightarrow> dec n) @ [CHR 0x0A])"
  shows "store_look (apply_effs st (cgroup_sample fs)) og q =
    (case (if og \<noteq> ''host'' then None
           else if q = hostElems ''memory'' ''current'' then Some cur
           else if q = hostElems ''memory'' ''swap-current'' then Some swap
           else if q = hostElems ''memory'' ''max'' then limit
           else cpu_value (map_of (rev kvs)) q) of
       Some v \<Rightarrow> Some (UintVal (of_nat v)) | None \<Rightarrow> store_look st og q)"
proof -
  have limit: "readLimit (fs (cg_root @ ''/memory.max'')) = map_option of_nat limit"
    using assms(4,8) readLimit_print by (cases limit) simp_all
  have mem: "readUint (fs (cg_root @ ''/memory.current'')) = Some (of_nat cur)"
      "readUint (fs (cg_root @ ''/memory.swap.current'')) = Some (of_nat swap)"
    using assms(2,3,6,7) readUint_print by simp_all
  have cpu: "map_of (readKV (fs (cg_root @ ''/cpu.stat''))) key = map_option of_nat (map_of (rev kvs) key)" for key
    unfolding assms(5) readKV_print [OF assms(1)] by simp
  have leaves: "map_of (rev (concat (map (\<lambda>(key, leaf).
        opt_update ''cpu'' leaf (map_option of_nat (map_of (rev kvs) key))) cpu_leaves))) q =
      map_option (UintVal \<circ> of_nat) (cpu_value (map_of (rev kvs)) q)"
    unfolding cpu_value_def
    by (subst map_of_opts) (auto simp: cpu_leaves_def uintVal_def option.map_comp comp_def split: list.splits)
  have none: "cpu_value m (hostElems ''memory'' x) = None" for m :: "string \<Rightarrow> nat option" and x
    by (simp add: cpu_value_def cpu_leaves_def)
  have ups: "map_of (rev (sample_updates fs)) q =
    map_option (UintVal \<circ> of_nat)
      (if q = hostElems ''memory'' ''current'' then Some cur
       else if q = hostElems ''memory'' ''swap-current'' then Some swap
       else if q = hostElems ''memory'' ''max'' then limit
       else cpu_value (map_of (rev kvs)) q)"
    unfolding sample_updates_def Let_def cpu limit mem map_of_rev_append map_of_opt leaves
    by (cases limit) (auto simp: uintVal_def none split: option.splits)
  show ?thesis unfolding sample_store ups by (simp split: option.splits)
qed

definition demo_fs :: "string \<Rightarrow> string option" where
  "demo_fs p =
     (if p = cg_root @ ''/cpu.stat'' then Some (kv_text [(''usage_usec'', 2500), (''nr_periods'', 0)])
      else if p = cg_root @ ''/memory.current'' then Some (dec 4096 @ [CHR 0x0A])
      else if p = cg_root @ ''/memory.swap.current'' then Some (dec 0 @ [CHR 0x0A])
      else if p = cg_root @ ''/memory.max'' then Some (''max'' @ [CHR 0x0A])
      else None)"

theorem cgroup_sample_reads_witness:
  "store_look (apply_effs (\<lambda>_. None) (cgroup_sample demo_fs)) ''host'' (hostElems ''cpu'' ''usage-usec'') =
    Some (UintVal 2500) \<and>
   store_look (apply_effs (\<lambda>_. None) (cgroup_sample demo_fs)) ''host'' (hostElems ''memory'' ''max'') = None"
proof -
  have ok: "list_all kv_ok [(''usage_usec'', 2500), (''nr_periods'', 0)]"
    by (simp add: kv_ok_def is_space_def)
  note w = cgroup_sample_reads [OF ok, where cur = 4096 and swap = 0 and limit = None and fs = demo_fs and st = "\<lambda>_. None"]
  have "store_look (apply_effs (\<lambda>_. None) (cgroup_sample demo_fs)) ''host'' (hostElems ''cpu'' ''usage-usec'') = Some (UintVal 2500)"
    by (subst w) (simp_all add: demo_fs_def cpu_value_def cpu_leaves_def)
  moreover have "store_look (apply_effs (\<lambda>_. None) (cgroup_sample demo_fs)) ''host'' (hostElems ''memory'' ''max'') = None"
    by (subst w) (simp_all add: demo_fs_def store_look_def)
  ultimately show ?thesis ..
qed

end
