(* ===== verification/Ownership.thy ===== *)
theory Ownership
  imports Bmp Fpm Netlink Ospf_Props Lldp_Props Cgroup
begin

text \<open>
  The ingesters share one cache and one correlator. This theory says which leaves of the cache belong
  to which ingester and which events each of them reports, and shows that every handler keeps to it:
  whatever the input, its calls of \<^verbatim>\<open>Cache.Update\<close> stay in its own part of the tree and its events
  are of its own kinds.
\<close>

section \<open>Who owns a leaf\<close>

datatype area = ABmp | AFpm | AKernel | AOspf | ALldp | AHost

text \<open>The name of the element at a depth of a path.\<close>

definition name_at :: "nat \<Rightarrow> elems \<Rightarrow> string option" where
  "name_at k p = (if k < length p then Some (pe_name (p ! k)) else None)"

definition owner :: "string \<Rightarrow> elems \<Rightarrow> area option" where
  "owner og p =
     (if og = ''host'' then Some AHost
      else if og = ''frr'' then
        (if name_at 0 p = Some ''bgp-rib'' then Some ABmp
         else if name_at 0 p = Some ''mpls'' then Some AKernel else None)
      else if og = ''openconfig'' then
        (if name_at 0 p = Some ''lldp'' then Some ALldp
         else if name_at 0 p = Some ''interfaces'' then Some AKernel
         else if name_at 0 p = Some ''network-instances'' then
           (if name_at 2 p = Some ''fdb'' then Some AKernel
            else if name_at 2 p = Some ''afts'' then Some AFpm
            else if name_at 4 p = Some ''bgp'' then Some ABmp
            else if name_at 4 p = Some ''ospfv2'' then Some AOspf else None)
         else None)
      else None)"

lemma name_at_0 [simp]: "name_at 0 (e # p) = Some (pe_name e)"
  and name_at_Suc [simp]: "name_at (Suc k) (e # p) = name_at k p"
  by (simp_all add: name_at_def)

lemma name_at_numeral [simp]: "name_at (numeral k) (e # p) = name_at (pred_numeral k) p"
  by (simp add: numeral_eq_Suc)

lemma name_at_append: "name_at k p = Some x \<Longrightarrow> name_at k (p @ q) = Some x"
  by (simp add: name_at_def nth_append split: if_splits)

text \<open>Below a path that belongs to an ingester, everything belongs to it.\<close>

lemma name_at_0_2: "name_at 2 p = Some x \<Longrightarrow> \<exists>y. name_at 0 p = Some y"
  by (auto simp: name_at_def split: if_splits)

lemma owner_below: "owner og p = Some a \<Longrightarrow> owner og (p @ q) = Some a"
proof (cases "name_at 0 p")
  case None
  then have "p = []" by (simp add: name_at_def split: if_splits)
  then have "name_at 2 p = None" "name_at 4 p = None" by (simp_all add: name_at_def)
  with None show "owner og p = Some a \<Longrightarrow> owner og (p @ q) = Some a" by (simp add: owner_def split: if_splits)
next
  case (Some x)
  assume p: "owner og p = Some a"
  note x = name_at_append [OF Some, of q]
  show ?thesis
  proof (cases "name_at 2 p")
    case None
    then have "name_at 4 p = None" by (simp add: name_at_def split: if_splits)
    with p None Some x show ?thesis by (auto simp: owner_def split: if_splits)
  next
    case two: (Some y)
    note y = name_at_append [OF two, of q]
    show ?thesis
    proof (cases "name_at 4 p")
      case None
      with p two Some x y show ?thesis by (auto simp: owner_def split: if_splits)
    next
      case (Some z)
      note z = name_at_append [OF Some, of q]
      from p two \<open>name_at 0 p = Some x\<close> Some x y z show ?thesis by (simp add: owner_def split: if_splits)
    qed
  qed
qed

lemma owner_prefix: "owner og p = Some a \<Longrightarrow> prefix p q \<Longrightarrow> owner og q = Some a"
  by (auto simp: prefix_def owner_below)

text \<open>The owners of the rows the ingesters write.\<close>

lemma owners [simp]:
  "owner ''openconfig'' (neighborElems vrf peer leaf) = Some ABmp"
  "owner ''frr'' (vpnRouteElems rd pfx leaf) = Some ABmp"
  "owner ''openconfig'' (aftPath vrf af pfx leaf) = Some AFpm"
  "owner ''openconfig'' (ifaceElems name leaf) = Some AKernel"
  "owner ''openconfig'' (fst (counterUpdate name leaf v)) = Some AKernel"
  "owner ''openconfig'' (fdbElems mac vlan leaf) = Some AKernel"
  "owner ''frr'' (mplsElems lbl leaf) = Some AKernel"
  "owner ''openconfig'' (addrElems name ip leaf) = Some AKernel"
  "owner ''openconfig'' (ospfNbrElems iface rid leaf) = Some AOspf"
  "owner ''openconfig'' (lldpElems ifn nid leaf) = Some ALldp"
  "owner ''host'' p = Some AHost"
  by (simp_all add: owner_def neighborElems_def vpnRouteElems_def aftPath_def ifaceElems_def counterUpdate_def
      fdbElems_def mplsElems_def addrElems_def ospfNbrElems_def lldpElems_def Let_def)


section \<open>Who reports an event\<close>

definition adj_states :: "string list" where
  "adj_states =
     [''FULL'', ''TWO_WAY'', ''INIT'', ''DOWN'', ''EXCHANGE_START'', ''EXCHANGE'', ''LOADING'', ''ATTEMPT'',
      ''UNKNOWN'']"

text \<open>The events of an ingester: bus, kind, and whether one opens a trace.\<close>

definition events :: "area \<Rightarrow> (string \<times> string \<times> bool) list" where
  "events a =
     (case a of
        ABmp \<Rightarrow> [(''bmp'', ''vpn-announce'', False), (''bmp'', ''vpn-withdraw'', False)]
      | AFpm \<Rightarrow> [(''fpm'', ''route-add'', False), (''fpm'', ''route-del'', False)]
      | AKernel \<Rightarrow> [(''netlink'', ''link-up'', True), (''netlink'', ''link-down'', True)]
      | AOspf \<Rightarrow> map (\<lambda>s. (''ospf'', ''adj-'' @ lc s, True)) adj_states
      | ALldp \<Rightarrow> []
      | AHost \<Rightarrow> [])"

text \<open>An effect an ingester may have; a notification updates or deletes, never both.\<close>

fun eff_of :: "area \<Rightarrow> eff \<Rightarrow> bool" where
  "eff_of a (CacheUpdate og ups dels) \<longleftrightarrow>
     eff_pure (CacheUpdate og ups dels) \<and>
     (\<forall>u \<in> set ups. owner og (fst u) = Some a) \<and> (\<forall>p \<in> set dels. owner og p = Some a)"
| "eff_of a (Emit bus kind key detail root) \<longleftrightarrow> (bus, kind, root) \<in> set (events a)"

abbreviation effs_of :: "area \<Rightarrow> eff list \<Rightarrow> bool" where
  "effs_of a es \<equiv> \<forall>e \<in> set es. eff_of a e"


section \<open>The handlers keep to it\<close>

lemma adjState_in: "adjState s \<in> set adj_states"
  by (simp add: adjState_def adj_states_def Let_def)

lemma event_adj: "(''ospf'', ''adj-'' @ lc (adjState s), True) \<in> set (events AOspf)"
  using adjState_in [of s] by (simp add: events_def image_iff) blast

lemma event_adj_down: "(''ospf'', ''adj-down'', True) \<in> set (events AOspf)"
  by code_simp

text \<open>What every result of a fallible computation satisfies.\<close>

definition every :: "('a \<Rightarrow> bool) \<Rightarrow> 'a option \<Rightarrow> bool" where
  "every P r \<longleftrightarrow> (\<forall>x. r = Some x \<longrightarrow> P x)"

lemma everyD: "every P r \<Longrightarrow> r = Some x \<Longrightarrow> P x"
  by (simp add: every_def)

lemma every_Some: "P y \<Longrightarrow> every P (Some y)"
  and every_bind: "(\<And>x. m = Some x \<Longrightarrow> every P (f x)) \<Longrightarrow> every P (Option.bind m f)"
  and every_if: "(c \<Longrightarrow> every P r) \<Longrightarrow> (\<not> c \<Longrightarrow> every P r') \<Longrightarrow> every P (if c then r else r')"
  and every_option: "every P r \<Longrightarrow> (\<And>x. every P (g x)) \<Longrightarrow> every P (case q of None \<Rightarrow> r | Some x \<Rightarrow> g x)"
  and every_prod: "(\<And>a b. z = (a, b) \<Longrightarrow> every P (h a b)) \<Longrightarrow> every P (case z of (a, b) \<Rightarrow> h a b)"
  and every_map: "every (\<lambda>x. P (k x)) m' \<Longrightarrow> every P (map_option k m')"
  by (cases z; auto simp: every_def bind_eq_Some_conv split: option.splits)+

lemmas every_intros = every_Some every_bind every_if every_option every_prod every_map

lemma writeVPNRoute_of: "effs_of ABmp (writeVPNRoute peer rd pfx label nh rts wd)"
  by (simp add: writeVPNRoute_def leafUpdate_def events_def Let_def)

text \<open>What holds of the effects of every single VPN route holds of those of a route monitoring message.\<close>

lemma nlriLoop_every:
  assumes "\<And>rd pfx label. \<forall>e \<in> set (writeVPNRoute peer rd pfx label nh rts wd). P e"
  shows "nlriLoop peer nh rts wd p = Some es \<Longrightarrow> \<forall>e \<in> set es. P e"
  using assms
proof (induction peer nh rts wd p arbitrary: es rule: nlriLoop.induct)
  case (1 peer nh rts wd p)
  note eq = "1.prems"(1) [unfolded nlriLoop.simps [of peer nh rts wd p]]
  show ?case
  proof (cases "p = []")
    case False
    with eq obtain rd pfx label n where n: "parseVPNNLRI p = Some (rd, pfx, label, n)"
      by (auto simp: bind_eq_Some_conv)
    show ?thesis
    proof (cases "n = 0")
      case False
      with eq n \<open>p \<noteq> []\<close> obtain q es' where q:
        "slice_from p n = Some q" "nlriLoop peer nh rts wd q = Some es'"
        "es = writeVPNRoute peer rd pfx label nh rts wd @ es'"
        by (auto simp: bind_eq_Some_conv)
      have "\<forall>e \<in> set es'. P e"
        by (rule "1.IH" [OF \<open>p \<noteq> []\<close> n HOL.refl HOL.refl HOL.refl False q(1,2) "1.prems"(2)])
      with q(3) "1.prems"(2) show ?thesis by auto
    qed (use eq n \<open>p \<noteq> []\<close> in auto)
  qed (use eq in auto)
qed

lemma routeMon_every:
  assumes "\<And>peer rd pfx label nh rts wd. \<forall>e \<in> set (writeVPNRoute peer rd pfx label nh rts wd). P e"
  shows "every (\<lambda>es. \<forall>e \<in> set es. P e) (routeMon body)"
proof -
  have "every (\<lambda>es. \<forall>e \<in> set es. P e) (nlriLoop peer nh rts wd p)" for peer nh rts wd p
    using nlriLoop_every [of peer nh rts wd P] assms by (simp add: every_def)
  then have mp: "every (\<lambda>es. \<forall>e \<in> set es. P e) (handleMP peer v rts wd)" for peer v rts wd
    unfolding handleMP_def Let_def by (intro every_intros) simp_all
  have part: "\<forall>e \<in> set es. P e" if "(case q of None \<Rightarrow> Some [] | Some v \<Rightarrow> handleMP peer v rts wd) = Some es"
    for q peer rts wd es
    using that mp by (auto simp: every_def split: option.splits)
  have join: "\<forall>e \<in> set es. P e \<Longrightarrow> \<forall>e \<in> set es'. P e \<Longrightarrow> \<forall>e \<in> set (es @ es'). P e" for es es'
    by auto
  have "every (\<lambda>es. \<forall>e \<in> set es. P e) (parseUpdate peer m)" for peer m
    unfolding parseUpdate_def Let_def by (intro every_intros join) (simp_all add: part)
  then show ?thesis
    unfolding routeMon_def by (intro every_intros) simp_all
qed

lemma peerState_of: "every (effs_of ABmp \<circ> snd) (peerState ll body up b)"
  unfolding peerState_def Let_def by (intro every_intros) (simp_all add: leafUpdate_def)

lemma bmp_dispatch_of: "every (effs_of ABmp \<circ> snd) (bmp_dispatch ll ty body b)"
proof -
  have route: "every (effs_of ABmp) (routeMon body)" by (rule routeMon_every) (rule writeVPNRoute_of)
  show ?thesis
    unfolding bmp_dispatch_def by (intro every_intros peerState_of) (simp_all add: route comp_def)
qed

lemma route_effects_of: "effs_of AFpm (route_effects vrf af pfx nh lbls del)"
  by (simp add: route_effects_def events_def Let_def)

lemma handleNetlink_of: "every (effs_of AFpm \<circ> snd) (handleNetlink ll b f)"
proof -
  have route: "every (effs_of AFpm \<circ> snd) (handleRoute ll b del f)" for del
    unfolding handleRoute_def Let_def by (intro every_intros) (simp_all add: route_effects_of del: eff_of.simps)
  show ?thesis unfolding handleNetlink_def by (intro every_intros route) (simp_all add: every_def)
qed

lemma writeLinkState_of: "effs_of AKernel (writeLinkState l)"
  by (simp add: writeLinkState_def leafUpdate_def Let_def)

lemma linkLoop_of: "effs_of AKernel (linkLoop u)"
  using writeLinkState_of by (simp add: linkLoop_def events_def Let_def)

lemma writeFDB_of: "effs_of AKernel (writeFDB byIndex n)"
  by (simp add: writeFDB_def leafUpdate_def Let_def)

lemma neighLoop_of: "effs_of AKernel (neighLoop byIndex u)"
  using writeFDB_of by (simp add: neighLoop_def Let_def)

lemma concat_of: "(\<And>x. x \<in> set xs \<Longrightarrow> effs_of a (f x)) \<Longrightarrow> effs_of a (concat (map f xs))"
  by auto

lemma writeLFIB_of: "effs_of AKernel (writeLFIB byIndex r)"
  by (cases "mr_dst r") (simp_all add: writeLFIB_def leafUpdate_def Let_def)

lemma kernel_snapshots_of:
  "effs_of AKernel (sampleCounters ll)" "effs_of AKernel (snapshotFDB byIndex nl)"
  "effs_of AKernel (snapshotMPLS byIndex rl)" "effs_of AKernel (snapshotAddrs ll al)"
proof -
  show "effs_of AKernel (sampleCounters ll)"
    unfolding sampleCounters_def by (cases ll) (auto split: option.splits)
  show "effs_of AKernel (snapshotFDB byIndex nl)"
    using writeFDB_of unfolding snapshotFDB_def by (cases nl) (auto split: if_splits simp del: eff_of.simps)
  show "effs_of AKernel (snapshotMPLS byIndex rl)"
    using writeLFIB_of unfolding snapshotMPLS_def by (cases rl) (auto simp del: eff_of.simps)
  show "effs_of AKernel (snapshotAddrs ll al)"
    unfolding snapshotAddrs_def Let_def
    by (cases ll) (auto simp: leafUpdate_def split: option.splits)
qed

lemma snapshot_of: "effs_of AKernel (snapshot k)"
  using kernel_snapshots_of writeLinkState_of
  by (cases "k_links k") (auto simp: snapshot_def simp del: eff_of.simps)

lemma counterLoop_of: "effs_of AKernel (counterLoop k)"
  using kernel_snapshots_of by (simp add: counterLoop_def ball_Un)

lemma ospf_update_of: "effs_of AOspf (snd (ospf_update cur sts))"
proof (induction cur arbitrary: sts)
  case (Cons kn cur)
  obtain k n where kn: "kn = (k, n)" by (cases kn)
  have "effs_of AOspf (ospf_transition sts k n)"
    using event_adj by (auto simp: ospf_transition_def Let_def split: option.splits)
  moreover have "eff_of AOspf (CacheUpdate ''openconfig'' (ospf_rows k n) [])"
    by (simp add: ospf_rows_def leafUpdate_def)
  ultimately show ?case
    using Cons.IH unfolding kn ospf_update_Cons by (auto simp: Let_def simp del: eff_of.simps ospf_update.simps)
qed simp

lemma ospf_delete_of: "effs_of AOspf (snd (ospf_delete old seen sts))"
proof (induction old arbitrary: sts)
  case (Cons kl old)
  obtain k l where kl: "kl = (k, l)" by (cases kl)
  have "effs_of AOspf [CacheUpdate ''openconfig'' [] [ospfNbrElems l k []], Emit ''ospf'' ''adj-down'' k d True]" for d
    by (simp add: event_adj_down)
  with Cons.IH show ?case
    unfolding kl ospf_delete_Cons by (auto simp: Let_def simp del: eff_of.simps ospf_delete.simps)
qed simp

lemma ospf_apply_of: "effs_of AOspf (snd (ospf_apply cur s))"
  using ospf_update_of [of cur "o_st s"] ospf_delete_of
  by (auto simp: ospf_apply_def Let_def simp del: eff_of.simps split: prod.splits) (metis snd_conv)+

lemma lldp_update_of: "effs_of ALldp (snd (lldp_update cur seen))"
  by (induction cur seen rule: lldp_update.induct)
     (auto simp: lldp_rows_def leafUpdate_def Let_def split: prod.splits)

lemma lldp_delete_of: "effs_of ALldp (lldp_delete old seen)"
  by (auto simp: lldp_delete_def split: if_splits)

lemma cgroup_sample_of: "effs_of AHost (cgroup_sample fs)"
  by (simp add: cgroup_sample_def Let_def)


section \<open>Interleaved effects\<close>

text \<open>What an effect of another ingester does to a leaf: nothing.\<close>

lemma look_foreign:
  assumes "eff_of a e" "owner og q \<noteq> Some a"
  shows "store_look (apply_eff st e) og q = store_look st og q"
proof (cases e)
  case (CacheUpdate og' ups dels)
  with assms(1) have own: "\<And>u. u \<in> set ups \<Longrightarrow> owner og' (fst u) = Some a"
      "\<And>p. p \<in> set dels \<Longrightarrow> owner og' p = Some a" by simp_all
  have ups: "map_of (rev ups) q = None" if "og' = og"
    using own(1) assms(2) that by (auto simp: map_of_eq_None_iff)
  have dels: "\<not> prefix p q" if "og' = og" "p \<in> set dels" for p
    using own(2) [OF that(2)] assms(2) that(1) owner_prefix by blast
  show ?thesis
    using ups dels unfolding CacheUpdate by (auto simp: apply_eff.simps(1) st.look_upds st.look_dels split: option.splits)
qed simp

lemma look_own:
  assumes "store_look st og q = store_look st' og q"
  shows "store_look (apply_eff st e) og q = store_look (apply_eff st' e) og q"
  by (cases e) (auto simp: apply_eff.simps(1) st.look_upds st.look_dels assms split: option.splits)

text \<open>In any interleaving of the effects of the ingesters, a leaf is what its owner's effects alone make it.\<close>

lemma interleaving:
  assumes "\<forall>x \<in> set tr. eff_of (area (fst x)) (snd x)"
  shows "store_look (apply_effs st (map snd tr)) og q =
    store_look (apply_effs st (map snd (filter (\<lambda>x. owner og q = Some (area (fst x))) tr))) og q"
  using assms
proof (induction tr rule: rev_induct)
  case (snoc x tr)
  then have IH: "store_look (apply_effs st (map snd tr)) og q =
      store_look (apply_effs st (map snd (filter (\<lambda>x. owner og q = Some (area (fst x))) tr))) og q" by simp
  show ?case
  proof (cases "owner og q = Some (area (fst x))")
    case True
    with look_own [OF IH, of "snd x"] show ?thesis by simp
  next
    case False
    with IH look_foreign [of "area (fst x)" "snd x" og q] snoc.prems show ?thesis by simp
  qed
qed simp

end
