(* ===== verification/Collector.thy ===== *)
theory Collector
  imports Ownership Correlate
begin

text \<open>
  \<^verbatim>\<open>cmd/frr-visible/main.go\<close>: all ingesters at work on one cache and one correlator. Every goroutine
  alternates between a step that takes its input, changes the state of its ingester and computes the
  calls it has to make, and steps that make one of these calls each; the steps of all goroutines
  interleave in any order, with those of the correlator's loop. \<open>RBmp k\<close> and \<open>RFpm k\<close> serve the \<open>k\<close>-th
  connection of their ingester.

  Six fields are not variables of the program: \<open>co_log\<close>, the calls made so far, \<open>co_heard\<close>, the
  OSPF listings read so far, \<open>co_frames\<close>, the netlink messages zebra has sent so far, and
  \<open>co_msgs\<close>, the BMP messages of bgpd, both with their connection, and \<open>co_links\<close> and \<open>co_neighs\<close>, the
  link and neighbour messages of the kernel so far. A goroutine that could not be started, or
  has ended, makes no more steps. \<open>co_store\<close> is what a subscriber of the cache sees. Logging is left out,
  and of the listeners only whether they can be opened is in the model; which goroutines run is \<open>Startup\<close>.

  Two things are one step here that are several in the program. A handler's accesses to the maps of its
  ingester are one step: in \<^verbatim>\<open>peerState\<close> these are two lock sections, the look-up of a distinguisher and the
  entry of a name for it, between which the handler of another connection could enter one. And one call of
  \<^verbatim>\<open>Cache.Update\<close> writes all its leaves at once.
\<close>

section \<open>State\<close>

datatype routine = RBmp nat | RFpm nat | RLinks | RNeighs | RCounters | ROspf | RLldp bool | RCgroup

fun area_of :: "routine \<Rightarrow> area" where
  "area_of (RBmp k) = ABmp"
| "area_of (RFpm k) = AFpm"
| "area_of RLinks = AKernel"
| "area_of RNeighs = AKernel"
| "area_of RCounters = AKernel"
| "area_of ROspf = AOspf"
| "area_of (RLldp g) = ALldp"
| "area_of RCgroup = AHost"

record collector =
  co_bmp :: bmp
  co_fpm :: fpm
  co_ospf :: ospf
  co_lldp :: lldp_seen
  co_pc :: "bool \<Rightarrow> lldp_pc"
  co_todo :: "routine \<Rightarrow> eff list"
  co_store :: store
  co_cor :: run_state
  co_log :: "(routine \<times> eff) list"
  co_heard :: "(string, ospf_nbr) gomap list"
  co_frames :: "(nat \<times> link_list \<times> bytes) list"
  co_msgs :: "(nat \<times> link_list \<times> byte \<times> bytes) list"
  co_links :: "link_update list"
  co_neighs :: "((int \<Rightarrow> string option) \<times> neigh_update) list"

text \<open>The start: empty tables, the links the kernel lists, and the first snapshot of the kernel still
  to be written by the goroutine that then samples the counters.\<close>

definition co_start :: "string \<Rightarrow> link_list \<Rightarrow> link_list \<Rightarrow> kernel \<Rightarrow> int \<Rightarrow> collector" where
  "co_start target ll ll' k now =
     \<lparr>co_bmp = NewBMP ll, co_fpm = NewFPM ll', co_ospf = NewOSPF, co_lldp = NewLLDP,
      co_pc = (\<lambda>g. Idle), co_todo = (\<lambda>r. if r = RCounters then snapshot k else []),
      co_store = (\<lambda>_. None), co_cor = run_start now (corr_New target), co_log = [],
      co_heard = [], co_frames = [], co_msgs = [], co_links = [], co_neighs = []\<rparr>"


text \<open>\<^verbatim>\<open>main\<close>, up to the goroutines: the flags with their defaults, and the exits by \<^verbatim>\<open>log.Fatal\<close> when the gNMI
  server cannot be made (\<open>server\<close>) or an address cannot be bound (\<open>listens\<close>). The endpoint of the traces
  is optional and its failure only logged.\<close>

record co_flags =
  cf_gnmi :: string
  cf_fpm :: string
  cf_bmp :: string
  cf_target :: string
  cf_reconcile :: int
  cf_trace :: string

definition co_defaults :: co_flags where
  "co_defaults = \<lparr>cf_gnmi = '':9339'', cf_fpm = '':2620'', cf_bmp = '':5000'', cf_target = ''frr'',
     cf_reconcile = 0, cf_trace = '':9340''\<rparr>"

definition co_main ::
    "co_flags \<Rightarrow> bool \<Rightarrow> (string \<Rightarrow> bool) \<Rightarrow> link_list \<Rightarrow> link_list \<Rightarrow> kernel \<Rightarrow> int \<Rightarrow> collector option" where
  "co_main fl server listens ll ll' k now =
     (if \<not> server then None
      else if \<not> listens (cf_gnmi fl) then None
      else if \<not> listens (cf_bmp fl) then None
      else if \<not> listens (cf_fpm fl) then None
      else Some (co_start (cf_target fl) ll ll' k now))"


section \<open>Steps\<close>

fun emit_eff :: "int \<Rightarrow> eff \<Rightarrow> run_state \<Rightarrow> run_state" where
  "emit_eff now (Emit bus kind key detail root) (c, a) =
     (case corr_Emit bus kind key detail root now (Some c) of None \<Rightarrow> (c, a) | Some c' \<Rightarrow> (c', a))"
| "emit_eff now (CacheUpdate og ups dels) s = s"

definition make_call :: "int \<Rightarrow> routine \<Rightarrow> eff \<Rightarrow> collector \<Rightarrow> collector" where
  "make_call now r e s =
     s\<lparr>co_store := apply_eff (co_store s) e, co_cor := emit_eff now e (co_cor s),
       co_log := co_log s @ [(r, e)]\<rparr>"

definition todo :: "routine \<Rightarrow> eff list \<Rightarrow> collector \<Rightarrow> collector" where
  "todo r es s = s\<lparr>co_todo := (co_todo s)(r := es)\<rparr>"

definition lldp_at :: "bool \<Rightarrow> lldp_pc \<Rightarrow> collector \<Rightarrow> collector" where
  "lldp_at g p s = s\<lparr>co_pc := (co_pc s)(g := p)\<rparr>"

inductive co_step :: "collector \<Rightarrow> collector \<Rightarrow> bool" where
  bmp: "co_todo s (RBmp k) = [] \<Longrightarrow> bmp_dispatch ll ty body (co_bmp s) = Some (b, es) \<Longrightarrow>
    co_step s (todo (RBmp k) es (s\<lparr>co_bmp := b, co_msgs := co_msgs s @ [(k, ll, ty, body)]\<rparr>))"
| fpm: "co_todo s (RFpm k) = [] \<Longrightarrow> handleNetlink ll msg (co_fpm s) = Some (f, es) \<Longrightarrow>
    co_step s (todo (RFpm k) es (s\<lparr>co_fpm := f, co_frames := co_frames s @ [(k, ll, msg)]\<rparr>))"
| link_event: "co_todo s RLinks = [] \<Longrightarrow>
    co_step s (todo RLinks (linkLoop lu) (s\<lparr>co_links := co_links s @ [lu]\<rparr>))"
| neigh_event: "co_todo s RNeighs = [] \<Longrightarrow>
    co_step s (todo RNeighs (neighLoop byIndex nu) (s\<lparr>co_neighs := co_neighs s @ [(byIndex, nu)]\<rparr>))"
| counters: "co_todo s RCounters = [] \<Longrightarrow> co_step s (todo RCounters (counterLoop kn) s)"
| listing: "co_todo s ROspf = [] \<Longrightarrow> ospf_reconcile (Some data) (co_ospf s) = (o', es) \<Longrightarrow>
    co_step s (todo ROspf es (s\<lparr>co_ospf := o', co_heard := co_heard s @ [parseOSPFNbrs data]\<rparr>))"
| lldp_writes: "co_todo s (RLldp g) = [] \<Longrightarrow> co_pc s g = Idle \<Longrightarrow>
    lldp_update (parseLLDP out) [] = (seen, es) \<Longrightarrow>
    co_step s (todo (RLldp g) es (lldp_at g (Written seen) s))"
| lldp_deletes: "co_todo s (RLldp g) = [] \<Longrightarrow> co_pc s g = Written seen \<Longrightarrow>
    co_step s (todo (RLldp g) (lldp_delete (co_lldp s) seen) (lldp_at g (Deleted seen) s))"
| lldp_replaces: "co_todo s (RLldp g) = [] \<Longrightarrow> co_pc s g = Deleted seen \<Longrightarrow>
    co_step s (lldp_at g Idle (s\<lparr>co_lldp := seen\<rparr>))"
| sample: "co_todo s RCgroup = [] \<Longrightarrow> co_step s (todo RCgroup (cgroup_sample fs) s)"
| call: "co_todo s r = e # es \<Longrightarrow> co_step s (make_call now r e (todo r es s))"
| receive: "co_cor s = (c, a) \<Longrightarrow> c_ch c = e # es \<Longrightarrow>
    co_step s (s\<lparr>co_cor := run_event e now (c\<lparr>c_ch := es\<rparr>, a)\<rparr>)"
| tick: "co_step s (s\<lparr>co_cor := run_tick now (co_cor s)\<rparr>)"

inductive co_reach :: "string \<Rightarrow> collector \<Rightarrow> bool" for target where
  start: "co_reach target (co_start target ll ll' k now)"
| step: "co_reach target s \<Longrightarrow> co_step s s' \<Longrightarrow> co_reach target s'"

inductive_cases co_stepE: "co_step s s'"

end
