(* ===== verification/Collector_Props.thy ===== *)
theory Collector_Props
  imports Collector Correlate_Props
begin

text \<open>
  What the collector as a whole does, whatever the interleaving: the ingesters do not interfere in the
  cache, so that what is proved of one of them alone holds of the running collector (shown for the
  OSPF rows), and the traces the correlator serves are made of the ingesters' events and named after
  their first one.
\<close>

declare apply_eff.simps(1) [simp del]

section \<open>Invariants of the reachable states\<close>

lemma todo_fields [simp]:
  "co_todo (todo r es s) = (co_todo s)(r := es)" "co_store (todo r es s) = co_store s"
  "co_cor (todo r es s) = co_cor s" "co_log (todo r es s) = co_log s" "co_heard (todo r es s) = co_heard s"
  "co_ospf (todo r es s) = co_ospf s"
  "co_fpm (todo r es s) = co_fpm s" "co_frames (todo r es s) = co_frames s" "co_links (todo r es s) = co_links s"
  "co_bmp (todo r es s) = co_bmp s" "co_msgs (todo r es s) = co_msgs s"
  "co_neighs (todo r es s) = co_neighs s"
  by (simp_all add: todo_def)

lemma lldp_at_fields [simp]:
  "co_todo (lldp_at g p s) = co_todo s" "co_store (lldp_at g p s) = co_store s"
  "co_cor (lldp_at g p s) = co_cor s" "co_log (lldp_at g p s) = co_log s" "co_heard (lldp_at g p s) = co_heard s"
  "co_ospf (lldp_at g p s) = co_ospf s"
  "co_fpm (lldp_at g p s) = co_fpm s" "co_frames (lldp_at g p s) = co_frames s"
  "co_links (lldp_at g p s) = co_links s"
  "co_bmp (lldp_at g p s) = co_bmp s" "co_msgs (lldp_at g p s) = co_msgs s"
  "co_neighs (lldp_at g p s) = co_neighs s"
  by (simp_all add: lldp_at_def)

lemma make_call_fields [simp]:
  "co_todo (make_call now r e s) = co_todo s" "co_store (make_call now r e s) = apply_eff (co_store s) e"
  "co_cor (make_call now r e s) = emit_eff now e (co_cor s)" "co_log (make_call now r e s) = co_log s @ [(r, e)]"
  "co_heard (make_call now r e s) = co_heard s" "co_ospf (make_call now r e s) = co_ospf s"
  "co_fpm (make_call now r e s) = co_fpm s" "co_frames (make_call now r e s) = co_frames s"
  "co_links (make_call now r e s) = co_links s"
  "co_bmp (make_call now r e s) = co_bmp s" "co_msgs (make_call now r e s) = co_msgs s"
  "co_neighs (make_call now r e s) = co_neighs s"
  by (simp_all add: make_call_def)

text \<open>The calls made and still to be made are the ingesters' own, and the cache is what they made of it.\<close>

definition calls_ok :: "collector \<Rightarrow> bool" where
  "calls_ok s \<longleftrightarrow>
     (\<forall>r. effs_of (area_of r) (co_todo s r)) \<and>
     (\<forall>x \<in> set (co_log s). eff_of (area_of (fst x)) (snd x)) \<and>
     co_store s = apply_effs (\<lambda>_. None) (map snd (co_log s))"

lemma calls_ok_todo:
  "calls_ok s \<Longrightarrow> effs_of (area_of r) es \<Longrightarrow> co_todo s' = co_todo s \<Longrightarrow> co_log s' = co_log s \<Longrightarrow>
    co_store s' = co_store s \<Longrightarrow> calls_ok (todo r es s')"
  by (simp add: calls_ok_def del: eff_of.simps)

lemma calls_ok_step: "co_step s s' \<Longrightarrow> calls_ok s \<Longrightarrow> calls_ok s'"
proof (induction rule: co_step.induct)
  case (bmp s k ll ty body b es)
  then show ?case using everyD [OF bmp_dispatch_of] by (intro calls_ok_todo) (auto simp del: eff_of.simps)
next
  case (fpm s k ll msg f es)
  then show ?case using everyD [OF handleNetlink_of] by (intro calls_ok_todo) (auto simp del: eff_of.simps)
next
  case (listing s data o' es)
  then have "effs_of AOspf es"
    using ospf_apply_of [of "parseOSPFNbrs data" "co_ospf s"] by (simp add: ospf_reconcile_def del: eff_of.simps)
  with listing show ?case by (intro calls_ok_todo) simp_all
next
  case (lldp_writes s g out seen es)
  then have "effs_of ALldp es" using lldp_update_of [of "parseLLDP out" "[]"] by (simp del: eff_of.simps)
  with lldp_writes show ?case by (intro calls_ok_todo) simp_all
next
  case (call s r e es now)
  then have "effs_of (area_of r) (e # es)" unfolding calls_ok_def by metis
  with call show ?case by (auto simp: calls_ok_def simp del: eff_of.simps)
qed (auto simp: linkLoop_of neighLoop_of counterLoop_of cgroup_sample_of lldp_delete_of
       intro!: calls_ok_todo simp del: eff_of.simps simp: calls_ok_def)

lemma calls_ok_reach: "co_reach target s \<Longrightarrow> calls_ok s"
proof (induction rule: co_reach.induct)
  case (start ll ll' k now)
  show ?case using snapshot_of [of k] by (simp add: calls_ok_def co_start_def)
qed (rule calls_ok_step)


section \<open>The ingesters do not interfere\<close>

text \<open>The calls an ingester has made.\<close>

definition calls_of :: "area \<Rightarrow> (routine \<times> eff) list \<Rightarrow> eff list" where
  "calls_of a tr = map snd (filter (\<lambda>x. area_of (fst x) = a) tr)"

lemma look_calls:
  assumes "calls_ok s"
  shows "store_look (co_store s) og q =
    (case owner og q of None \<Rightarrow> None | Some a \<Rightarrow> store_look (apply_effs (\<lambda>_. None) (calls_of a (co_log s))) og q)"
proof -
  have log: "\<forall>x \<in> set (co_log s). eff_of (area_of (fst x)) (snd x)"
      and store: "co_store s = apply_effs (\<lambda>_. None) (map snd (co_log s))"
    using assms by (simp_all add: calls_ok_def)
  have own: "(\<lambda>x. Some a = Some (area_of (fst x))) = (\<lambda>x. area_of (fst x) = a)" for a :: area
    by auto
  show ?thesis
  proof (cases "owner og q")
    case None
    then show ?thesis unfolding store interleaving [OF log] by (simp add: store_look_def)
  next
    case (Some a)
    show ?thesis unfolding store interleaving [OF log] calls_of_def Some own by simp
  qed
qed

text \<open>
  C3: the ingesters do not interfere. In every reachable state of the collector, however the goroutines
  are scheduled, a leaf of the cache is exactly what the calls of the ingester that owns it have made
  of it, as if no other ingester ran; and a leaf without an owner does not exist.
\<close>

theorem collector_noninterference:
  assumes "co_reach target s"
  shows "store_look (co_store s) og q =
    (case owner og q of
       None \<Rightarrow> None
     | Some a \<Rightarrow> store_look (apply_effs (\<lambda>_. None) (calls_of a (co_log s))) og q)"
  by (rule look_calls [OF calls_ok_reach [OF assms]])


section \<open>The OSPF rows\<close>

lemma gomap_ok_parse: "gomap_ok (parseOSPFNbrs data)"
proof -
  have "gomap_ok (foldl (\<lambda>res (rid, arr). case arr of [] \<Rightarrow> res | n # _ \<Rightarrow> map_put rid (ospf_nbr_of rid n) res) res m)"
    if "gomap_ok res" for res and m :: "(string, nbr_json list) gomap"
    using that by (induction m arbitrary: res) (auto simp: gomap_ok_put split: list.splits)
  then show ?thesis by (simp add: parseOSPFNbrs_def split: option.splits)
qed

text \<open>The OSPF ingester of the collector is the one of \<open>Ospf\<close>, run on the listings so far.\<close>

definition ospf_ok :: "collector \<Rightarrow> bool" where
  "ospf_ok s \<longleftrightarrow>
     (co_ospf s, calls_of AOspf (co_log s) @ co_todo s ROspf) = ospf_runs (co_heard s) NewOSPF \<and>
     list_all gomap_ok (co_heard s)"

lemma calls_of_snoc: "calls_of a (tr @ [(r, e)]) = calls_of a tr @ (if area_of r = a then [e] else [])"
  by (simp add: calls_of_def)

lemma area_of_ospf [simp]: "area_of r = AOspf \<longleftrightarrow> r = ROspf"
  by (cases r) simp_all

lemma ospf_ok_step: "co_step s s' \<Longrightarrow> ospf_ok s \<Longrightarrow> ospf_ok s'"
proof (induction rule: co_step.induct)
  case (listing s data o' es)
  have "ospf_apply (parseOSPFNbrs data) (co_ospf s) = (o', es)" using listing(2) by (simp add: ospf_reconcile_def)
  moreover have "ospf_runs (co_heard s) NewOSPF = (co_ospf s, calls_of AOspf (co_log s))"
    using listing(1,3) by (simp add: ospf_ok_def)
  ultimately show ?case using listing(3) by (simp add: ospf_ok_def recon_runs_snoc gomap_ok_parse)
next
  case (call s r e es now)
  then show ?case by (cases "r = ROspf") (simp_all add: ospf_ok_def calls_of_snoc)
qed (simp_all add: ospf_ok_def)

lemma ospf_ok_reach: "co_reach target s \<Longrightarrow> ospf_ok s"
proof (induction rule: co_reach.induct)
  case (start ll ll' k now)
  show ?case by (simp add: ospf_ok_def co_start_def calls_of_def)
qed (rule ospf_ok_step)

lemma ospf_runs_mirror:
  assumes "list_all gomap_ok curs" "curs \<noteq> []"
    and "\<And>cur rid n. cur \<in> set curs \<Longrightarrow> map_of cur rid = Some n \<Longrightarrow> on_iface n = home rid"
  shows "ospf_view (apply_effs (\<lambda>_. None) (snd (ospf_runs curs NewOSPF))) iface rid = ospf_want (last curs) iface rid"
  by (rule ospf_view_mirrors, rule os.runs_mirror [where home = home])
     (use assms in \<open>auto simp: NewOSPF_def os.mirrors_def store_look_def list_all_iff simp del: map_of_eq_Some_iff\<close>)

text \<open>
  C6: the running collector shows the OSPF neighbours of the last listing. Whatever the other
  ingesters and the correlator do in between, when the worker has made all its calls and every router
  id has kept its interface in all listings, the OSPF rows of the cache are exactly the last listing's.
\<close>

theorem collector_shows_last_ospf_listing:
  assumes "co_reach target s" and "co_todo s ROspf = []" and "co_heard s \<noteq> []"
    and "\<And>cur rid n. cur \<in> set (co_heard s) \<Longrightarrow> map_of cur rid = Some n \<Longrightarrow> on_iface n = home rid"
  shows "ospf_view (co_store s) = ospf_want (last (co_heard s))"
proof (intro ext)
  fix iface rid
  have ok: "list_all gomap_ok (co_heard s)" "calls_of AOspf (co_log s) = snd (ospf_runs (co_heard s) NewOSPF)"
    using ospf_ok_reach [OF assms(1)] assms(2) by (simp_all add: ospf_ok_def prod_eq_iff)
  have "ospf_view (co_store s) iface rid = ospf_view (apply_effs (\<lambda>_. None) (calls_of AOspf (co_log s))) iface rid"
    by (simp add: ospf_view_def look_calls [OF calls_ok_reach [OF assms(1)]])
  with ospf_runs_mirror [OF ok(1) assms(3,4)] show "ospf_view (co_store s) iface rid = ospf_want (last (co_heard s)) iface rid"
    by (simp add: ok(2))
qed


section \<open>The traces\<close>

definition event_kinds :: "(string \<times> string \<times> bool) list" where
  "event_kinds = concat (map events [ABmp, AFpm, AKernel, AOspf, ALldp, AHost])"

definition event_ok :: "event \<Rightarrow> bool" where
  "event_ok e \<longleftrightarrow> (ev_bus e, ev_kind e, ev_root e) \<in> set event_kinds"

lemma events_kinds: "x \<in> set (events a) \<Longrightarrow> x \<in> set event_kinds"
  by (cases a) (auto simp: event_kinds_def)

text \<open>Only interfaces and adjacencies report events that open a trace of their own.\<close>

lemma root_bus: "event_ok e \<Longrightarrow> ev_root e \<longleftrightarrow> ev_bus e \<in> {''netlink'', ''ospf''}"
  by (auto simp: event_ok_def event_kinds_def events_def)

lemma event_kind: "event_ok e \<Longrightarrow> (ev_bus e, ev_kind e) \<in> set (map (\<lambda>(b, k, r). (b, k)) event_kinds)"
  by (force simp: event_ok_def)

text \<open>What the correlator holds is made of the ingesters' events.\<close>

definition ring_from :: "string \<Rightarrow> correlator \<Rightarrow> bool" where
  "ring_from node c \<longleftrightarrow>
     c_node c = node \<and>
     (\<forall>t \<in> set (c_ring c). \<exists>i es. t = trace_of node i es \<and> es \<noteq> [] \<and> kept es \<and> list_all event_ok es)"

definition cor_ok :: "string \<Rightarrow> run_state \<Rightarrow> bool" where
  "cor_ok node s \<longleftrightarrow>
     (let (c, oa) = s
      in ring_from node c \<and> list_all event_ok (c_ch c) \<and>
         (case oa of None \<Rightarrow> True | Some a \<Rightarrow> \<exists>es. a = acc_of es \<and> es \<noteq> [] \<and> list_all event_ok es))"

lemma lastn_subset: "set (lastn n xs) \<subseteq> set xs"
  by (auto simp: lastn_def dest: in_set_dropD)

lemma ring_from_flush:
  assumes "ring_from node c" "es \<noteq> []" "list_all event_ok es"
  shows "ring_from node (flush (Some (acc_of es)) c)"
proof (cases "kept es")
  case True
  then have "set (c_ring (flush (Some (acc_of es)) c)) \<subseteq>
      set (c_ring c) \<union> {trace_of node (c_seq c + 1) es}"
    using assms(1,2) lastn_subset by (fastforce simp: flush_acc_of ring_from_def)
  with True assms show ?thesis unfolding ring_from_def by auto
qed (use assms in \<open>simp add: flush_acc_of\<close>)

lemma cor_ok_event:
  assumes "cor_ok node (c, a)" "event_ok e"
  shows "cor_ok node (run_event e now (c, a))"
proof (cases a)
  case None
  with assms show ?thesis by (auto simp: cor_ok_def run_event_def acc_of_open)
next
  case (Some ac)
  with assms(1) obtain es where es: "ac = acc_of es" "es \<noteq> []" "list_all event_ok es" by (auto simp: cor_ok_def)
  have ring: "ring_from node (flush (Some (acc_of es)) c)"
    using ring_from_flush assms(1) es by (simp add: cor_ok_def)
  have join: "\<exists>es'. join_trace e (acc_of es) = acc_of es' \<and> es' \<noteq> [] \<and> list_all event_ok es'"
    using es assms(2) acc_of_snoc [OF es(2), of e] by (intro exI [of _ "es @ [e]"]) simp
  have open': "\<exists>es'. join_trace e (open_trace e) = acc_of es' \<and> es' \<noteq> [] \<and> list_all event_ok es'"
    using assms(2) acc_of_open [of e] by (intro exI [of _ "[e]"]) simp
  from assms(1) Some es(1) ring join open' show ?thesis by (simp add: cor_ok_def run_event_def Let_def)
qed

lemma cor_ok_tick: "cor_ok node (c, a) \<Longrightarrow> cor_ok node (run_tick now (c, a))"
  using ring_from_flush [of node c] by (auto simp: cor_ok_def run_tick_def split: option.splits)

lemma cor_ok_call: "cor_ok node (c, a) \<Longrightarrow> eff_of ar e \<Longrightarrow> cor_ok node (emit_eff now e (c, a))"
  using events_kinds
  by (cases e) (auto simp: cor_ok_def corr_Emit_def ring_from_def event_ok_def split: option.splits)

lemma cor_ok_step: "co_step s s' \<Longrightarrow> calls_ok s \<Longrightarrow> cor_ok node (co_cor s) \<Longrightarrow> cor_ok node (co_cor s')"
proof (induction rule: co_step.induct)
  case (call s r e es now)
  then have "eff_of (area_of r) e" unfolding calls_ok_def by (metis list.set_intros(1))
  with call show ?case by (cases "co_cor s") (simp add: cor_ok_call del: eff_of.simps)
next
  case (receive s c a e es now)
  then have "cor_ok node (c\<lparr>c_ch := es\<rparr>, a)" "event_ok e" by (auto simp: cor_ok_def ring_from_def)
  then show ?case by (simp add: cor_ok_event)
next
  case (tick s now)
  then show ?case by (cases "co_cor s") (simp add: cor_ok_tick)
qed simp_all

lemma cor_ok_reach: "co_reach target s \<Longrightarrow> cor_ok target (co_cor s)"
proof (induction rule: co_reach.induct)
  case (start ll ll' k now)
  show ?case by (simp add: cor_ok_def ring_from_def co_start_def run_start_def corr_New_def)
next
  case (step s s')
  then show ?case using cor_ok_step calls_ok_reach by blast
qed

text \<open>
  C5: what the collector serves as traces. In every reachable state each trace is the node's, is not
  empty, and consists of events of the kinds the ingesters report; it is named after its first event,
  which is an interface or adjacency change, or it is labelled as churn, starts with a route change and
  has at least three events.
\<close>

theorem collector_traces_named:
  assumes "co_reach target s" and "t \<in> set (ServeHTTP (fst (co_cor s)))"
  shows "t_node t = target \<and> t_spans t \<noteq> [] \<and>
    (\<forall>sp \<in> set (t_spans t). (sp_bus sp, sp_kind sp) \<in> set (map (\<lambda>(b, k, r). (b, k)) event_kinds)) \<and>
    (let sp = hd (t_spans t)
     in if sp_bus sp \<in> {''netlink'', ''ospf''}
        then t_root t = sp_bus sp @ ''/'' @ sp_kind sp @ '' '' @ sp_key sp
        else t_root t = ''churn/'' @ sp_bus sp @ ''-'' @ sp_kind sp @ '' '' @ sp_key sp \<and>
          3 \<le> length (t_spans t))"
proof -
  obtain c a where c: "co_cor s = (c, a)" by force
  with cor_ok_reach [OF assms(1)] assms(2) obtain i es where
    t: "t = trace_of target i es" "es \<noteq> []" "kept es" "list_all event_ok es"
    by (auto simp: cor_ok_def ring_from_def ServeHTTP_def)
  then have "event_ok (hd es)" by (cases es) simp_all
  note root = root_bus [OF this]
  have kinds: "(sp_bus sp, sp_kind sp) \<in> set (map (\<lambda>(b, k, r). (b, k)) event_kinds)" if "sp \<in> set (t_spans t)" for sp
  proof -
    from that t(1) obtain e where "e \<in> set es" "sp = span_of (ev_ts (hd es)) e" by (auto simp: trace_of_def)
    with t(4) event_kind [of e] show ?thesis by (simp add: span_of_def list_all_iff del: set_map)
  qed
  have hd: "hd (t_spans t) = span_of (ev_ts (hd es)) (hd es)" using t(1,2) by (simp add: trace_of_def hd_map)
  have named: "let sp = hd (t_spans t)
     in if sp_bus sp \<in> {''netlink'', ''ospf''}
        then t_root t = sp_bus sp @ ''/'' @ sp_kind sp @ '' '' @ sp_key sp
        else t_root t = ''churn/'' @ sp_bus sp @ ''-'' @ sp_kind sp @ '' '' @ sp_key sp \<and>
          3 \<le> length (t_spans t)"
    using t(1,3) root unfolding hd Let_def by (auto simp: span_of_def trace_of_def kept_def)
  have "t_node t = target" "t_spans t \<noteq> []" using t(1,2) by (simp_all add: trace_of_def)
  with kinds named show ?thesis by blast
qed


section \<open>Runs\<close>

lemma run_reach: "rtranclp co_step s0 s \<Longrightarrow> co_reach target s0 \<Longrightarrow> co_reach target s"
  by (induction rule: rtranclp_induct) (auto intro: co_reach.step)

text \<open>A goroutine can make all its calls.\<close>

lemma drain:
  "\<exists>s'. rtranclp co_step s s' \<and> co_todo s' = (co_todo s)(r := []) \<and> co_frames s' = co_frames s \<and>
    co_msgs s' = co_msgs s \<and> co_neighs s' = co_neighs s \<and> co_links s' = co_links s \<and>
    co_store s' = apply_effs (co_store s) (co_todo s r)"
proof (induction "co_todo s r" arbitrary: s)
  case Nil
  then show ?case by (intro exI [of _ s]) (simp add: fun_eq_iff)
next
  case (Cons e es)
  let ?s = "make_call 0 r e (todo r es s)"
  have call: "co_step s ?s" by (rule co_step.call) (simp add: Cons.hyps(2) [symmetric])
  have "es = co_todo ?s r" by simp
  then obtain s' where s': "rtranclp co_step ?s s'" "co_todo s' = (co_todo ?s)(r := [])" "co_frames s' = co_frames ?s"
      "co_msgs s' = co_msgs ?s" "co_neighs s' = co_neighs ?s" "co_links s' = co_links ?s" "co_store s' = apply_effs (co_store ?s) (co_todo ?s r)"
    using Cons.hyps(1) [of ?s] by metis
  from call s'(1) have "rtranclp co_step s s'" by (rule converse_rtranclp_into_rtranclp)
  with s'(2-7) show ?case using Cons.hyps(2) [symmetric] by (intro exI [of _ s']) simp
qed

lemma drain_reach:
  assumes "co_reach target s"
  shows "\<exists>s'. co_reach target s' \<and> co_todo s' = (co_todo s)(r := []) \<and> co_frames s' = co_frames s \<and>
    co_msgs s' = co_msgs s \<and> co_store s' = apply_effs (co_store s) (co_todo s r)"
  using drain [of s r] run_reach [OF _ assms] by blast


section \<open>A run\<close>

text \<open>A link is removed and the OSPF neighbour listed; their calls interleave, and the correlator picks the
  event up and closes the trace four seconds later.\<close>

definition run_kernel :: kernel where
  "run_kernel =
     \<lparr>k_links = None, k_counters = None, k_neighs = None, k_routes = None, k_addr_links = None,
      k_addrs = (\<lambda>_. None), k_by_index = (\<lambda>_. None)\<rparr>"

definition run_link :: link_update where
  "run_link =
     \<lparr>lu_type = rtmDelLink,
      lu_link = \<lparr>kl_name = ''eth1'', kl_index = 3, kl_mtu = 1500, kl_flags = 0, kl_oper = OperDown,
                 kl_type = ''device'', kl_stats = None\<rparr>\<rparr>"

definition run_json :: json where
  "run_json =
     JObj [(''neighbors'', JObj [(''1.1.1.1'', JArr [JObj
       [(''nbrState'', JStr ''Full/DR''), (''ifaceName'', JStr ''eth0:10.0.0.1''), (''ifaceAddress'', JStr ''10.0.0.2'')]])])]"

definition run_nbr :: ospf_nbr where
  "run_nbr = \<lparr>on_rid = ''1.1.1.1'', on_iface = ''eth0'', on_addr = ''10.0.0.2'', on_state = ''Full/DR''\<rparr>"

lemma run_parse: "parseOSPFNbrs (Some run_json) = [(''1.1.1.1'', run_nbr)]"
  by code_simp

abbreviation (input) run_gone :: eff where
  "run_gone \<equiv> Emit ''netlink'' ''link-down'' ''eth1'' ''link removed'' True"

definition run0 :: collector where
  "run0 = co_start ''r1'' None None run_kernel 0"

definition run2 :: collector where
  "run2 = todo ROspf [CacheUpdate ''openconfig'' (ospf_rows ''1.1.1.1'' run_nbr) []]
     ((todo RLinks (linkLoop run_link) (run0\<lparr>co_links := [run_link]\<rparr>))
        \<lparr>co_ospf := \<lparr>o_seen = [(''1.1.1.1'', ''eth0'')], o_st = [''1.1.1.1'' \<mapsto> ''FULL'']\<rparr>,
         co_heard := [[(''1.1.1.1'', run_nbr)]]\<rparr>)"

definition run4 :: collector where
  "run4 = make_call 0 ROspf (CacheUpdate ''openconfig'' (ospf_rows ''1.1.1.1'' run_nbr) []) (todo ROspf []
     (make_call 0 RLinks (CacheUpdate ''openconfig'' [] [ifaceElems ''eth1'' []]) (todo RLinks [run_gone] run2)))"

definition run5 :: collector where
  "run5 = make_call 1000000000 RLinks run_gone (todo RLinks [] run4)"

definition run_event_1 :: event where
  "run_event_1 =
     \<lparr>ev_bus = ''netlink'', ev_kind = ''link-down'', ev_key = ''eth1'', ev_detail = ''link removed'', ev_root = True,
      ev_ts = 1000000000\<rparr>"

definition run7 :: collector where
  "run7 = run5\<lparr>co_cor := run_tick 5000000000
     (run_event run_event_1 1000000000 (run_start 0 (corr_New ''r1'')))\<rparr>"

lemma run_links: "linkLoop run_link = [CacheUpdate ''openconfig'' [] [ifaceElems ''eth1'' []], run_gone]"
  by (simp add: linkLoop_def run_link_def Let_def)

lemma run0_fields [simp]:
  "co_todo run0 r = []" "co_ospf run0 = NewOSPF" "co_heard run0 = []" "co_cor run0 = run_start 0 (corr_New ''r1'')"
  "co_log run0 = []" "co_store run0 = (\<lambda>_. None)" "co_links run0 = []"
  by (simp_all add: run0_def co_start_def snapshot_def run_kernel_def)

lemma run_adj: "adjState ''Full/DR'' = ''FULL''"
  by code_simp

lemma run2_reach: "co_reach ''r1'' run2"
proof -
  have 0: "co_reach ''r1'' run0" unfolding run0_def by (rule co_reach.start)
  let ?s1 = "todo RLinks (linkLoop run_link) (run0\<lparr>co_links := [run_link]\<rparr>)"
  have "co_todo run0 RLinks = []" by simp
  from co_reach.step [OF 0 co_step.link_event [OF this, of run_link]] have 1: "co_reach ''r1'' ?s1" by simp
  have rec: "ospf_reconcile (Some (Some run_json)) (co_ospf ?s1) =
    (\<lparr>o_seen = [(''1.1.1.1'', ''eth0'')], o_st = [''1.1.1.1'' \<mapsto> ''FULL'']\<rparr>,
     [CacheUpdate ''openconfig'' (ospf_rows ''1.1.1.1'' run_nbr) []])"
    by (simp add: ospf_reconcile_def run_parse ospf_apply_def NewOSPF_def ospf_rows_def run_nbr_def run_adj Let_def)
  have "co_todo ?s1 ROspf = []" by simp
  from co_reach.step [OF 1 co_step.listing [OF this rec]] show ?thesis
    by (simp add: run2_def run_parse)
qed

lemma run5_reach: "co_reach ''r1'' run5"
proof -
  let ?s3 = "make_call 0 RLinks (CacheUpdate ''openconfig'' [] [ifaceElems ''eth1'' []]) (todo RLinks [run_gone] run2)"
  have "co_todo run2 RLinks = CacheUpdate ''openconfig'' [] [ifaceElems ''eth1'' []] # [run_gone]"
    by (simp add: run2_def run_links)
  from co_reach.step [OF run2_reach co_step.call [OF this]] have 3: "co_reach ''r1'' ?s3" .
  have "co_todo ?s3 ROspf = CacheUpdate ''openconfig'' (ospf_rows ''1.1.1.1'' run_nbr) [] # []"
    by (simp add: run2_def)
  from co_reach.step [OF 3 co_step.call [OF this]] have 4: "co_reach ''r1'' run4" unfolding run4_def .
  have "co_todo run4 RLinks = run_gone # []" by (simp add: run4_def)
  from co_reach.step [OF 4 co_step.call [OF this]] show ?thesis unfolding run5_def .
qed

lemma run5_cor:
  "co_cor run5 = (fst (run_start 0 (corr_New ''r1''))\<lparr>c_ch := [run_event_1]\<rparr>, None)"
  by (simp add: run5_def run4_def run2_def run_start_def corr_Emit_def corr_New_def run_event_1_def)

lemma run7_reach: "co_reach ''r1'' run7"
proof -
  let ?c = "fst (run_start 0 (corr_New ''r1''))"
  have "?c\<lparr>c_ch := [run_event_1]\<rparr>\<lparr>c_ch := []\<rparr> = ?c" by (simp add: run_start_def corr_New_def)
  moreover have "c_ch (?c\<lparr>c_ch := [run_event_1]\<rparr>) = run_event_1 # []" by simp
  ultimately have 6: "co_reach ''r1'' (run5\<lparr>co_cor := run_event run_event_1 1000000000 (?c, None)\<rparr>)"
    using co_reach.step [OF run5_reach co_step.receive [OF run5_cor]] by metis
  have "run_start 0 (corr_New ''r1'') = (?c, None)" by (simp add: run_start_def)
  with co_reach.step [OF 6 co_step.tick [of _ 5000000000]] show ?thesis by (simp add: run7_def)
qed

lemma run7_store:
  "store_look (co_store run7) ''openconfig'' p = map_of (rev (ospf_rows ''1.1.1.1'' run_nbr)) p"
  by (simp add: run7_def run5_def run4_def run2_def look_apply_upd look_apply_del store_look_def [of "\<lambda>_. None"]
      split: option.splits)

lemma run7_log: "co_log run7 =
  [(RLinks, CacheUpdate ''openconfig'' [] [ifaceElems ''eth1'' []]),
   (ROspf, CacheUpdate ''openconfig'' (ospf_rows ''1.1.1.1'' run_nbr) []), (RLinks, run_gone)]"
  by (simp add: run7_def run5_def run4_def run2_def)

theorem collector_noninterference_witness:
  "store_look (co_store run7) ''openconfig'' (ospfNbrElems ''eth0'' ''1.1.1.1'' ''adjacency-state'') =
    Some (StringVal ''FULL'')"
  by (subst collector_noninterference [OF run7_reach])
     (simp add: run7_log calls_of_def look_apply_upd ospf_rows_def run_nbr_def run_adj leafUpdate_def strVal_def)

theorem collector_shows_last_ospf_listing_witness:
  "ospf_view (co_store run7) ''eth0'' ''1.1.1.1'' = (Some (StringVal ''FULL''), Some (StringVal ''10.0.0.2''))"
proof -
  have heard: "co_heard run7 = [[(''1.1.1.1'', run_nbr)]]" "co_todo run7 ROspf = []"
    by (simp_all add: run7_def run5_def run4_def run2_def)
  have "ospf_view (co_store run7) = ospf_want (last (co_heard run7))"
    by (rule collector_shows_last_ospf_listing [OF run7_reach heard(2), where home = "\<lambda>_. ''eth0''"])
       (auto simp: heard run_nbr_def split: if_splits)
  then show ?thesis by (simp add: heard ospf_want_def run_nbr_def run_adj)
qed

theorem collector_traces_named_witness:
  "map t_root (ServeHTTP (fst (co_cor run7))) = [''netlink/link-down eth1''] \<and>
   map t_node (ServeHTTP (fst (co_cor run7))) = [''r1'']"
proof -
  have ring: "ServeHTTP (fst (co_cor run7)) = [trace_of ''r1'' 1 [run_event_1]]"
    by (simp add: run7_def run_tick_def run_event_def run_start_def corr_New_def run_event_1_def ServeHTTP_def
        time_sub_def join_trace_def open_trace_def flush_def trace_of_def Let_def)
  then have "trace_of ''r1'' 1 [run_event_1] \<in> set (ServeHTTP (fst (co_cor run7)))" by simp
  from collector_traces_named [OF run7_reach this] show ?thesis
    by (simp add: ring) (simp add: trace_of_def span_of_def run_event_1_def)
qed

end
