(* ===== verification/Collector_Leaves.thy ===== *)
theory Collector_Leaves
  imports Collector_Props
begin

text \<open>
  What every leaf in the cache of a running collector looks like: a rule on leaves that the updates of
  every handler keep holds of all leaves of all reachable states. The locale states the rule as the
  contract of the handlers; the compositions with the exporters instantiate it.
\<close>

declare apply_eff.simps(1) [simp del]

fun leaves_ok :: "(string \<Rightarrow> elems \<Rightarrow> tval \<Rightarrow> bool) \<Rightarrow> eff \<Rightarrow> bool" where
  "leaves_ok L (CacheUpdate og ups dels) \<longleftrightarrow> (\<forall>u \<in> set ups. L og (fst u) (snd u))"
| "leaves_ok L (Emit bus kind key detail root) \<longleftrightarrow> True"

abbreviation all_leaves_ok :: "(string \<Rightarrow> elems \<Rightarrow> tval \<Rightarrow> bool) \<Rightarrow> eff list \<Rightarrow> bool" where
  "all_leaves_ok L es \<equiv> \<forall>e \<in> set es. leaves_ok L e"

text \<open>A rule that says nothing of the leaves of an ingester is kept by it.\<close>

lemma leaves_ok_owner:
  "eff_of a e \<Longrightarrow> (\<And>og q v. owner og q = Some a \<Longrightarrow> L og q v) \<Longrightarrow> leaves_ok L e"
  by (cases e) auto

lemma all_leaves_owner:
  "effs_of a es \<Longrightarrow> (\<And>og q v. owner og q = Some a \<Longrightarrow> L og q v) \<Longrightarrow> all_leaves_ok L es"
  using leaves_ok_owner by blast

text \<open>What the cache holds was written by some update.\<close>

lemma look_leaves:
  "all_leaves_ok L es \<Longrightarrow> store_look (apply_effs st es) og q = Some v \<Longrightarrow>
    L og q v \<or> store_look st og q = Some v"
proof (induction es rule: rev_induct)
  case (snoc e es)
  show ?case
  proof (cases e)
    case (CacheUpdate og' ups dels)
    have "(q, v) \<in> set ups" if "map_of (rev ups) q = Some v" using map_of_SomeD [OF that] by simp
    with CacheUpdate snoc show ?thesis
      by (auto simp: apply_eff.simps(1) st.look_upds st.look_dels split: option.splits if_splits)
  qed (use snoc in auto)
qed auto

definition leaf_calls :: "(string \<Rightarrow> elems \<Rightarrow> tval \<Rightarrow> bool) \<Rightarrow> collector \<Rightarrow> bool" where
  "leaf_calls L s \<longleftrightarrow> (\<forall>r. all_leaves_ok L (co_todo s r)) \<and> all_leaves_ok L (map snd (co_log s))"

lemma leaf_calls_todo:
  "leaf_calls L s \<Longrightarrow> all_leaves_ok L es \<Longrightarrow> co_todo s' = co_todo s \<Longrightarrow> co_log s' = co_log s \<Longrightarrow>
    leaf_calls L (todo r es s')"
  by (simp add: leaf_calls_def del: leaves_ok.simps)

locale leaf_rule =
  fixes L :: "string \<Rightarrow> elems \<Rightarrow> tval \<Rightarrow> bool"
  assumes bmp_leaves: "every (all_leaves_ok L \<circ> snd) (bmp_dispatch ll ty body b)"
    and fpm_leaves: "every (all_leaves_ok L \<circ> snd) (handleNetlink ll msg f)"
    and link_leaves: "all_leaves_ok L (linkLoop lu)"
    and neigh_leaves: "all_leaves_ok L (neighLoop byIndex nu)"
    and counter_leaves: "all_leaves_ok L (counterLoop kn)"
    and snapshot_leaves: "all_leaves_ok L (snapshot kn)"
    and ospf_leaves: "all_leaves_ok L (snd (ospf_apply cur os))"
    and lldp_leaves: "all_leaves_ok L (snd (lldp_update nbrs seen))"
    and host_leaves: "all_leaves_ok L (cgroup_sample fs)"
begin

lemma calls_step: "co_step s s' \<Longrightarrow> leaf_calls L s \<Longrightarrow> leaf_calls L s'"
proof (induction rule: co_step.induct)
  case (bmp s k ll ty body b es)
  then show ?case using everyD [OF bmp_leaves] by (intro leaf_calls_todo) auto
next
  case (fpm s k ll msg f es)
  then show ?case using everyD [OF fpm_leaves] by (intro leaf_calls_todo) auto
next
  case (listing s data o' es)
  then have "all_leaves_ok L es"
    using ospf_leaves [of "parseOSPFNbrs data" "co_ospf s"] by (simp add: ospf_reconcile_def)
  with listing show ?case by (intro leaf_calls_todo) simp_all
next
  case (lldp_writes s g out seen es)
  then have "all_leaves_ok L es" using lldp_leaves [of "parseLLDP out" "[]"] by simp
  with lldp_writes show ?case by (intro leaf_calls_todo) simp_all
next
  case (lldp_deletes s g seen)
  have "all_leaves_ok L (lldp_delete (co_lldp s) seen)" by (auto simp: lldp_delete_def split: if_splits)
  with lldp_deletes show ?case by (intro leaf_calls_todo) simp_all
next
  case (call s r e es now)
  then have "all_leaves_ok L (e # es)" unfolding leaf_calls_def by metis
  with call show ?case by (auto simp: leaf_calls_def simp del: leaves_ok.simps)
qed (auto simp: link_leaves neigh_leaves counter_leaves host_leaves leaf_calls_def simp del: leaves_ok.simps)

lemma calls_reach: "co_reach target s \<Longrightarrow> leaf_calls L s"
proof (induction rule: co_reach.induct)
  case (start ll ll' k now)
  show ?case using snapshot_leaves [of k] by (simp add: leaf_calls_def co_start_def)
qed (rule calls_step)

text \<open>Every leaf of every reachable cache obeys the rule.\<close>

lemma leaf_reach:
  assumes "co_reach target s" "store_look (co_store s) og q = Some v"
  shows "L og q v"
proof -
  have "co_store s = apply_effs (\<lambda>_. None) (map snd (co_log s))"
    using calls_ok_reach [OF assms(1)] by (simp add: calls_ok_def)
  moreover have "all_leaves_ok L (map snd (co_log s))" using calls_reach [OF assms(1)] by (simp add: leaf_calls_def)
  ultimately show ?thesis
    using look_leaves [where L = L and es = "map snd (co_log s)" and st = "\<lambda>_. None" and og = og and q = q and v = v] assms(2) by (auto simp: store_look_def)
qed

end

text \<open>A rule on the leaves of the kernel ingester only is kept by all others.\<close>

lemma kernel_rule:
  assumes own: "\<And>og q v. owner og q \<noteq> Some AKernel \<Longrightarrow> L og q v"
    and "\<And>lu. all_leaves_ok L (linkLoop lu)" "\<And>byIndex nu. all_leaves_ok L (neighLoop byIndex nu)"
    "\<And>kn. all_leaves_ok L (counterLoop kn)" "\<And>kn. all_leaves_ok L (snapshot kn)"
  shows "leaf_rule L"
proof -
  have other: "all_leaves_ok L es" if "effs_of a es" "a \<noteq> AKernel" for a es
    using all_leaves_owner [OF that(1)] that(2) own by (metis option.inject)
  show ?thesis
  proof unfold_locales
    show "every (all_leaves_ok L \<circ> snd) (bmp_dispatch ll ty body b)" for ll ty body b
      using bmp_dispatch_of [of ll ty body b] other [where a = ABmp] unfolding every_def comp_def by blast
    show "every (all_leaves_ok L \<circ> snd) (handleNetlink ll msg f)" for ll msg f
      using handleNetlink_of [of ll msg f] other [where a = AFpm] unfolding every_def comp_def by blast
  qed (use assms(2-5) other [OF ospf_apply_of] other [OF lldp_update_of] other [OF cgroup_sample_of] in simp_all)
qed

end
