(* ===== verification/Topology_Run.thy ===== *)
theory Topology_Run
  imports Topology_Adj Collector_Leaves
begin

text \<open>
  The topology of running collectors: what \<open>Topology_Adj\<close> assumes of a cache holds of the cache of every
  collector that has been started and run, whatever its peers, its kernel and its schedule.
\<close>

section \<open>The rows of the adjacencies\<close>

text \<open>The rule on leaves: what the exporter reads as an adjacency is a leaf of a neighbour's row.\<close>

definition adj_rule :: "string \<Rightarrow> elems \<Rightarrow> tval \<Rightarrow> bool" where
  "adj_rule og q v \<longleftrightarrow>
     (og = ''openconfig'' \<longrightarrow>
       (path_match (gp_elem lldpPath) q \<longrightarrow> (\<exists>ifn nid t. q = lldpElems ifn nid ''system-name'' \<and> v = StringVal t)) \<and>
       (path_match (gp_elem ospfPath) q \<longrightarrow> (\<exists>ifn rid t. q = ospfNbrElems ifn rid ''adjacency-state'' \<and> v = StringVal t)) \<and>
       (path_match (gp_elem bgpPath) q \<longrightarrow> (\<exists>vrf ip t. q = neighborElems vrf ip ''session-state'' \<and> v = StringVal t)))"

text \<open>A path that matches a query has the names of the query.\<close>

lemma path_match_names: "path_match p q \<Longrightarrow> k < length p \<Longrightarrow> name_at k q = Some (pe_name (p ! k))"
proof (induction p q arbitrary: k rule: path_match.induct)
  case (2 p ps q qs)
  then show ?case by (cases k) simp_all
qed simp_all

lemma adj_owner:
  "path_match (gp_elem lldpPath) q \<Longrightarrow> owner ''openconfig'' q = Some ALldp"
  "path_match (gp_elem ospfPath) q \<Longrightarrow> owner ''openconfig'' q = Some AOspf"
  "path_match (gp_elem bgpPath) q \<Longrightarrow> owner ''openconfig'' q = Some ABmp"
proof -
  note names = path_match_names [where p = "gp_elem p" for p]
  show "owner ''openconfig'' q = Some ALldp" if "path_match (gp_elem lldpPath) q"
    using names [OF that, of 0] by (simp add: lldpPath_def oc_path_def owner_def)
  show "owner ''openconfig'' q = Some AOspf" if "path_match (gp_elem ospfPath) q"
    using names [OF that, of 0] names [OF that, of 2] names [OF that, of 4]
    by (simp add: ospfPath_def oc_path_def owner_def)
  show "owner ''openconfig'' q = Some ABmp" if "path_match (gp_elem bgpPath) q"
    using names [OF that, of 0] names [OF that, of 2] names [OF that, of 4]
    by (simp add: bgpPath_def oc_path_def owner_def)
qed

lemma adj_rule_foreign: "owner og q \<notin> {Some ALldp, Some AOspf, Some ABmp} \<Longrightarrow> adj_rule og q v"
  using adj_owner unfolding adj_rule_def by blast

lemma adj_rule_rows:
  "adj_rule og (neighborElems vrf ip leaf) (StringVal t)"
  "adj_rule og (ospfNbrElems ifn rid leaf) (StringVal t)"
  "adj_rule og (lldpElems ifn nid leaf) (StringVal t)"
  by (auto simp: adj_rule_def neighborElems_def ospfNbrElems_def lldpElems_def lldpPath_def ospfPath_def bgpPath_def
      oc_path_def state_leaf_def)

lemma adj_rule_origin: "og \<noteq> ''openconfig'' \<Longrightarrow> adj_rule og q v"
  by (simp add: adj_rule_def)

lemma ospf_update_adj: "all_leaves_ok adj_rule (snd (ospf_update cur sts))"
proof (induction cur arbitrary: sts)
  case (Cons kn cur)
  obtain k n where kn: "kn = (k, n)" by (cases kn)
  have "all_leaves_ok adj_rule (ospf_transition sts k n)"
    by (auto simp: ospf_transition_def Let_def split: option.splits)
  moreover have "leaves_ok adj_rule (CacheUpdate ''openconfig'' (ospf_rows k n) [])"
    by (simp add: ospf_rows_def leafUpdate_def strVal_def adj_rule_rows)
  ultimately show ?case
    using Cons.IH unfolding kn ospf_update_Cons by (auto simp: Let_def simp del: leaves_ok.simps ospf_update.simps)
qed simp

lemma ospf_delete_adj: "all_leaves_ok adj_rule (snd (ospf_delete old seen sts))"
proof (induction old arbitrary: sts)
  case (Cons kl old)
  obtain k l where kl: "kl = (k, l)" by (cases kl)
  with Cons.IH show ?case unfolding kl ospf_delete_Cons by (auto simp: Let_def simp del: ospf_delete.simps)
qed simp

lemma lldp_update_adj: "all_leaves_ok adj_rule (snd (lldp_update cur seen))"
  by (induction cur seen rule: lldp_update.induct)
     (auto simp: lldp_rows_def leafUpdate_def strVal_def adj_rule_rows Let_def split: prod.splits)

lemma bmp_dispatch_adj: "every (all_leaves_ok adj_rule \<circ> snd) (bmp_dispatch ll ty body b)"
proof -
  have "all_leaves_ok adj_rule (writeVPNRoute peer rd pfx label nh rts wd)" for peer rd pfx label nh rts wd
    by (simp add: writeVPNRoute_def leafUpdate_def adj_rule_origin Let_def)
  then have route: "every (all_leaves_ok adj_rule) (routeMon body)" by (rule routeMon_every)
  have "every (all_leaves_ok adj_rule \<circ> snd) (peerState ll body up b)" for up
    unfolding peerState_def Let_def
    by (intro every_intros) (simp_all add: leafUpdate_def strVal_def adj_rule_rows)
  with route show ?thesis unfolding bmp_dispatch_def by (intro every_intros) (simp_all add: comp_def)
qed

lemma foreign_adj: "effs_of a es \<Longrightarrow> a \<notin> {ALldp, AOspf, ABmp} \<Longrightarrow> all_leaves_ok adj_rule es"
  by (rule all_leaves_owner, assumption) (rule adj_rule_foreign, auto)

lemma ospf_apply_adj: "all_leaves_ok adj_rule (snd (ospf_apply cur os))"
  using ospf_update_adj ospf_delete_adj
  by (auto simp: ospf_apply_def Let_def simp del: leaves_ok.simps split: prod.splits) (metis snd_conv)+

lemma handleNetlink_adj: "every (all_leaves_ok adj_rule \<circ> snd) (handleNetlink ll msg f)"
  using handleNetlink_of [of ll msg f] foreign_adj [where a = AFpm] unfolding every_def comp_def by blast

interpretation adj: leaf_rule adj_rule
  by unfold_locales
     (use foreign_adj [OF linkLoop_of] foreign_adj [OF neighLoop_of] foreign_adj [OF counterLoop_of]
       foreign_adj [OF snapshot_of] foreign_adj [OF cgroup_sample_of] in
       \<open>simp_all add: bmp_dispatch_adj handleNetlink_adj ospf_apply_adj lldp_update_adj\<close>)

lemma adj_shaped_reach:
  assumes "co_reach target s"
  shows "adj_shaped (co_store s)"
  using adj.leaf_reach [OF assms, of "''openconfig''"] unfolding adj_shaped_def adj_rule_def by blast


section \<open>The topology\<close>

text \<open>
  C34: the topology shows the adjacencies of running collectors. Let every node of the inventory run a
  collector, in any reachable state, that answers Get from its cache, and let the names of nodes have no
  bar. Then two nodes are joined in the physical layer exactly when one has the other's name as an LLDP
  neighbour in its cache, in the OSPF layer exactly when one has a full adjacency whose interface or
  router id leads to the other, and in the BGP layer exactly when one has an established session with an
  address of the other.
\<close>

theorem topology_shows_collectors:
  assumes "topo_edges rng ask iv ns nodes = Some es" and "\<And>n. n \<in> set nodes \<longleftrightarrow> map_of iv n \<noteq> None"
    and "\<And>n. n \<in> set nodes \<Longrightarrow> no_bar n" and "\<And>n. n \<in> set nodes \<Longrightarrow> co_reach n (node n)"
    and "\<And>n p. n \<in> set nodes \<Longrightarrow> p \<in> {lldpPath, ospfPath, bgpPath} \<Longrightarrow> answers_of (co_store (node n)) p (ask n p)"
  defines "m \<equiv> buildIP2Node ask ns" and "cache n \<equiv> co_store (node n)"
  shows "(has_edge es ''physical'' x y \<longleftrightarrow>
      x < y \<and> {x, y} \<subseteq> set nodes \<and> (lldp_adj (cache x) y \<or> lldp_adj (cache y) x)) \<and>
    (has_edge es ''ospf'' x y \<longleftrightarrow>
      x < y \<and> {x, y} \<subseteq> set nodes \<and> (ospf_adj m (cache x) x y \<or> ospf_adj m (cache y) y x)) \<and>
    (has_edge es ''bgp'' x y \<longleftrightarrow>
      x < y \<and> {x, y} \<subseteq> set nodes \<and> (bgp_adj m (cache x) y \<or> bgp_adj m (cache y) x))"
  unfolding m_def
proof (rule topo_edges_are_adjacencies [OF assms(1,2,3)])
  show "adj_shaped (cache n)" if "n \<in> set nodes" for n
    unfolding cache_def by (rule adj_shaped_reach [OF assms(4) [OF that]])
  show "answers_of (cache n) p (ask n p)" if "n \<in> set nodes" "p \<in> {lldpPath, ospfPath, bgpPath}" for n p
    unfolding cache_def by (rule assms(5) [OF that])
qed

text \<open>Lldpd of \<^verbatim>\<open>pe1\<close> lists \<^verbatim>\<open>ce1\<close>; the collector of \<^verbatim>\<open>ce1\<close> has only been started.\<close>

definition ce1_seen :: lldpd_nbr where
  "ce1_seen = \<lparr>ll_if = ''eth0'', ll_sys = ''ce1'', ll_chassis = ''aa:bb'', ll_descr = ''Debian'', ll_mgmt = [''10.0.0.2''],
     ll_port = ''eth1'', ll_rid = JNum ''1''\<rparr>"

definition ce1_leaves :: "string \<Rightarrow> leaf_list" where
  "ce1_leaves n =
     (if n = ''pe1'' then map (\<lambda>(q, v). ((''openconfig'', q), v)) (lldp_rows ''eth0'' (lldpd_read ce1_seen)) else [])"

lemma ce1_leaves_ok: "gomap_ok (ce1_leaves n)"
  by (simp add: ce1_leaves_def lldp_rows_def leafUpdate_def)

lemma ce1_collectors: "\<exists>node. \<forall>n. co_reach n (node n) \<and> co_store (node n) = map_of (ce1_leaves n)"
proof -
  have "\<exists>s. co_reach n s \<and> co_store s = map_of (ce1_leaves n)" for n
  proof (cases "n = ''pe1''")
    case True
    let ?s0 = "co_start n None None run_kernel 0" and ?nb = "lldpd_read ce1_seen"
    have "parseLLDP (Some (lldpd_array [ce1_seen])) = [(''eth0'', ?nb)]"
      using lldp_parse_lldpd [of "[ce1_seen]"] by (simp add: ce1_seen_def)
    then have upd: "lldp_update (parseLLDP (Some (lldpd_array [ce1_seen]))) [] =
        ([(''eth0'', ''aa:bb'')], [CacheUpdate ''openconfig'' (lldp_rows ''eth0'' ?nb) []])"
      by (simp add: Let_def) (simp add: lldpd_read_def ce1_seen_def)
    have "co_todo ?s0 (RLldp False) = []" "co_pc ?s0 False = Idle" by (simp_all add: co_start_def)
    from co_reach.step [OF co_reach.start co_step.lldp_writes [OF this upd]]
    have "co_reach n (todo (RLldp False) [CacheUpdate ''openconfig'' (lldp_rows ''eth0'' ?nb) []]
        (lldp_at False (Written [(''eth0'', ''aa:bb'')]) ?s0))" .
    from drain_reach [OF this, of "RLldp False"] obtain s where s: "co_reach n s"
        "co_store s = apply_effs (\<lambda>_. None) [CacheUpdate ''openconfig'' (lldp_rows ''eth0'' ?nb) []]"
      by (auto simp: co_start_def)
    have "co_store s = map_of (ce1_leaves n)"
      unfolding s(2) using True
      by (auto simp: fun_eq_iff apply_eff.simps(1) store_upd_def ce1_leaves_def lldp_rows_def leafUpdate_def strVal_def)
    with s(1) show ?thesis by blast
  next
    case False
    then show ?thesis
      using co_reach.start [of n None None run_kernel 0]
      by (intro exI [of _ "co_start n None None run_kernel 0"]) (simp add: co_start_def ce1_leaves_def)
  qed
  then show ?thesis by metis
qed

theorem topology_shows_collectors_witness:
  "\<exists>es. topo_edges id (\<lambda>n. serve (ce1_leaves n)) pair_inv [''ce1'', ''pe1''] [''ce1'', ''pe1''] = Some es \<and>
    has_edge es ''physical'' ''ce1'' ''pe1''"
proof -
  let ?ask = "\<lambda>n. serve (ce1_leaves n)" and ?ns = "[''ce1'', ''pe1'']"
  obtain node where node: "\<And>n. co_reach n (node n)" "\<And>n. co_store (node n) = map_of (ce1_leaves n)"
    using ce1_collectors by blast
  have "\<forall>n \<in> set ?ns. no_panic ?ask n"
    by (simp add: no_panic_def serve_def split_beta)
  with all_calls_None [of id ?ask "buildIP2Node ?ask ?ns" ?ns] obtain cs where
    "all_calls id ?ask (buildIP2Node ?ask ?ns) ?ns = Some cs" by blast
  then obtain es where es: "topo_edges id ?ask pair_inv ?ns ?ns = Some es" by (simp add: topo_edges_def)
  have "lldp_adj (co_store (node ''pe1'')) ''ce1''"
    unfolding lldp_adj_def node(2)
    by (intro exI [of _ "''eth0''"] exI [of _ "''aa:bb''"])
       (simp add: ce1_leaves_def lldp_rows_def leafUpdate_def strVal_def store_look_def lldpd_read_def ce1_seen_def)
  moreover have inv: "n \<in> set ?ns \<longleftrightarrow> map_of pair_inv n \<noteq> None" for n by simp
  moreover have bar: "no_bar n" if "n \<in> set ?ns" for n using that by (auto simp: no_bar_def)
  moreover have "answers_of (co_store (node n)) p (?ask n p)" for n p
    unfolding node(2) by (rule serve_answers [OF ce1_leaves_ok])
  ultimately have "has_edge es ''physical'' ''ce1'' ''pe1''"
    using topology_shows_collectors [where rng = id and ask = ?ask and node = node, OF es inv bar node(1),
        where x = "''ce1''" and y = "''pe1''"] by simp
  with es show ?thesis by blast
qed

end
