(* ===== verification/Aggregate.thy ===== *)
theory Aggregate
  imports Correlate Exporter
begin

text \<open>
  \<^verbatim>\<open>cmd/trace-aggregator/main.go\<close>: the stitching of the nodes' convergence traces into distributed
  ones, and their export to Tempo. Times are nanoseconds since 1970, as in the correlator.

  Arguments of the model: \<open>fetch\<close> is the list of traces a node serves (HTTP and JSON decoding); the
  inventory is in the order of iteration; \<open>srtT\<close> and \<open>srtS\<close> are \<^verbatim>\<open>sort.Slice\<close>, which sorts by time but
  need not keep the order of equal times; \<open>rng\<close> is the order of the loop over the votes. In the
  export, \<open>stamp\<close> is \<^verbatim>\<open>Time.Format\<close>, \<open>sha\<close> is SHA-256 and the last argument is whether the POST
  succeeds.
\<close>

record dspan =
  ds_off :: int
  ds_node :: string
  ds_bus :: string
  ds_kind :: string
  ds_key :: string
  ds_detail :: string
  ds_abs :: int

record dtrace =
  dt_id :: int
  dt_start :: int
  dt_span :: int
  dt_link :: string
  dt_nodes :: "string list"
  dt_roots :: "string list"
  dt_spans :: "dspan list"


section \<open>Link names\<close>

definition linkKey :: "string \<Rightarrow> string" where
  "linkKey root =
     (case str_index root ''link-'' of
        None \<Rightarrow> ''''
      | Some i \<Rightarrow>
          (let f = GoStrings.fields (drop i root)
           in if length f < 2 then ''''
              else (case split_n2 CHR ''-'' (f ! 1) of
                      [a, b] \<Rightarrow> (let (a, b) = (if b < a then (b, a) else (a, b)) in a @ ''--'' @ b)
                    | _ \<Rightarrow> '''')))"


section \<open>Merging a group\<close>

text \<open>\<^verbatim>\<open>int64\<close> arithmetic wraps.\<close>

definition wrap64 :: "int \<Rightarrow> int" where
  "wrap64 i = sint (word_of_int i :: 64 word)"

definition hop_dspan :: "trace \<Rightarrow> span \<Rightarrow> dspan" where
  "hop_dspan t s =
     \<lparr>ds_off = 0, ds_node = t_node t, ds_bus = sp_bus s, ds_kind = sp_kind s, ds_key = sp_key s,
      ds_detail = sp_detail s, ds_abs = t_start t + wrap64 (sp_offset s * 1000000)\<rparr>"

definition vote :: "trace \<Rightarrow> (string, nat) gomap \<Rightarrow> (string, nat) gomap" where
  "vote t m =
     (let lk = linkKey (t_root t) in if lk \<noteq> '''' then map_put lk (get_or 0 m lk + 1) m else m)"

definition winner :: "(string \<times> nat) list \<Rightarrow> string" where
  "winner votes =
     snd (foldl (\<lambda>(best, link) (k, v). if best < v then (v, k) else (best, link)) (0, '''') votes)"

text \<open>The zero \<^verbatim>\<open>time.Time\<close>: the first of January of year 1.\<close>

definition zero_time :: int where
  "zero_time = - 62135596800 * 1000000000"

text \<open>\<^verbatim>\<open>keys\<close>, in the order of iteration.\<close>

abbreviation (input) agg_keys :: "(string, bool) gomap \<Rightarrow> string list" where
  "agg_keys m \<equiv> map fst m"

definition set_offsets :: "int \<Rightarrow> dspan list \<Rightarrow> dspan list" where
  "set_offsets start = map (\<lambda>s. s\<lparr>ds_off := millis (time_sub (ds_abs s) start)\<rparr>)"

definition merge_traces ::
    "(dspan list \<Rightarrow> dspan list) \<Rightarrow> ((string \<times> nat) list \<Rightarrow> (string \<times> nat) list) \<Rightarrow> int
      \<Rightarrow> trace list \<Rightarrow> dtrace" where
  "merge_traces srtS rng n g =
     (let spans = srtS (concat (map (\<lambda>t. map (hop_dspan t) (t_spans t)) g));
          nodeSet = foldl (\<lambda>m t. map_put (t_node t) True m) [] g;
          roots = map (\<lambda>t. t_node t @ '': '' @ t_root t) g;
          votes = foldl (\<lambda>m t. vote t m) [] g;
          start = (if spans \<noteq> [] then ds_abs (hd spans) else zero_time);
          spans = set_offsets start spans;
          span = foldl (\<lambda>m s. if m < ds_off s then ds_off s else m) 0 spans
      in \<lparr>dt_id = n, dt_start = start, dt_span = span, dt_link = winner (rng votes),
          dt_nodes = sort (agg_keys nodeSet), dt_roots = roots, dt_spans = spans\<rparr>)"


section \<open>Building\<close>

text \<open>A query of a node: \<open>http\<close> is the body of the answer, \<open>unmarshal\<close> what \<^verbatim>\<open>json.Unmarshal\<close> leaves in the list
  of traces, of a bad answer too.\<close>

definition fetch_traces :: "(string \<Rightarrow> 'b option) \<Rightarrow> ('b \<Rightarrow> trace list) \<Rightarrow> string \<Rightarrow> trace list" where
  "fetch_traces http unmarshal url = (case http url of None \<Rightarrow> [] | Some body \<Rightarrow> unmarshal body)"

definition fetch_addr :: "string \<Rightarrow> string" where
  "fetch_addr ip = (if str_contains ip '':'' then ip else ip @ '':9340'')"

definition fetch_all :: "(string \<Rightarrow> trace list) \<Rightarrow> (string, string) gomap \<Rightarrow> trace list" where
  "fetch_all fetch inventory =
     concat (map (\<lambda>(node, ip).
       map (\<lambda>t. if t_node t = '''' then t\<lparr>t_node := node\<rparr> else t)
         (fetch (''http://'' @ fetch_addr ip @ ''/traces''))) inventory)"

text \<open>A trace joins the last group when it starts within the window of the group's first.\<close>

definition group_step :: "int \<Rightarrow> trace list list \<Rightarrow> trace \<Rightarrow> trace list list" where
  "group_step window gs t =
     (if gs \<noteq> [] \<and> time_sub (t_start t) (t_start (hd (last gs))) \<le> window
      then butlast gs @ [last gs @ [t]] else gs @ [[t]])"

definition group_traces :: "int \<Rightarrow> trace list \<Rightarrow> trace list list" where
  "group_traces window ts = foldl (group_step window) [] ts"

definition build ::
    "(trace list \<Rightarrow> trace list) \<Rightarrow> (dspan list \<Rightarrow> dspan list) \<Rightarrow> ((string \<times> nat) list \<Rightarrow> (string \<times> nat) list)
      \<Rightarrow> int \<Rightarrow> (string \<Rightarrow> trace list) \<Rightarrow> (string, string) gomap \<Rightarrow> dtrace list" where
  "build srtT srtS rng window fetch inventory =
     map (\<lambda>(i, g). merge_traces srtS rng (int i + 1) g)
       (enumerate 0 (group_traces window (srtT (fetch_all fetch inventory))))"


section \<open>Export\<close>

record zspan =
  z_trace :: string
  z_id :: string
  z_parent :: string
  z_name :: string
  z_timestamp :: int
  z_duration :: int
  z_service :: string
  z_tags :: "(string, string) gomap"

definition hexID :: "(string \<Rightarrow> bytes) \<Rightarrow> string \<Rightarrow> nat \<Rightarrow> string" where
  "hexID sha seed n = concat (map hex_byte (take n (sha seed)))"

definition seed_of :: "(int \<Rightarrow> string) \<Rightarrow> dtrace \<Rightarrow> string" where
  "seed_of stamp dt = stamp (dt_start dt) @ ''|'' @ dt_link dt @ ''|'' @ join '';'' (dt_roots dt)"

definition root_span :: "string \<Rightarrow> string \<Rightarrow> dtrace \<Rightarrow> zspan" where
  "root_span traceID rootID dt =
     \<lparr>z_trace = traceID, z_id = rootID, z_parent = '''',
      z_name = ''convergence'' @ (if dt_link dt \<noteq> '''' then '' '' @ dt_link dt else ''''),
      z_timestamp = dt_start dt div 1000, z_duration = wrap64 (dt_span dt * 1000 + 1),
      z_service = ''network'',
      z_tags = [(''link'', dt_link dt), (''nodes'', join '','' (dt_nodes dt)), (''roots'', join '' | '' (dt_roots dt))]\<rparr>"

definition hop_zspan :: "(string \<Rightarrow> bytes) \<Rightarrow> string \<Rightarrow> string \<Rightarrow> dtrace \<Rightarrow> nat \<Rightarrow> dspan \<Rightarrow> zspan" where
  "hop_zspan sha traceID rootID dt i s =
     (let abs = dt_start dt + wrap64 (ds_off s * 1000000);
          dur = (if i + 1 < length (dt_spans dt)
                 then (let g = wrap64 ((ds_off (dt_spans dt ! (i + 1)) - ds_off s) * 1000)
                       in if 1000 < g then g else 1000)
                 else 1000)
      in \<lparr>z_trace = traceID, z_id = hexID sha (traceID @ ''|'' @ dec i) 8, z_parent = rootID,
          z_name = ds_bus s @ ''/'' @ ds_kind s, z_timestamp = abs div 1000, z_duration = dur,
          z_service = ds_node s, z_tags = [(''key'', ds_key s), (''detail'', ds_detail s)]\<rparr>)"

definition zipkin_spans :: "(string \<Rightarrow> bytes) \<Rightarrow> string \<Rightarrow> dtrace \<Rightarrow> zspan list" where
  "zipkin_spans sha traceID dt =
     (let rootID = hexID sha (traceID @ ''|root'') 8
      in root_span traceID rootID dt #
         map (\<lambda>(i, s). hop_zspan sha traceID rootID dt i s) (enumerate 0 (dt_spans dt)))"

text \<open>The state is the set of the trace ids exported; the result has the POSTs made, with their success. A
  POST succeeds (\<open>ok\<close>) when \<^verbatim>\<open>cl.Post\<close> has no error, which is when a response arrives: its HTTP status is not
  looked at.\<close>

type_synonym post = "string \<times> zspan list \<times> bool"

definition pushZipkin ::
    "(int \<Rightarrow> string) \<Rightarrow> (string \<Rightarrow> bytes) \<Rightarrow> bool \<Rightarrow> dtrace \<Rightarrow> (string, bool) gomap
      \<Rightarrow> (string, bool) gomap \<times> post list" where
  "pushZipkin stamp sha ok dt pushed =
     (let traceID = hexID sha (seed_of stamp dt) 16
      in if get_or False pushed traceID then (pushed, [])
         else
           (let spans = zipkin_spans sha traceID dt
            in if ok then (map_put traceID True pushed, [(traceID, spans, True)])
               else (pushed, [(traceID, spans, False)])))"

text \<open>The exports of the rounds of \<^verbatim>\<open>loop\<close>: each distributed trace with the outcome of its POST.\<close>

fun push_all ::
    "(int \<Rightarrow> string) \<Rightarrow> (string \<Rightarrow> bytes) \<Rightarrow> (dtrace \<times> bool) list \<Rightarrow> (string, bool) gomap
      \<Rightarrow> (string, bool) gomap \<times> post list" where
  "push_all stamp sha [] pushed = (pushed, [])"
| "push_all stamp sha ((dt, ok) # dts) pushed =
     (let (pushed, ps) = pushZipkin stamp sha ok dt pushed;
          (pushed, ps') = push_all stamp sha dts pushed
      in (pushed, ps @ ps'))"

end
