(* ===== verification/Aggregate_Props.thy ===== *)
theory Aggregate_Props
  imports Aggregate
begin

text \<open>
  What the trace aggregator does: the groups it builds are a partition of the fetched traces into
  bursts, a merged trace is one timeline of all hops, link names do not depend on the end that
  reports, and an exported trace is posted once.

  \<^verbatim>\<open>sort.Slice\<close> is any function that sorts by the key: the locale \<open>slice_sort\<close> has what the clients
  rely on, and the stable sort of the library is one instance.
\<close>

section \<open>Sorting by a key\<close>

definition sorts_by :: "('a \<Rightarrow> int) \<Rightarrow> ('a list \<Rightarrow> 'a list) \<Rightarrow> bool" where
  "sorts_by key srt \<longleftrightarrow> (\<forall>xs. mset (srt xs) = mset xs \<and> sorted (map key (srt xs)))"

locale slice_sort =
  fixes key :: "'a \<Rightarrow> int" and srt :: "'a list \<Rightarrow> 'a list"
  assumes mset_srt: "mset (srt xs) = mset xs"
    and sorted_srt: "sorted (map key (srt xs))"
begin

lemma set_srt [simp]: "set (srt xs) = set xs"
  using mset_srt by (rule mset_eq_setD)

lemma length_srt [simp]: "length (srt xs) = length xs"
  using mset_srt by (rule mset_eq_length)

lemma srt_Nil_iff [simp]: "srt xs = [] \<longleftrightarrow> xs = []"
  using length_srt [of xs] by (metis length_0_conv)

lemma srt_head_min: "x \<in> set xs \<Longrightarrow> key (hd (srt xs)) \<le> key x"
proof -
  assume "x \<in> set xs"
  then have "x \<in> set (srt xs)" by simp
  then show ?thesis using sorted_srt [of xs] by (cases "srt xs") auto
qed

lemma srt_last_max: "x \<in> set xs \<Longrightarrow> key x \<le> key (last (srt xs))"
proof -
  assume "x \<in> set xs"
  then have "x \<in> set (srt xs)" by simp
  then show ?thesis using sorted_srt [of xs] by (cases "srt xs" rule: rev_cases) (auto simp: sorted_append)
qed

lemma sorts: "sorts_by key srt"
  by (simp add: sorts_by_def mset_srt sorted_srt)

end

lemma sorts_byD: "sorts_by key srt \<Longrightarrow> slice_sort key srt"
  by (simp add: sorts_by_def slice_sort_def)

interpretation by_start: slice_sort t_start "sort_key t_start"
  by unfold_locales simp_all

interpretation by_abs: slice_sort ds_abs "sort_key ds_abs"
  by unfold_locales simp_all


section \<open>Groups\<close>

definition near :: "int \<Rightarrow> trace list \<Rightarrow> trace \<Rightarrow> bool" where
  "near window g t \<longleftrightarrow> time_sub (t_start t) (t_start (hd g)) \<le> window"

text \<open>A partition of a list into runs: every trace is near the first of its run, and the first of a run is
  not near the run before.\<close>

fun runs :: "int \<Rightarrow> trace list list \<Rightarrow> bool" where
  "runs window [] = True"
| "runs window [g] = (g \<noteq> [] \<and> list_all (near window g) (tl g))"
| "runs window (g # h # gs) =
     (g \<noteq> [] \<and> list_all (near window g) (tl g) \<and> \<not> near window g (hd h) \<and> runs window (h # gs))"

lemma runs_snoc:
  "runs window (gs @ [[t]]) \<longleftrightarrow> runs window gs \<and> (gs = [] \<or> \<not> near window (last gs) t)"
  by (induction gs rule: runs.induct) auto

lemma near_append: "g \<noteq> [] \<Longrightarrow> near window (g @ h) = near window g"
  by (simp add: near_def fun_eq_iff)

lemma runs_join:
  "runs window (gs @ [g]) \<Longrightarrow> near window g t \<Longrightarrow> runs window (gs @ [g @ [t]])"
  by (induction gs rule: runs.induct) (auto simp: near_append)

lemma runs_group_step: "runs window gs \<Longrightarrow> runs window (group_step window gs t)"
proof (cases gs rule: rev_cases)
  case (snoc gs' g)
  then show "runs window gs \<Longrightarrow> runs window (group_step window gs t)"
    using runs_join [of window gs' g t] runs_snoc [of window gs t]
    by (auto simp: group_step_def near_def)
qed (simp add: group_step_def)

lemma concat_group_step: "concat (group_step window gs t) = concat gs @ [t]"
  by (cases gs rule: rev_cases) (auto simp: group_step_def)

lemma group_traces_runs: "runs window (group_traces window ts) \<and> concat (group_traces window ts) = ts"
proof -
  have "runs window gs \<Longrightarrow> runs window (foldl (group_step window) gs ts) \<and>
      concat (foldl (group_step window) gs ts) = concat gs @ ts" for gs
    by (induction ts arbitrary: gs) (simp_all add: runs_group_step concat_group_step)
  from this [of "[]"] show ?thesis by (simp add: group_traces_def)
qed

text \<open>There is one such partition: the groups are determined by the order of the traces.\<close>

lemma runs_Cons:
  "runs window (g # gs) \<longleftrightarrow> g \<noteq> [] \<and> list_all (near window g) (tl g) \<and> runs window gs \<and>
    (gs = [] \<or> \<not> near window g (hd (hd gs)))"
  by (cases gs) auto

lemma runs_nonempty: "runs window gs \<Longrightarrow> g \<in> set gs \<Longrightarrow> g \<noteq> []"
  by (induction gs) (auto simp: runs_Cons)

lemma runs_prefix_le:
  assumes "runs window (g # gs)" "runs window (h # hs)" "concat (g # gs) = concat (h # hs)" "length g < length h"
  shows False
proof -
  from assms(3,4) obtain r where h: "h = g @ r" "r \<noteq> []" "concat gs = r @ concat hs"
    by (auto simp: append_eq_append_conv2)
  from assms(1) have ne: "g \<noteq> []" by (simp add: runs_Cons)
  from h(2,3) obtain k ks where gs: "gs = k # ks" by (cases gs) auto
  with assms(1) have "k \<noteq> []" "\<not> near window g (hd k)" by (auto simp: runs_Cons)
  moreover from this h(2,3) gs have "hd k = hd r" by (metis concat.simps(2) hd_append2)
  ultimately have "\<not> near window g (hd r)" by simp
  moreover have "near window h (hd r)"
  proof -
    have "hd r \<in> set (tl h)" using h(1,2) ne by (cases g) auto
    with assms(2) show ?thesis by (auto simp: runs_Cons list_all_iff)
  qed
  ultimately show False using h(1) ne by (simp add: near_def)
qed

lemma runs_unique:
  "runs window gs \<Longrightarrow> runs window hs \<Longrightarrow> concat gs = concat hs \<Longrightarrow> gs = hs"
proof (induction gs arbitrary: hs)
  case Nil
  then show ?case by (cases hs) (auto simp: runs_Cons)
next
  case (Cons g gs)
  then obtain h hs' where hs: "hs = h # hs'" by (cases hs) (auto simp: runs_Cons)
  have "length g = length h"
    using runs_prefix_le [of window g gs h hs'] runs_prefix_le [of window h hs' g gs] Cons.prems hs
    by (metis linorder_neqE_nat)
  with Cons.prems hs have "g = h" "concat gs = concat hs'" by auto
  with Cons hs show ?case by (auto simp: runs_Cons)
qed


section \<open>Distributed traces\<close>

lemma merge_fields [simp]:
  "dt_id (merge_traces srtS rng n g) = n"
  "dt_roots (merge_traces srtS rng n g) = map (\<lambda>t. t_node t @ '': '' @ t_root t) g"
  by (simp_all add: merge_traces_def Let_def)

text \<open>
  C35: the distributed traces are the bursts of the nodes' traces. However \<^verbatim>\<open>sort.Slice\<close> orders equal
  times, the traces fetched from all nodes, sorted by start, are cut into the one sequence of runs in
  which every trace starts within the window of the first of its run and the next run starts beyond
  it; there is one distributed trace for each run, numbered from 1, with the roots of its traces in
  order, so that every fetched trace is in exactly one of them.
\<close>

theorem build_groups_bursts:
  assumes "sorts_by t_start srtT"
  shows "\<exists>gs. runs window gs \<and> concat gs = srtT (fetch_all fetch inventory) \<and>
      (\<forall>gs'. runs window gs' \<and> concat gs' = srtT (fetch_all fetch inventory) \<longrightarrow> gs' = gs) \<and>
      map dt_roots (build srtT srtS rng window fetch inventory) =
        map (map (\<lambda>t. t_node t @ '': '' @ t_root t)) gs \<and>
      map dt_id (build srtT srtS rng window fetch inventory) = map int [1..<length gs + 1] \<and>
      mset (concat gs) = mset (fetch_all fetch inventory) \<and> sorted (map t_start (concat gs))"
proof -
  let ?ts = "srtT (fetch_all fetch inventory)"
  let ?gs = "group_traces window ?ts"
  note sorter = slice_sort.mset_srt [OF sorts_byD [OF assms]] slice_sort.sorted_srt [OF sorts_byD [OF assms]]
  have gs: "runs window ?gs" "concat ?gs = ?ts" using group_traces_runs by blast+
  have "map dt_roots (build srtT srtS rng window fetch inventory) = map (map (\<lambda>t. t_node t @ '': '' @ t_root t)) ?gs"
    by (rule nth_equalityI) (simp_all add: build_def nth_enumerate_eq)
  moreover have "map dt_id (build srtT srtS rng window fetch inventory) = map int [1..<length ?gs + 1]"
    by (rule nth_equalityI) (simp_all add: build_def nth_enumerate_eq del: upt_Suc)
  moreover have "\<forall>gs'. runs window gs' \<and> concat gs' = ?ts \<longrightarrow> gs' = ?gs"
  proof (intro allI impI)
    fix gs' assume "runs window gs' \<and> concat gs' = ?ts"
    then show "gs' = ?gs" using runs_unique [OF _ gs(1), of gs'] gs(2) by (simp only:)
  qed
  moreover have "mset (concat ?gs) = mset (fetch_all fetch inventory)" "sorted (map t_start (concat ?gs))"
    unfolding gs(2) by (rule sorter)+
  ultimately show ?thesis using gs by blast
qed

text \<open>Three nodes: a link flap seen at both ends, and a route change a minute later.\<close>

definition flap_trace :: "string \<Rightarrow> string \<Rightarrow> int \<Rightarrow> trace" where
  "flap_trace node root start =
     \<lparr>t_node = node, t_id = 1, t_root = root, t_start = start, t_span = 5,
      t_spans = [\<lparr>sp_offset = 5, sp_bus = ''netlink'', sp_kind = ''link-down'', sp_key = '''', sp_detail = ''''\<rparr>]\<rparr>"

definition flap_fetch :: "string \<Rightarrow> trace list" where
  "flap_fetch url =
     (if url = ''http://10.0.0.1:9340/traces''
      then [flap_trace ''pe1'' ''netlink/link-down pe1-p1'' 1000000000, flap_trace ''pe1'' ''churn/fpm-route-add x'' 61000000000]
      else [flap_trace '''' ''netlink/link-down p1-pe1'' 1200000000])"

abbreviation (input) flap_inv :: "(string, string) gomap" where
  "flap_inv \<equiv> [(''pe1'', ''10.0.0.1''), (''p1'', ''10.0.0.2'')]"

theorem build_groups_bursts_witness:
  "map dt_roots (build (sort_key t_start) (sort_key ds_abs) id 1500000000 flap_fetch flap_inv) =
    [[''pe1: netlink/link-down pe1-p1'', ''p1: netlink/link-down p1-pe1''], [''pe1: churn/fpm-route-add x'']]"
proof -
  let ?ts = "sort_key t_start (fetch_all flap_fetch flap_inv)"
  let ?a = "flap_trace ''pe1'' ''netlink/link-down pe1-p1'' 1000000000"
    and ?b = "flap_trace ''p1'' ''netlink/link-down p1-pe1'' 1200000000"
    and ?c = "flap_trace ''pe1'' ''churn/fpm-route-add x'' 61000000000"
  have "fetch_all flap_fetch flap_inv = [?a, ?c, ?b]"
    by (simp add: fetch_all_def flap_fetch_def fetch_addr_def str_contains_def flap_trace_def)
  then have ts: "?ts = [?a, ?b, ?c]" by (simp add: flap_trace_def)
  from build_groups_bursts [OF by_start.sorts, of 1500000000 flap_fetch flap_inv "sort_key ds_abs" id]
  obtain gs where gs: "\<And>gs'. runs 1500000000 gs' \<and> concat gs' = ?ts \<Longrightarrow> gs' = gs"
      "map dt_roots (build (sort_key t_start) (sort_key ds_abs) id 1500000000 flap_fetch flap_inv) =
        map (map (\<lambda>t. t_node t @ '': '' @ t_root t)) gs" by blast
  have "runs 1500000000 [[?a, ?b], [?c]]"
    by (simp add: near_def time_sub_def flap_trace_def)
  with gs(1) [of "[[?a, ?b], [?c]]"] have "gs = [[?a, ?b], [?c]]" by (simp add: ts)
  with gs(2) show ?thesis by (simp add: flap_trace_def)
qed


section \<open>One timeline\<close>

definition hop_of_dspan :: "dspan \<Rightarrow> string \<times> string \<times> string \<times> string \<times> string \<times> int" where
  "hop_of_dspan s = (ds_node s, ds_bus s, ds_kind s, ds_key s, ds_detail s, ds_abs s)"

definition group_hops :: "trace list \<Rightarrow> dspan list" where
  "group_hops g = concat (map (\<lambda>t. map (hop_dspan t) (t_spans t)) g)"

lemma set_offsets_simps [simp]:
  "map hop_of_dspan (set_offsets start ss) = map hop_of_dspan ss"
  "map ds_off (set_offsets start ss) = map (\<lambda>s. millis (time_sub (ds_abs s) start)) ss"
  "set_offsets start [] = []" "length (set_offsets start ss) = length ss"
  by (simp_all add: set_offsets_def hop_of_dspan_def comp_def)

lemma foldl_max_last:
  "sorted xs \<Longrightarrow> xs \<noteq> [] \<Longrightarrow> m \<le> hd xs \<Longrightarrow> foldl (\<lambda>m x. if m < x then x else m) m xs = (last xs :: int)"
proof (induction xs arbitrary: m)
  case (Cons x xs)
  then show ?case
  proof (cases "xs = []")
    case False
    with Cons.prems(1) have "x \<le> hd xs" by (cases xs) auto
    with Cons False show ?thesis by (cases xs) auto
  qed simp
qed simp

lemma foldl_map_off:
  "foldl (\<lambda>m s. if m < ds_off s then ds_off s else m) m ss = foldl (\<lambda>m x. if m < x then x else m) m (map ds_off ss)"
  by (induction ss arbitrary: m) simp_all

lemma sorted_offsets:
  "sorted (map ds_abs ss) \<Longrightarrow> sorted (map (\<lambda>s. millis (time_sub (ds_abs s) start)) ss)"
proof (induction ss)
  case (Cons s ss)
  have "millis (time_sub (ds_abs s) start) \<le> millis (time_sub (ds_abs s') start)" if "s' \<in> set ss" for s'
    using Cons.prems that by (intro millis_mono) (auto simp: time_sub_def)
  with Cons show ?case by auto
qed simp

lemma node_set_sorted:
  "sort (map fst (foldl (\<lambda>m t. map_put (t_node t) True m) [] g)) = sorted_list_of_set (t_node ` set g)"
proof -
  have "gomap_ok m \<Longrightarrow> gomap_ok (foldl (\<lambda>m t. map_put (t_node t) True m) m g) \<and>
      fst ` set (foldl (\<lambda>m t. map_put (t_node t) True m) m g) = fst ` set m \<union> t_node ` set g" for m :: "(string, bool) gomap"
    by (induction g arbitrary: m) (auto simp: gomap_ok_put dom_map_of_conv_image_fst [symmetric])
  from this [of "[]"] show ?thesis
    by (intro sorted_distinct_set_unique) simp_all
qed

text \<open>
  A distributed trace is one timeline. However the sort orders equal times, its hops are the hops of
  the group's traces, each with its node and absolute time, in the order of time; the offsets
  never decrease, the first is 0 at the start of the trace and the last is its span; and its nodes are
  those of the traces, sorted and without repetition.
\<close>

theorem merge_is_timeline:
  assumes "sorts_by ds_abs srtS" and "group_hops g \<noteq> []"
  shows "mset (map hop_of_dspan (dt_spans (merge_traces srtS rng n g))) = mset (map hop_of_dspan (group_hops g)) \<and>
    sorted (map ds_abs (dt_spans (merge_traces srtS rng n g))) \<and>
    sorted (map ds_off (dt_spans (merge_traces srtS rng n g))) \<and>
    ds_off (hd (dt_spans (merge_traces srtS rng n g))) = 0 \<and>
    dt_start (merge_traces srtS rng n g) = Min (ds_abs ` set (group_hops g)) \<and>
    dt_span (merge_traces srtS rng n g) = ds_off (last (dt_spans (merge_traces srtS rng n g))) \<and>
    dt_nodes (merge_traces srtS rng n g) = sorted_list_of_set (t_node ` set g)"
proof -
  let ?ss = "srtS (group_hops g)"
  let ?start = "ds_abs (hd ?ss)"
  let ?ds = "set_offsets ?start ?ss"
  note sorter = sorts_byD [OF assms(1)]
  note srt = slice_sort.mset_srt [OF sorter, of "group_hops g"] slice_sort.sorted_srt [OF sorter, of "group_hops g"]
  have ne: "?ss \<noteq> []" using slice_sort.srt_Nil_iff [OF sorter] assms(2) by blast
  have off: "sorted (map ds_off ?ds)" using sorted_offsets [OF srt(2)] by simp
  have hd0: "ds_off (hd ?ds) = 0"
    using ne by (simp add: set_offsets_def hd_map millis_def time_sub_def tdiv_def)
  have abs: "map ds_abs ?ds = map ds_abs ?ss" by (simp add: set_offsets_def comp_def)
  have span: "foldl (\<lambda>m s. if m < ds_off s then ds_off s else m) 0 ?ds = ds_off (last ?ds)"
    unfolding foldl_map_off using off ne hd0
    by (subst foldl_max_last) (simp_all add: hd_map last_map set_offsets_def)
  have "?start = Min (ds_abs ` set (group_hops g))"
  proof (rule Min_eqI [symmetric])
    show "?start \<in> ds_abs ` set (group_hops g)"
      using ne slice_sort.set_srt [OF sorter, of "group_hops g"] hd_in_set [OF ne] by simp
  qed (use slice_sort.srt_head_min [OF sorter] in auto)
  moreover have "mset (map hop_of_dspan ?ds) = mset (map hop_of_dspan (group_hops g))"
    using srt(1) by simp
  moreover have "dt_spans (merge_traces srtS rng n g) = ?ds" "dt_start (merge_traces srtS rng n g) = ?start"
      "dt_span (merge_traces srtS rng n g) = foldl (\<lambda>m s. if m < ds_off s then ds_off s else m) 0 ?ds"
      "dt_nodes (merge_traces srtS rng n g) = sorted_list_of_set (t_node ` set g)"
    using ne by (simp_all add: merge_traces_def group_hops_def Let_def node_set_sorted)
  ultimately show ?thesis using off hd0 span srt(2) abs by simp
qed

theorem merge_is_timeline_witness:
  "dt_nodes (merge_traces (sort_key ds_abs) id 1
      [flap_trace ''pe1'' ''netlink/link-down pe1-p1'' 1000000000, flap_trace ''p1'' ''netlink/link-down p1-pe1'' 1200000000]) =
    [''p1'', ''pe1''] \<and>
   dt_start (merge_traces (sort_key ds_abs) id 1
      [flap_trace ''pe1'' ''netlink/link-down pe1-p1'' 1000000000, flap_trace ''p1'' ''netlink/link-down p1-pe1'' 1200000000]) =
    1005000000"
proof -
  let ?g = "[flap_trace ''pe1'' ''netlink/link-down pe1-p1'' 1000000000, flap_trace ''p1'' ''netlink/link-down p1-pe1'' 1200000000]"
  have hops: "ds_abs ` set (group_hops ?g) = {1005000000, 1205000000}"
    by (simp add: group_hops_def flap_trace_def hop_dspan_def wrap64_def)
  then have ne: "group_hops ?g \<noteq> []" by auto
  have nodes: "t_node ` set ?g = {''pe1'', ''p1''}" by (simp add: flap_trace_def)
  have "sorted_list_of_set {''pe1'', ''p1''} = [''p1'', ''pe1'']" by simp
  moreover from merge_is_timeline [OF by_abs.sorts ne, of id 1] have
    "dt_nodes (merge_traces (sort_key ds_abs) id 1 ?g) = sorted_list_of_set (t_node ` set ?g)"
    "dt_start (merge_traces (sort_key ds_abs) id 1 ?g) = Min (ds_abs ` set (group_hops ?g))" by blast+
  ultimately show ?thesis unfolding hops nodes by simp
qed


section \<open>Link names\<close>

definition plain_name :: "string \<Rightarrow> bool" where
  "plain_name s \<longleftrightarrow> CHR ''-'' \<notin> set s \<and> (\<forall>c \<in> set s. \<not> is_space c)"

lemma not_space [simp]:
  "\<not> is_space CHR ''-''" "\<not> is_space CHR ''l''" "\<not> is_space CHR ''i''" "\<not> is_space CHR ''n''" "\<not> is_space CHR ''k''"
  "\<not> is_space CHR ''u''" "\<not> is_space CHR ''p''" "\<not> is_space CHR ''d''" "\<not> is_space CHR ''o''" "\<not> is_space CHR ''w''"
  "is_space CHR '' ''"
  by (simp_all add: is_space_def)

lemma fields_two:
  assumes "w \<noteq> []" "v \<noteq> []" "\<forall>c \<in> set w. \<not> is_space c" "\<forall>c \<in> set v. \<not> is_space c"
  shows "GoStrings.fields (w @ '' '' @ v) = [w, v]"
  using assms split_by_append [of is_space "CHR '' ''" w v] split_by_no_sep [of v is_space]
  by (simp add: GoStrings.fields_def)

definition link_root :: "bool \<Rightarrow> string \<Rightarrow> string" where
  "link_root up iface = ''netlink/'' @ (if up then ''link-up'' else ''link-down'') @ '' '' @ iface"

lemma linkKey_root:
  assumes "plain_name a" "\<forall>c \<in> set b. \<not> is_space c"
  shows "linkKey (link_root up (a @ CHR ''-'' # b)) = (if b < a then b @ CHR ''-'' # CHR ''-'' # a else a @ CHR ''-'' # CHR ''-'' # b)"
proof -
  let ?k = "if up then ''link-up'' else ''link-down''" and ?i = "a @ CHR ''-'' # b"
  have idx: "str_index (link_root up ?i) ''link-'' = Some 8"
    by (cases up) (simp_all add: link_root_def)
  have "drop 8 (link_root up ?i) = ?k @ '' '' @ ?i" by (simp add: link_root_def)
  moreover have "GoStrings.fields (?k @ '' '' @ ?i) = [?k, ?i]"
    using assms by (intro fields_two) (auto simp: plain_name_def)
  ultimately have f: "GoStrings.fields (drop 8 (link_root up ?i)) = [?k, ?i]" by simp
  have "split_n2 CHR ''-'' ?i = [a, b]"
    using assms(1) split_n2_append [of "CHR ''-''" a b] by (simp add: plain_name_def)
  then show ?thesis by (simp add: linkKey_def idx f Let_def)
qed

text \<open>
  The two ends of a link vote for one link: for names without hyphens and spaces, the key of a link
  event is the same whichever end reports it and whether it is up or down, and distinct pairs of
  names have distinct keys.
\<close>

theorem linkKey_symmetric:
  assumes "plain_name a" and "plain_name b" and "plain_name c" and "plain_name d"
  shows "linkKey (link_root up (a @ CHR ''-'' # b)) = linkKey (link_root up' (b @ CHR ''-'' # a)) \<and>
    (linkKey (link_root up (a @ CHR ''-'' # b)) = linkKey (link_root up' (c @ CHR ''-'' # d)) \<longleftrightarrow> {a, b} = {c, d})"
proof -
  have key: "linkKey (link_root up (a @ CHR ''-'' # b)) = (if b < a then b @ CHR ''-'' # CHR ''-'' # a else a @ CHR ''-'' # CHR ''-'' # b)"
    if "plain_name a" "plain_name b" for a b up
    using that linkKey_root [of a b up] by (simp add: plain_name_def)
  have inj: "x @ CHR ''-'' # CHR ''-'' # y = x' @ CHR ''-'' # CHR ''-'' # y' \<longleftrightarrow> x = x' \<and> y = y'"
    if "plain_name x" "plain_name x'" for x y x' y'
    using that append_sep_eq [of "CHR ''-''" x x' "CHR ''-'' # y" "CHR ''-'' # y'"] by (simp add: plain_name_def)
  show ?thesis
    using assms by (auto simp: key inj doubleton_eq_iff)
qed

theorem linkKey_symmetric_witness:
  "linkKey (link_root True (''pe1'' @ CHR ''-'' # ''p1'')) = linkKey (link_root False (''p1'' @ CHR ''-'' # ''pe1''))"
  by (rule linkKey_symmetric [where c = "''p1''" and d = "''p2''", THEN conjunct1])
     (simp_all add: plain_name_def is_space_def)

text \<open>With hyphens in the names of nodes the two ends disagree.\<close>

lemma linkKey_hyphens:
  "linkKey (link_root True ''pe-1-p1'') = ''1-p1--pe''" "linkKey (link_root True ''p1-pe-1'') = ''p1--pe-1''"
  using linkKey_root [of "''pe''" "''1-p1''" True] linkKey_root [of "''p1''" "''pe-1''" True]
  by (simp_all add: plain_name_def is_space_def)


section \<open>Export\<close>

definition trace_id :: "(int \<Rightarrow> string) \<Rightarrow> (string \<Rightarrow> bytes) \<Rightarrow> dtrace \<Rightarrow> string" where
  "trace_id stamp sha dt = hexID sha (seed_of stamp dt) 16"

definition exported :: "post list \<Rightarrow> string list" where
  "exported ps = map fst (filter (\<lambda>(i, spans, ok). ok) ps)"

lemma push_all_exported:
  "push_all stamp sha dts pushed = (pushed', ps) \<Longrightarrow>
    distinct (exported ps) \<and> (\<forall>i. get_or False pushed' i \<longleftrightarrow> get_or False pushed i \<or> i \<in> set (exported ps)) \<and>
    (\<forall>i \<in> set (exported ps). \<not> get_or False pushed i)"
proof (induction stamp sha dts pushed arbitrary: pushed' ps rule: push_all.induct)
  case (2 stamp sha dt ok dts pushed)
  obtain p1 ps1 where 1: "pushZipkin stamp sha ok dt pushed = (p1, ps1)" by force
  obtain ps2 where 2: "push_all stamp sha dts p1 = (pushed', ps2)" "ps = ps1 @ ps2"
    using "2.prems" 1 by (auto split: prod.splits)
  note IH = "2.IH" [OF 1 [symmetric] refl 2(1)]
  have p1: "exported ps1 = (if ok \<and> \<not> get_or False pushed (trace_id stamp sha dt) then [trace_id stamp sha dt] else [])"
      "get_or False p1 i \<longleftrightarrow> get_or False pushed i \<or> i \<in> set (exported ps1)" for i
    using 1 by (auto simp: pushZipkin_def exported_def trace_id_def Let_def get_or_def split: if_splits option.splits)
  have "exported ps = exported ps1 @ exported ps2" by (simp add: 2(2) exported_def)
  with IH p1 show ?case by (auto split: if_splits)
qed (auto simp: exported_def)

lemma push_all_success:
  "push_all stamp sha dts pushed = (pushed', ps) \<Longrightarrow> (dt, True) \<in> set dts \<Longrightarrow> get_or False pushed' (trace_id stamp sha dt)"
proof (induction stamp sha dts pushed arbitrary: pushed' ps rule: push_all.induct)
  case (2 stamp sha dt' ok dts pushed)
  obtain p1 ps1 where 1: "pushZipkin stamp sha ok dt' pushed = (p1, ps1)" by force
  obtain ps2 where 2: "push_all stamp sha dts p1 = (pushed', ps2)"
    using "2.prems"(1) 1 by (auto split: prod.splits)
  show ?case
  proof (cases "(dt, True) \<in> set dts")
    case True
    from "2.IH" [OF 1 [symmetric] refl 2 True] show ?thesis .
  next
    case False
    with "2.prems"(2) have "get_or False p1 (trace_id stamp sha dt)"
      using 1 by (auto simp: pushZipkin_def trace_id_def Let_def get_or_def split: if_splits)
    with push_all_exported [OF 2] show ?thesis by blast
  qed
qed simp

text \<open>
  C36: every distributed trace is exported exactly once. Over any sequence of exports from the start,
  with any POSTs failing, no trace id is posted successfully twice, a trace one of whose POSTs could
  succeed has been exported by the end, and nothing is posted for an id that was exported. A POST fails
  when there is a transport error; a response with an HTTP error status counts as a success.
\<close>

theorem export_once:
  assumes "push_all stamp sha dts [] = (pushed', posts)"
  shows "distinct (exported posts) \<and> (\<forall>i. get_or False pushed' i \<longleftrightarrow> i \<in> set (exported posts)) \<and>
    ((dt, True) \<in> set dts \<longrightarrow> trace_id stamp sha dt \<in> set (exported posts)) \<and>
    (get_or False pushed' (trace_id stamp sha dt) \<longrightarrow> pushZipkin stamp sha ok dt pushed' = (pushed', []))"
  using push_all_exported [OF assms] push_all_success [OF assms, of dt]
  by (auto simp: get_or_def pushZipkin_def trace_id_def Let_def)

definition flap_dtrace :: dtrace where
  "flap_dtrace = \<lparr>dt_id = 1, dt_start = 1005000000, dt_span = 0, dt_link = ''p1--pe1'', dt_nodes = [''pe1''],
     dt_roots = [''pe1: netlink/link-down pe1-p1''], dt_spans = []\<rparr>"

theorem export_once_witness:
  "\<exists>pushed posts. push_all (\<lambda>_. ''t'') (map of_char) [(flap_dtrace, False), (flap_dtrace, True), (flap_dtrace, True)] [] =
      (pushed, posts) \<and> distinct (exported posts) \<and> trace_id (\<lambda>_. ''t'') (map of_char) flap_dtrace \<in> set (exported posts)"
proof -
  obtain pushed posts where p: "push_all (\<lambda>_. ''t'') (map of_char)
      [(flap_dtrace, False), (flap_dtrace, True), (flap_dtrace, True)] [] = (pushed, posts)" by force
  from export_once [OF p, of flap_dtrace] p show ?thesis by auto
qed

text \<open>Two refreshes of one flap whose ends have the same start time, with the inventory visited in either
  order, give distributed traces with different seeds: both are exported.\<close>

definition tie_fetch :: "string \<Rightarrow> trace list" where
  "tie_fetch url =
     (if url = ''http://10.0.0.1:9340/traces'' then [flap_trace ''pe1'' ''netlink/link-down pe1-p1'' 1000000000]
      else [flap_trace ''p1'' ''netlink/link-down p1-pe1'' 1000000000])"

lemma same_flap_two_seeds:
  "map (seed_of stamp) (build (sort_key t_start) (sort_key ds_abs) id 1500000000 tie_fetch flap_inv) \<noteq>
   map (seed_of stamp) (build (sort_key t_start) (sort_key ds_abs) id 1500000000 tie_fetch (rev flap_inv))"
proof -
  let ?a = "flap_trace ''pe1'' ''netlink/link-down pe1-p1'' 1000000000"
    and ?b = "flap_trace ''p1'' ''netlink/link-down p1-pe1'' 1000000000"
  have f: "fetch_all tie_fetch flap_inv = [?a, ?b]" "fetch_all tie_fetch (rev flap_inv) = [?b, ?a]"
    by (simp_all add: fetch_all_def tie_fetch_def fetch_addr_def str_contains_def flap_trace_def)
  have g: "group_traces 1500000000 [?a, ?b] = [[?a, ?b]]" "group_traces 1500000000 [?b, ?a] = [[?b, ?a]]"
    by (simp_all add: group_traces_def group_step_def time_sub_def flap_trace_def)
  have s: "sort_key t_start [?a, ?b] = [?a, ?b]" "sort_key t_start [?b, ?a] = [?b, ?a]"
    by (simp_all add: flap_trace_def)
  have l: "dt_link (merge_traces (sort_key ds_abs) id 1 [?a, ?b]) = ''p1--pe1''"
      "dt_link (merge_traces (sort_key ds_abs) id 1 [?b, ?a]) = ''p1--pe1''"
      "dt_start (merge_traces (sort_key ds_abs) id 1 [?a, ?b]) = dt_start (merge_traces (sort_key ds_abs) id 1 [?b, ?a])"
    using linkKey_root [of "''pe1''" "''p1''" False] linkKey_root [of "''p1''" "''pe1''" False]
    by (simp_all add: merge_traces_def vote_def winner_def Let_def flap_trace_def link_root_def plain_name_def
        is_space_def get_or_def hop_dspan_def)
  show ?thesis
    unfolding build_def f s g by (simp add: seed_of_def l flap_trace_def del: merge_traces_def)
qed

end
