(* ===== verification/Collector_Race.thy ===== *)
theory Collector_Race
  imports Collector_Props
begin

text \<open>
  The kernel's tables in the running collector. Two goroutines of the kernel ingester write such a table:
  the one that follows the messages about it and the one that writes the first snapshot. The locale states
  what the two do to the table; then the rows are those the messages alone make, but for rows of the
  snapshot. The interfaces and the bridge entries are instances.
\<close>

declare apply_eff.simps(1) [simp del]

section \<open>Calls that leave a table\<close>

definition still :: "(store \<Rightarrow> 't) \<Rightarrow> eff \<Rightarrow> bool" where
  "still table e \<longleftrightarrow> (\<forall>st. table (apply_eff st e) = table st)"

lemma still_Emit [simp]: "still table (Emit bus kind key detail root)"
  by (simp add: still_def)

lemma still_effs: "\<forall>e \<in> set es. still table e \<Longrightarrow> table (apply_effs st es) = table st"
  by (induction es arbitrary: st) (simp_all add: still_def)


section \<open>A table that two goroutines write\<close>

locale raced_table =
  fixes table :: "store \<Rightarrow> 'k \<Rightarrow> 'row"
    and rt :: routine
    and msgs :: "collector \<Rightarrow> 'm list"
    and handler :: "'m \<Rightarrow> eff list"
    and snap :: "kernel \<Rightarrow> 'k \<Rightarrow> 'row \<Rightarrow> bool"
  assumes writer: "area_of rt = AKernel" "rt \<noteq> RCounters"
    and foreign: "eff_of a e \<Longrightarrow> a \<noteq> AKernel \<Longrightarrow> still table e"
    and other_links: "rt \<noteq> RLinks \<Longrightarrow> e \<in> set (linkLoop lu) \<Longrightarrow> still table e"
    and other_neighs: "rt \<noteq> RNeighs \<Longrightarrow> e \<in> set (neighLoop byIndex nu) \<Longrightarrow> still table e"
    and other_counters: "e \<in> set (counterLoop kn) \<Longrightarrow> still table e"
    and snapshot_calls: "e \<in> set (snapshot kn) \<Longrightarrow>
      still table e \<or> (\<exists>key row. snap kn key row \<and> (\<forall>st. table (apply_eff st e) = (table st)(key := row)))"
    and handler_calls: "e \<in> set (handler m) \<Longrightarrow>
      (\<forall>st. table (apply_eff st e) key = table st key) \<or> (\<exists>row. \<forall>st. table (apply_eff st e) key = row)"
    and start_msgs: "msgs (co_start target ll ll' kn now) = []"
    and step_msgs: "co_step s s' \<Longrightarrow>
      (\<exists>m. co_todo s rt = [] \<and> msgs s' = msgs s @ [m] \<and> co_todo s' = (co_todo s)(rt := handler m) \<and>
        co_log s' = co_log s \<and> co_store s' = co_store s) \<or>
      msgs s' = msgs s \<and> (co_log s' = co_log s \<longrightarrow> co_todo s' rt = co_todo s rt)"
begin

definition calls :: "collector \<Rightarrow> eff list" where
  "calls s = map snd (filter (\<lambda>x. fst x = rt) (co_log s))"

text \<open>The calls still to be made, and the rows.\<close>

definition pending_ok :: "kernel \<Rightarrow> collector \<Rightarrow> bool" where
  "pending_ok k s \<longleftrightarrow>
     (\<forall>r. r \<notin> {rt, RCounters} \<longrightarrow> (\<forall>e \<in> set (co_todo s r). still table e)) \<and>
     (\<forall>e \<in> set (co_todo s RCounters). still table e \<or>
       (\<exists>key row. snap k key row \<and> (\<forall>st. table (apply_eff st e) = (table st)(key := row)))) \<and>
     calls s @ co_todo s rt = concat (map handler (msgs s))"

definition rows_ok :: "kernel \<Rightarrow> collector \<Rightarrow> bool" where
  "rows_ok k s \<longleftrightarrow>
     (\<forall>key. table (co_store s) key = table (apply_effs (\<lambda>_. None) (calls s)) key \<or> snap k key (table (co_store s) key))"

lemma todo_still:
  assumes "co_step s s'" "calls_ok s" "pending_ok k s" "r \<notin> {rt, RCounters}" "e \<in> set (co_todo s' r)"
  shows "still table e"
proof (cases "area_of r = AKernel")
  case False
  have "calls_ok s'" by (rule calls_ok_step [OF assms(1,2)])
  with assms(5) foreign [OF _ False] show ?thesis unfolding calls_ok_def by blast
next
  case True
  with assms show ?thesis
    by (induction rule: co_step.induct)
       (auto simp: pending_ok_def other_links other_neighs split: if_splits)
qed

lemma todo_counters:
  assumes "co_step s s'" "pending_ok k s" "e \<in> set (co_todo s' RCounters)"
  shows "still table e \<or> (\<exists>key row. snap k key row \<and> (\<forall>st. table (apply_eff st e) = (table st)(key := row)))"
  using assms
  by (induction rule: co_step.induct) (auto simp: pending_ok_def other_counters split: if_splits)

text \<open>A step makes one call or none.\<close>

lemma step_call:
  "co_step s s' \<Longrightarrow>
    (\<exists>r e es. co_todo s r = e # es \<and> co_todo s' = (co_todo s)(r := es) \<and> co_log s' = co_log s @ [(r, e)] \<and>
      co_store s' = apply_eff (co_store s) e) \<or>
    co_log s' = co_log s \<and> co_store s' = co_store s"
  by (induction rule: co_step.induct) auto

lemma pending_step:
  assumes "co_step s s'" "calls_ok s" "pending_ok k s"
  shows "pending_ok k s'"
proof -
  have "calls s' @ co_todo s' rt = concat (map handler (msgs s'))"
    using step_msgs [OF assms(1)]
  proof (elim disjE exE conjE)
    fix m
    assume "co_todo s rt = []" "msgs s' = msgs s @ [m]" "co_todo s' = (co_todo s)(rt := handler m)" "co_log s' = co_log s"
    with assms(3) show ?thesis by (simp add: pending_ok_def calls_def)
  next
    assume same: "msgs s' = msgs s" "co_log s' = co_log s \<longrightarrow> co_todo s' rt = co_todo s rt"
    from step_call [OF assms(1)] show ?thesis
    proof (elim disjE exE conjE)
      fix r e es
      assume "co_todo s r = e # es" "co_todo s' = (co_todo s)(r := es)" "co_log s' = co_log s @ [(r, e)]"
      with assms(3) same(1) show ?thesis by (cases "r = rt") (simp_all add: pending_ok_def calls_def)
    next
      assume "co_log s' = co_log s"
      with assms(3) same show ?thesis by (simp add: pending_ok_def calls_def)
    qed
  qed
  with todo_still [OF assms] todo_counters [OF assms(1,3)] show ?thesis unfolding pending_ok_def by blast
qed

lemma rows_step:
  assumes "co_step s s'" "pending_ok k s" "rows_ok k s"
  shows "rows_ok k s'"
  using step_call [OF assms(1)]
proof (elim disjE exE conjE)
  fix r e es
  assume call: "co_todo s r = e # es" "co_log s' = co_log s @ [(r, e)]" "co_store s' = apply_eff (co_store s) e"
  have e: "e \<in> set (co_todo s r)" using call(1) by simp
  have rows: "table (co_store s) key = table (apply_effs (\<lambda>_. None) (calls s)) key \<or> snap k key (table (co_store s) key)" for key
    using assms(3) by (simp add: rows_ok_def)
  show ?thesis
  proof (cases "r = rt")
    case True
    have "e \<in> set (concat (map handler (msgs s)))"
      using assms(2) e True unfolding pending_ok_def by (metis Un_iff set_append)
    then obtain m where m: "e \<in> set (handler m)" by auto
    have calls: "calls s' = calls s @ [e]" using call(2) True by (simp add: calls_def)
    have "table (co_store s') key = table (apply_effs (\<lambda>_. None) (calls s')) key \<or> snap k key (table (co_store s') key)" for key
      using handler_calls [OF m, of key] rows [of key] by (auto simp: calls call(3))
    then show ?thesis by (simp add: rows_ok_def)
  next
    case False
    have calls: "calls s' = calls s" using call(2) False by (simp add: calls_def)
    have "still table e \<or> (\<exists>key row. snap k key row \<and> (\<forall>st. table (apply_eff st e) = (table st)(key := row)))"
      using assms(2) e False unfolding pending_ok_def by blast
    then show ?thesis
    proof (elim disjE exE conjE)
      assume "still table e"
      with assms(3) show ?thesis by (simp add: rows_ok_def calls call(3) still_def)
    next
      fix key row
      assume "snap k key row" "\<forall>st. table (apply_eff st e) = (table st)(key := row)"
      with rows show ?thesis by (auto simp: rows_ok_def calls call(3))
    qed
  qed
next
  assume "co_log s' = co_log s" "co_store s' = co_store s"
  with assms(3) show ?thesis by (simp add: rows_ok_def calls_def)
qed

lemma ok_run:
  assumes "rtranclp co_step (co_start target ll ll' k now) s"
  shows "pending_ok k s \<and> rows_ok k s"
  using assms
proof (induction rule: rtranclp_induct)
  case base
  have "calls (co_start target ll ll' k now) = []" by (simp add: calls_def co_start_def)
  moreover have "co_todo (co_start target ll ll' k now) r = (if r = RCounters then snapshot k else [])" for r
    by (simp add: co_start_def)
  moreover have "co_store (co_start target ll ll' k now) = (\<lambda>_. None)" by (simp add: co_start_def)
  ultimately show ?case using snapshot_calls writer(2) by (auto simp: pending_ok_def rows_ok_def start_msgs)
next
  case (step s s')
  then show ?case
    using pending_step rows_step calls_ok_reach [OF run_reach [OF step(1) co_reach.start]] by blast
qed

text \<open>The rows are those of the messages, or of the snapshot.\<close>

lemma rows_run:
  assumes "rtranclp co_step (co_start target ll ll' k now) s" "co_todo s rt = []"
  shows "table (co_store s) key = table (apply_effs (\<lambda>_. None) (concat (map handler (msgs s)))) key \<or>
    snap k key (table (co_store s) key)"
proof -
  have "calls s = concat (map handler (msgs s))" using ok_run [OF assms(1)] assms(2) by (simp add: pending_ok_def)
  with ok_run [OF assms(1)] show ?thesis by (simp add: rows_ok_def)
qed

text \<open>With nothing pending, only a further message changes the rows.\<close>

lemma msgs_grow: "co_step s s' \<Longrightarrow> length (msgs s) \<le> length (msgs s')"
  using step_msgs [of s s'] by auto

lemma rows_stay:
  assumes "rtranclp co_step s s'" "calls_ok s" "\<forall>r. co_todo s r = []" "msgs s' = msgs s"
  shows "table (co_store s') = table (co_store s)"
proof -
  define P where "P s' \<longleftrightarrow> calls_ok s' \<and> (\<forall>r. r \<noteq> rt \<longrightarrow> (\<forall>e \<in> set (co_todo s' r). still table e)) \<and>
      length (msgs s) \<le> length (msgs s') \<and>
      (length (msgs s') = length (msgs s) \<longrightarrow> co_todo s' rt = [] \<and> table (co_store s') = table (co_store s))" for s'
  have others: "still table e" if "co_step s1 s2" "P s1" "r \<noteq> rt" "e \<in> set (co_todo s2 r)" for s1 s2 r e
  proof (cases "area_of r = AKernel")
    case False
    have "calls_ok s2" using calls_ok_step that(1,2) by (auto simp: P_def)
    with that(4) foreign [OF _ False] show ?thesis unfolding calls_ok_def by blast
  next
    case True
    with that show ?thesis
      by (induction rule: co_step.induct)
         (auto simp: P_def other_links other_neighs other_counters split: if_splits)
  qed
  have step: "P s2" if "co_step s1 s2" "P s1" for s1 s2
  proof -
    have rest: "co_todo s2 rt = [] \<and> table (co_store s2) = table (co_store s)" if same: "length (msgs s2) = length (msgs s)"
    proof -
      have len: "length (msgs s1) = length (msgs s)" "msgs s2 = msgs s1"
        using step_msgs [OF \<open>co_step s1 s2\<close>] \<open>P s1\<close> same by (auto simp: P_def)
      with \<open>P s1\<close> have 1: "co_todo s1 rt = []" "table (co_store s1) = table (co_store s)" by (auto simp: P_def)
      have upd: "co_log s2 = co_log s1 \<longrightarrow> co_todo s2 rt = co_todo s1 rt"
        using step_msgs [OF \<open>co_step s1 s2\<close>] len(2) by auto
      from step_call [OF \<open>co_step s1 s2\<close>] show ?thesis
      proof (elim disjE exE conjE)
        fix r e es
        assume call: "co_todo s1 r = e # es" "co_todo s2 = (co_todo s1)(r := es)" "co_store s2 = apply_eff (co_store s1) e"
        with 1(1) have "r \<noteq> rt" by auto
        with call(1) \<open>P s1\<close> have "still table e" unfolding P_def by (metis list.set_intros(1))
        with call 1 \<open>r \<noteq> rt\<close> show ?thesis by (simp add: still_def)
      qed (use 1 upd in simp)
    qed
    have "calls_ok s2" "length (msgs s) \<le> length (msgs s2)"
      using that calls_ok_step msgs_grow [OF that(1)] by (auto simp: P_def)
    with rest others [OF that] show ?thesis unfolding P_def by blast
  qed
  have "P s" using assms(2,3) by (simp add: P_def)
  from assms(1) this have "P s'" by (induction rule: rtranclp_induct) (auto intro: step)
  with assms(4) show ?thesis by (simp add: P_def)
qed

end

end
