(* ===== verification/Collector_Links.thy ===== *)
theory Collector_Links
  imports Collector_Race Netlink_Props
begin

text \<open>
  The interfaces in the cache of the running collector. Two goroutines of the kernel ingester write
  them: the one that follows the link messages and the one that writes the first snapshot. What is
  proved of the link messages alone holds but for that race, which can leave a removed interface.
\<close>

declare apply_eff.simps(1) [simp del]

section \<open>Calls that touch no interface row\<close>

abbreviation quiet :: "eff \<Rightarrow> bool" where
  "quiet \<equiv> still iface_table"

lemma quiet_foreign:
  assumes "eff_of a e" "a \<noteq> AKernel"
  shows "quiet e"
proof -
  have "store_look (apply_eff st e) ''openconfig'' (ifaceElems name leaf) = store_look st ''openconfig'' (ifaceElems name leaf)"
    for st name leaf
    using assms(2) by (intro look_foreign [OF assms(1)]) simp
  then show ?thesis by (simp add: still_def iface_table_def fun_eq_iff)
qed

lemma quiet_upd:
  "(\<And>u name leaf. u \<in> set ups \<Longrightarrow> og = ''openconfig'' \<Longrightarrow> leaf \<noteq> [] \<Longrightarrow> fst u \<noteq> ifaceElems name leaf) \<Longrightarrow>
    quiet (CacheUpdate og ups [])"
proof -
  assume ups: "\<And>u name leaf. u \<in> set ups \<Longrightarrow> og = ''openconfig'' \<Longrightarrow> leaf \<noteq> [] \<Longrightarrow> fst u \<noteq> ifaceElems name leaf"
  have "map_of (rev ups) (ifaceElems name leaf) = None" if "og = ''openconfig''" "leaf \<noteq> []" for name leaf
    using ups that by (force simp: map_of_eq_None_iff)
  then show ?thesis by (auto simp: still_def iface_table_def fun_eq_iff look_apply_upd)
qed

lemma quiet_kernel:
  "e \<in> set (sampleCounters ll) \<Longrightarrow> quiet e" "e \<in> set (snapshotFDB byIndex nl) \<Longrightarrow> quiet e"
  "e \<in> set (snapshotMPLS byIndex rl) \<Longrightarrow> quiet e" "e \<in> set (snapshotAddrs al addrs) \<Longrightarrow> quiet e"
  "e \<in> set (neighLoop byIndex nu) \<Longrightarrow> quiet e"
proof -
  have fdb: "quiet e" if "e \<in> set (writeFDB byIndex n)" for n
    using that by (auto simp: writeFDB_def Let_def leafUpdate_def ifaceElems_def fdbElems_def intro!: quiet_upd)
  show "e \<in> set (sampleCounters ll) \<Longrightarrow> quiet e"
    by (auto simp: sampleCounters_def counterUpdate_def ifaceElems_def state_leaf_def
        split: option.splits intro!: quiet_upd)
  show "e \<in> set (snapshotFDB byIndex nl) \<Longrightarrow> quiet e"
    using fdb by (auto simp: snapshotFDB_def split: option.splits if_splits)
  show "e \<in> set (snapshotMPLS byIndex rl) \<Longrightarrow> quiet e"
    by (auto simp: snapshotMPLS_def writeLFIB_def Let_def split: option.splits intro!: quiet_upd)
  show "e \<in> set (snapshotAddrs al addrs) \<Longrightarrow> quiet e"
    by (auto simp: snapshotAddrs_def addrElems_def ifaceElems_def state_leaf_def leafUpdate_def Let_def
        split: option.splits intro!: quiet_upd)
  have "quiet (CacheUpdate ''openconfig'' [] [fdbElems m v []])" for m v
    by (auto simp: still_def iface_table_def look_apply_del fun_eq_iff fdbElems_def ifaceElems_def)
  with fdb show "e \<in> set (neighLoop byIndex nu) \<Longrightarrow> quiet e"
    by (auto simp: neighLoop_def Let_def split: if_splits)
qed

lemma quiet_counterLoop: "e \<in> set (counterLoop kn) \<Longrightarrow> quiet e"
  using quiet_kernel(1,3,4) by (auto simp: counterLoop_def)


section \<open>The rows\<close>

text \<open>The links the first snapshot lists, and their rows.\<close>

definition listed :: "kernel \<Rightarrow> klink set" where
  "listed k = (case k_links k of None \<Rightarrow> {} | Some links \<Rightarrow> set links)"

definition listed_row :: "kernel \<Rightarrow> string \<Rightarrow> iface_row \<Rightarrow> bool" where
  "listed_row k name row \<longleftrightarrow> (\<exists>l \<in> listed k. kl_name l = name \<and> row = iface_entry l)"

lemma snapshot_calls: "e \<in> set (snapshot k) \<Longrightarrow> quiet e \<or> (\<exists>l \<in> listed k. e \<in> set (writeLinkState l))"
  using quiet_kernel(1-4) by (auto simp: snapshot_def listed_def split: option.splits)

lemma write_row:
  "e \<in> set (writeLinkState l) \<Longrightarrow> iface_table (apply_eff st e) = (iface_table st)(kl_name l := iface_entry l)"
  using iface_table_write [of st l] by (auto simp: writeLinkState_def Let_def)

text \<open>A call for a link message leaves a row or sets it to a value of its own.\<close>

lemma link_call_row:
  assumes "e \<in> set (linkLoop u)"
  shows "(\<forall>st. iface_table (apply_eff st e) name = iface_table st name) \<or>
    (\<exists>row. \<forall>st. iface_table (apply_eff st e) name = row)"
proof -
  have del: "iface_table (apply_eff st (CacheUpdate ''openconfig'' [] [ifaceElems n []])) name =
      (if name = n then replicate 6 None else iface_table st name)" for st n
    by (auto simp: iface_table_def look_apply_del eval_nat_numeral)
  have "e \<in> set (writeLinkState (lu_link u)) \<or> (\<exists>n. e = CacheUpdate ''openconfig'' [] [ifaceElems n []]) \<or> quiet e"
    using assms by (cases "lu_type u = rtmDelLink") (auto simp: linkLoop_def Let_def)
  then show ?thesis
    by (elim disjE) (auto simp: write_row del still_def)
qed

interpretation ifaces: raced_table iface_table RLinks co_links linkLoop listed_row
proof unfold_locales
  show "eff_of a e \<Longrightarrow> a \<noteq> AKernel \<Longrightarrow> quiet e" for a e by (rule quiet_foreign)
  show "e \<in> set (neighLoop byIndex nu) \<Longrightarrow> quiet e" for e byIndex nu by (rule quiet_kernel)
  show "e \<in> set (counterLoop kn) \<Longrightarrow> quiet e" for e kn by (rule quiet_counterLoop)
  show "e \<in> set (snapshot kn) \<Longrightarrow> quiet e \<or>
      (\<exists>key row. listed_row kn key row \<and> (\<forall>st. iface_table (apply_eff st e) = (iface_table st)(key := row)))" for e kn
    using snapshot_calls [of e kn] write_row [of e] unfolding listed_row_def by blast
  show "e \<in> set (linkLoop m) \<Longrightarrow> (\<forall>st. iface_table (apply_eff st e) key = iface_table st key) \<or>
      (\<exists>row. \<forall>st. iface_table (apply_eff st e) key = row)" for e m key
    by (rule link_call_row)
  show "co_step s s' \<Longrightarrow>
      (\<exists>m. co_todo s RLinks = [] \<and> co_links s' = co_links s @ [m] \<and> co_todo s' = (co_todo s)(RLinks := linkLoop m) \<and>
        co_log s' = co_log s \<and> co_store s' = co_store s) \<or>
      co_links s' = co_links s \<and> (co_log s' = co_log s \<longrightarrow> co_todo s' RLinks = co_todo s RLinks)" for s s'
    by (induction rule: co_step.induct) auto
qed (simp_all add: co_start_def)

text \<open>
  C7: the interfaces in the running collector. Whatever the interleaving of all goroutines, when the calls
  for the link messages are made, the row of an interface is that of its last message, or empty after
  its removal, unless the first snapshot listed the interface and its row is the one of that snapshot.
\<close>

theorem collector_link_rows:
  assumes "rtranclp co_step (co_start target ll ll' k now) s" and "co_todo s RLinks = []"
  shows "iface_table (co_store s) name = foldl link_spec (\<lambda>_. replicate 6 None) (co_links s) name \<or>
    (\<exists>l \<in> listed k. kl_name l = name \<and> iface_table (co_store s) name = iface_entry l)"
proof -
  have "iface_table (\<lambda>_. None) = (\<lambda>_. replicate 6 None)"
    by (simp add: iface_table_def store_look_def fun_eq_iff eval_nat_numeral)
  with netlink_iface_table [of "\<lambda>_. None" "co_links s"]
  have "iface_table (apply_effs (\<lambda>_. None) (concat (map linkLoop (co_links s)))) =
      foldl link_spec (\<lambda>_. replicate 6 None) (co_links s)" by simp
  with ifaces.rows_run [OF assms, of name] show ?thesis by (auto simp: listed_row_def)
qed

text \<open>What a whole snapshot makes of the rows.\<close>

lemma write_rows:
  "iface_table (apply_effs st (concat (map writeLinkState links))) =
    foldl (\<lambda>t l. t(kl_name l := iface_entry l)) (iface_table st) links"
  by (induction links arbitrary: st) (simp_all add: iface_table_write)

lemma foldl_rows:
  "l \<in> set links \<Longrightarrow> distinct (map kl_name links) \<Longrightarrow>
    foldl (\<lambda>t l. t(kl_name l := iface_entry l)) t links (kl_name l) = iface_entry l"
proof -
  have "foldl (\<lambda>t l. t(kl_name l := iface_entry l)) t links name = t name" if "name \<notin> kl_name ` set links"
    for t :: "string \<Rightarrow> iface_row" and links name
    using that by (induction links arbitrary: t) auto
  then show "l \<in> set links \<Longrightarrow> distinct (map kl_name links) \<Longrightarrow> ?thesis"
    by (induction links arbitrary: t) auto
qed

lemma snapshot_row:
  assumes "k_links k = Some links" "l \<in> set links" "distinct (map kl_name links)"
  shows "iface_table (apply_effs st (snapshot k)) (kl_name l) = iface_entry l"
proof -
  define es where "es = sampleCounters (k_counters k) @ snapshotFDB (k_by_index k) (k_neighs k) @
    snapshotMPLS (k_by_index k) (k_routes k) @ snapshotAddrs (k_addr_links k) (k_addrs k)"
  have "snapshot k = concat (map writeLinkState links) @ es" using assms(1) by (simp add: snapshot_def es_def)
  moreover have "\<forall>e \<in> set es. quiet e" unfolding es_def set_append using quiet_kernel(1-4) by blast
  ultimately show ?thesis using foldl_rows [OF assms(2,3)] by (simp add: still_effs write_rows)
qed

text \<open>A link that the first snapshot lists and that goes while the snapshot is being written.\<close>

lemma race_run:
  assumes "k_links k = Some links" "l \<in> set links" "distinct (map kl_name links)" "lu_link u = l"
  shows "\<exists>s. rtranclp co_step (co_start target ll ll' k now) s \<and> (\<forall>r. co_todo s r = []) \<and>
    co_links s = [u] \<and> iface_table (co_store s) (kl_name l) = iface_entry l"
proof -
  let ?s0 = "co_start target ll ll' k now"
  let ?s1 = "todo RLinks (linkLoop u) (?s0\<lparr>co_links := co_links ?s0 @ [u]\<rparr>)"
  have "co_step ?s0 ?s1" by (rule co_step.link_event) (simp add: co_start_def)
  moreover obtain s2 where s2: "rtranclp co_step ?s1 s2" "co_todo s2 = (co_todo ?s1)(RLinks := [])" "co_links s2 = co_links ?s1"
    using drain [of ?s1 RLinks] by blast
  moreover obtain s3 where s3: "rtranclp co_step s2 s3" "co_todo s3 = (co_todo s2)(RCounters := [])" "co_links s3 = co_links s2"
      "co_store s3 = apply_effs (co_store s2) (co_todo s2 RCounters)"
    using drain [of s2 RCounters] by blast
  ultimately have "rtranclp co_step ?s0 s3"
    by (meson converse_rtranclp_into_rtranclp rtranclp_trans)
  moreover have "co_todo s3 r = []" for r
    using s2(2) s3(2) by (simp add: co_start_def)
  moreover have "co_links s3 = [u]" using s2(3) s3(3) by (simp add: co_start_def)
  moreover have "co_todo s2 RCounters = snapshot k"
    using s2(2) by (simp add: co_start_def)
  with s3(4) have "iface_table (co_store s3) (kl_name l) = iface_entry l"
    by (simp add: snapshot_row [OF assms(1-3)])
  ultimately show ?thesis by blast
qed

text \<open>A row that only a further link message can change.\<close>

definition stuck_row :: "collector \<Rightarrow> string \<Rightarrow> iface_row \<Rightarrow> bool" where
  "stuck_row s name row \<longleftrightarrow>
     (\<forall>s'. rtranclp co_step s s' \<and> co_links s' = co_links s \<longrightarrow> iface_table (co_store s') name = row)"

text \<open>
  C9: the race of the first snapshot with the link messages is real, and what it leaves stays. For every
  link that the first snapshot lists, the collector can reach a state with no call pending in which the
  kernel's only message about the link was its removal and the cache shows the link as the snapshot had
  it; and nothing the collector does, short of another link message, takes it away.
\<close>

theorem snapshot_race_leaves_ghost:
  assumes "k_links k = Some links" and "l \<in> set links" and "distinct (map kl_name links)"
  shows "\<exists>s. rtranclp co_step (co_start target ll ll' k now) s \<and> (\<forall>r. co_todo s r = []) \<and>
    co_links s = [\<lparr>lu_type = rtmDelLink, lu_link = l\<rparr>] \<and> stuck_row s (kl_name l) (iface_entry l)"
proof -
  obtain s where s: "rtranclp co_step (co_start target ll ll' k now) s" "\<forall>r. co_todo s r = []"
      "co_links s = [\<lparr>lu_type = rtmDelLink, lu_link = l\<rparr>]" "iface_table (co_store s) (kl_name l) = iface_entry l"
    using race_run [OF assms, of "\<lparr>lu_type = rtmDelLink, lu_link = l\<rparr>" target ll ll' now] by auto
  note ok = calls_ok_reach [OF run_reach [OF s(1) co_reach.start]]
  have "stuck_row s (kl_name l) (iface_entry l)"
    unfolding stuck_row_def using ifaces.rows_stay [OF _ ok s(2)] s(4) by metis
  with s(1-3) show ?thesis by blast
qed

text \<open>The kernel lists the interface of \<open>Netlink_Props\<close>.\<close>

definition race_kernel :: kernel where
  "race_kernel = run_kernel\<lparr>k_links := Some [sample_link]\<rparr>"

lemma race_links: "k_links race_kernel = Some [sample_link]"
  by (simp add: race_kernel_def)

theorem snapshot_race_leaves_ghost_witness:
  "\<exists>s. co_reach ''r1'' s \<and> co_links s = [\<lparr>lu_type = rtmDelLink, lu_link = sample_link\<rparr>] \<and>
    store_look (co_store s) ''openconfig'' (ifaceElems ''eth1'' ''oper-status'') = Some (StringVal ''UP'')"
proof -
  have "sample_link \<in> set [sample_link]" "distinct (map kl_name [sample_link])" by simp_all
  then obtain s where s: "rtranclp co_step (co_start ''r1'' None None race_kernel 0) s"
      "co_links s = [\<lparr>lu_type = rtmDelLink, lu_link = sample_link\<rparr>]" "stuck_row s (kl_name sample_link) (iface_entry sample_link)"
    using snapshot_race_leaves_ghost [OF race_links, of sample_link "''r1''" None None 0] by blast
  from s(3) have "iface_table (co_store s) (kl_name sample_link) = iface_entry sample_link"
    by (simp add: stuck_row_def)
  then have "store_look (co_store s) ''openconfig'' (ifaceElems ''eth1'' ''oper-status'') = Some (StringVal ''UP'')"
    by (simp add: iface_table_def iface_entry_def sample_link_def operStatus_def)
  with s(2) run_reach [OF s(1) co_reach.start] show ?thesis by blast
qed

text \<open>A link comes up on a node whose first snapshot lists another one; all calls are made.\<close>

theorem collector_link_rows_witness:
  "\<exists>s. rtranclp co_step (co_start ''r1'' None None (run_kernel\<lparr>k_links := Some [sample_link\<lparr>kl_name := ''eth0''\<rparr>]\<rparr>) 0) s \<and>
    (\<forall>r. co_todo s r = []) \<and> co_links s = [\<lparr>lu_type = 16, lu_link = sample_link\<rparr>] \<and>
    iface_table (co_store s) ''eth1'' = iface_entry sample_link"
proof -
  let ?k = "run_kernel\<lparr>k_links := Some [sample_link\<lparr>kl_name := ''eth0''\<rparr>]\<rparr>" and ?u = "\<lparr>lu_type = 16, lu_link = sample_link\<rparr>"
  let ?s0 = "co_start ''r1'' None None ?k 0"
  let ?s1 = "todo RLinks (linkLoop ?u) (?s0\<lparr>co_links := co_links ?s0 @ [?u]\<rparr>)"
  have "co_step ?s0 ?s1" by (rule co_step.link_event) (simp add: co_start_def)
  moreover obtain s2 where s2: "rtranclp co_step ?s1 s2" "co_todo s2 = (co_todo ?s1)(RLinks := [])" "co_links s2 = co_links ?s1"
    using drain [of ?s1 RLinks] by blast
  moreover obtain s where s: "rtranclp co_step s2 s" "co_todo s = (co_todo s2)(RCounters := [])" "co_links s = co_links s2"
    using drain [of s2 RCounters] by blast
  ultimately have run: "rtranclp co_step ?s0 s" by (meson converse_rtranclp_into_rtranclp rtranclp_trans)
  have idle: "co_todo s r = []" for r using s(2) s2(2) by (simp add: co_start_def)
  have links: "co_links s = [?u]" using s(3) s2(3) by (simp add: co_start_def)
  have "listed ?k = {sample_link\<lparr>kl_name := ''eth0''\<rparr>}" by (simp add: listed_def)
  with collector_link_rows [OF run idle, of "''eth1''"] links
  have "iface_table (co_store s) ''eth1'' = foldl link_spec (\<lambda>_. replicate 6 None) [?u] ''eth1''" by auto
  then have "iface_table (co_store s) ''eth1'' = iface_entry sample_link"
    by (simp add: link_spec_def sample_link_def)
  with run idle links show ?thesis by blast
qed

end
