(* ===== verification/Collector_Fdb.thy ===== *)
theory Collector_Fdb
  imports Collector_Race Netlink_Props
begin

text \<open>
  The bridge forwarding entries in the cache of the running collector, which the goroutine that follows
  the neighbour messages and the first snapshot write: the second instance of \<open>raced_table\<close>.
\<close>

declare apply_eff.simps(1) [simp del]

section \<open>Calls that touch no bridge entry\<close>

lemma fdb_still_foreign:
  assumes "eff_of a e" "a \<noteq> AKernel"
  shows "still fdb_table e"
proof -
  have "store_look (apply_eff st e) ''openconfig'' (fdbElems mac vlan leaf) = store_look st ''openconfig'' (fdbElems mac vlan leaf)"
    for st mac vlan leaf
    using assms(2) by (intro look_foreign [OF assms(1)]) simp
  then show ?thesis by (simp add: still_def fdb_table_def fun_eq_iff)
qed

text \<open>Interfaces and labels are filed elsewhere.\<close>

lemma fdb_still_upd:
  "(\<And>u mac vlan leaf. u \<in> set ups \<Longrightarrow> og = ''openconfig'' \<Longrightarrow> fst u \<noteq> fdbElems mac vlan leaf) \<Longrightarrow>
    still fdb_table (CacheUpdate og ups [])"
proof -
  assume ups: "\<And>u mac vlan leaf. u \<in> set ups \<Longrightarrow> og = ''openconfig'' \<Longrightarrow> fst u \<noteq> fdbElems mac vlan leaf"
  have "map_of (rev ups) (fdbElems mac vlan leaf) = None" if "og = ''openconfig''" for mac vlan leaf
    using ups that by (force simp: map_of_eq_None_iff)
  then show ?thesis by (auto simp: still_def fdb_table_def fun_eq_iff look_apply_upd)
qed

lemma fdb_other_path [simp]:
  "ifaceElems name leaf \<noteq> fdbElems mac vlan leaf'" "fst (counterUpdate name leaf v) \<noteq> fdbElems mac vlan leaf'"
  "addrElems name ip leaf \<noteq> fdbElems mac vlan leaf'"
  by (simp_all add: ifaceElems_def counterUpdate_def addrElems_def fdbElems_def state_leaf_def)

lemmas fdb_other_path_sym [simp] = fdb_other_path [symmetric]

lemma fdb_not_counter [simp]: "(fdbElems mac vlan leaf, b) \<noteq> counterUpdate name leaf' v"
  by (simp add: counterUpdate_def fdbElems_def)

lemma fdb_still_kernel:
  "e \<in> set (linkLoop lu) \<Longrightarrow> still fdb_table e" "e \<in> set (writeLinkState l) \<Longrightarrow> still fdb_table e"
  "e \<in> set (sampleCounters ll) \<Longrightarrow> still fdb_table e"
  "e \<in> set (snapshotMPLS byIndex rl) \<Longrightarrow> still fdb_table e" "e \<in> set (snapshotAddrs al addrs) \<Longrightarrow> still fdb_table e"
proof -
  have link: "still fdb_table e" if "e \<in> set (writeLinkState l)" for l
    using that by (auto simp: writeLinkState_def leafUpdate_def Let_def intro!: fdb_still_upd)
  then show "e \<in> set (writeLinkState l) \<Longrightarrow> still fdb_table e" .
  have "still fdb_table (CacheUpdate ''openconfig'' [] [ifaceElems name []])" for name
    by (auto simp: still_def fdb_table_def look_apply_del fun_eq_iff fdbElems_def ifaceElems_def)
  with link show "e \<in> set (linkLoop lu) \<Longrightarrow> still fdb_table e"
    by (auto simp: linkLoop_def Let_def split: if_splits)
  show "e \<in> set (sampleCounters ll) \<Longrightarrow> still fdb_table e"
    by (auto simp: sampleCounters_def split: option.splits intro!: fdb_still_upd)
  show "e \<in> set (snapshotMPLS byIndex rl) \<Longrightarrow> still fdb_table e"
    by (auto simp: snapshotMPLS_def writeLFIB_def Let_def split: option.splits intro!: fdb_still_upd)
  show "e \<in> set (snapshotAddrs al addrs) \<Longrightarrow> still fdb_table e"
    by (auto simp: snapshotAddrs_def leafUpdate_def Let_def split: option.splits intro!: fdb_still_upd)
qed


section \<open>The rows\<close>

definition fdb_entry :: "(int \<Rightarrow> string option) \<Rightarrow> neigh \<Rightarrow> fdb_row" where
  "fdb_entry byIndex n = (Some (StringVal (mac_string (ne_mac n))), Some (StringVal (if_name byIndex (ne_link n))))"

lemma fdb_write:
  "e \<in> set (writeFDB byIndex n) \<Longrightarrow> fdb_table (apply_eff st e) = (fdb_table st)(fdb_key n := fdb_entry byIndex n)"
  by (auto simp: writeFDB_def fdb_entry_def fdb_key_def fdb_table_def fun_eq_iff leafUpdate_def strVal_def Let_def
      look_apply_upd)

text \<open>The bridge entries the first snapshot lists.\<close>

definition fdb_listed :: "kernel \<Rightarrow> string \<times> string \<Rightarrow> fdb_row \<Rightarrow> bool" where
  "fdb_listed k key row \<longleftrightarrow>
     (\<exists>n \<in> (case k_neighs k of None \<Rightarrow> {} | Some ns \<Rightarrow> set ns).
       isUnicastMAC (ne_mac n) \<and> fdb_key n = key \<and> row = fdb_entry (k_by_index k) n)"

lemma fdb_snapshot_calls:
  assumes "e \<in> set (snapshot k)"
  shows "still fdb_table e \<or>
    (\<exists>key row. fdb_listed k key row \<and> (\<forall>st. fdb_table (apply_eff st e) = (fdb_table st)(key := row)))"
proof (cases "e \<in> set (snapshotFDB (k_by_index k) (k_neighs k))")
  case True
  then obtain ns n where n: "k_neighs k = Some ns" "n \<in> set ns" "isUnicastMAC (ne_mac n)" "e \<in> set (writeFDB (k_by_index k) n)"
    by (cases "k_neighs k") (auto simp: snapshotFDB_def split: if_splits)
  then have "fdb_listed k (fdb_key n) (fdb_entry (k_by_index k) n)" by (auto simp: fdb_listed_def)
  with fdb_write [OF n(4)] show ?thesis by blast
next
  case False
  with assms fdb_still_kernel(2-5) show ?thesis by (auto simp: snapshot_def split: option.splits)
qed

lemma fdb_call_row:
  assumes "e \<in> set (neighLoop byIndex u)"
  shows "(\<forall>st. fdb_table (apply_eff st e) key = fdb_table st key) \<or> (\<exists>row. \<forall>st. fdb_table (apply_eff st e) key = row)"
proof -
  have del: "fdb_table (apply_eff st (CacheUpdate ''openconfig'' [] [fdbElems m v []])) key =
      (if key = (m, v) then (None, None) else fdb_table st key)" for st m v
    by (cases key) (auto simp: fdb_table_def look_apply_del fdbElems_def)
  from assms consider "e \<in> set (writeFDB byIndex (nu_neigh u))" | m v where "e = CacheUpdate ''openconfig'' [] [fdbElems m v []]"
    by (auto simp: neighLoop_def Let_def split: if_splits)
  then show ?thesis by cases (auto simp: fdb_write del)
qed

interpretation fdb: raced_table fdb_table RNeighs co_neighs "\<lambda>(byIndex, nu). neighLoop byIndex nu" fdb_listed
proof unfold_locales
  show "eff_of a e \<Longrightarrow> a \<noteq> AKernel \<Longrightarrow> still fdb_table e" for a e by (rule fdb_still_foreign)
  show "e \<in> set (linkLoop lu) \<Longrightarrow> still fdb_table e" for e lu by (rule fdb_still_kernel)
  show "e \<in> set (counterLoop kn) \<Longrightarrow> still fdb_table e" for e kn
    using fdb_still_kernel(3-5) by (auto simp: counterLoop_def)
  show "e \<in> set (snapshot kn) \<Longrightarrow> still fdb_table e \<or>
      (\<exists>key row. fdb_listed kn key row \<and> (\<forall>st. fdb_table (apply_eff st e) = (fdb_table st)(key := row)))" for e kn
    by (rule fdb_snapshot_calls)
  show "e \<in> set (case m of (byIndex, nu) \<Rightarrow> neighLoop byIndex nu) \<Longrightarrow>
      (\<forall>st. fdb_table (apply_eff st e) key = fdb_table st key) \<or> (\<exists>row. \<forall>st. fdb_table (apply_eff st e) key = row)" for e m key
    by (cases m) (use fdb_call_row in auto)
  show "co_step s s' \<Longrightarrow>
      (\<exists>m. co_todo s RNeighs = [] \<and> co_neighs s' = co_neighs s @ [m] \<and>
        co_todo s' = (co_todo s)(RNeighs := (case m of (byIndex, nu) \<Rightarrow> neighLoop byIndex nu)) \<and>
        co_log s' = co_log s \<and> co_store s' = co_store s) \<or>
      co_neighs s' = co_neighs s \<and> (co_log s' = co_log s \<longrightarrow> co_todo s' RNeighs = co_todo s RNeighs)" for s s'
    by (induction rule: co_step.induct) auto
qed (simp_all add: co_start_def)

lemma fdb_messages:
  "fdb_table (apply_effs st (concat (map (\<lambda>(byIndex, nu). neighLoop byIndex nu) us))) =
    foldl (\<lambda>t (byIndex, nu). fdb_spec byIndex t nu) (fdb_table st) us"
  by (induction us arbitrary: st) (auto simp: fdb_table_neigh)

text \<open>
  C8: the bridge entries in the running collector. Whatever the interleaving of all goroutines, when the
  calls for the neighbour messages are made, the row of an address and VLAN is what these messages make
  of an empty table (the interface of the last bridge message about them, nothing after a removal;
  messages of other families and about group addresses do not count), unless the first snapshot listed
  the entry and the row is the one of that snapshot.
\<close>

theorem collector_fdb_rows:
  assumes "rtranclp co_step (co_start target ll ll' k now) s" and "co_todo s RNeighs = []"
  shows "fdb_table (co_store s) key = foldl (\<lambda>t (byIndex, nu). fdb_spec byIndex t nu) (\<lambda>_. (None, None)) (co_neighs s) key \<or>
    (\<exists>n \<in> (case k_neighs k of None \<Rightarrow> {} | Some ns \<Rightarrow> set ns).
      isUnicastMAC (ne_mac n) \<and> fdb_key n = key \<and> fdb_table (co_store s) key = fdb_entry (k_by_index k) n)"
proof -
  have "fdb_table (\<lambda>_. None) = (\<lambda>_. (None, None))"
    by (simp add: fdb_table_def store_look_def fun_eq_iff)
  with fdb.rows_run [OF assms, of key] show ?thesis by (simp add: fdb_messages fdb_listed_def)
qed

text \<open>A bridge entry is learned.\<close>

definition sample_neigh :: neigh_update where
  "sample_neigh = \<lparr>nu_type = 28, nu_neigh = \<lparr>ne_family = 7, ne_mac = [2, 0, 0, 0, 0, 1], ne_vlan = 10, ne_link = 3\<rparr>\<rparr>"

theorem collector_fdb_rows_witness:
  "\<exists>s. co_reach ''r1'' s \<and> co_neighs s = [(\<lambda>_. Some ''eth1'', sample_neigh)] \<and>
    snd (fdb_table (co_store s) (fdb_key (nu_neigh sample_neigh))) = Some (StringVal ''eth1'')"
proof -
  let ?s0 = "co_start ''r1'' None None run_kernel 0" and ?b = "\<lambda>_ :: int. Some ''eth1''"
  let ?s1 = "todo RNeighs (neighLoop ?b sample_neigh) (?s0\<lparr>co_neighs := co_neighs ?s0 @ [(?b, sample_neigh)]\<rparr>)"
  have "co_step ?s0 ?s1" by (rule co_step.neigh_event) (simp add: co_start_def)
  moreover obtain s where s: "rtranclp co_step ?s1 s" "co_todo s = (co_todo ?s1)(RNeighs := [])" "co_neighs s = co_neighs ?s1"
    using drain [of ?s1 RNeighs] by blast
  ultimately have run: "rtranclp co_step ?s0 s" by (meson converse_rtranclp_into_rtranclp)
  have "co_todo s RNeighs = []" "co_neighs s = [(?b, sample_neigh)]" using s by (simp_all add: co_start_def)
  with collector_fdb_rows [OF run, of "fdb_key (nu_neigh sample_neigh)"]
  have "fdb_table (co_store s) (fdb_key (nu_neigh sample_neigh)) =
      fdb_spec ?b (\<lambda>_. (None, None)) sample_neigh (fdb_key (nu_neigh sample_neigh))"
    by (simp add: run_kernel_def)
  moreover have "isUnicastMAC [2, 0, 0, 0, 0, 1]" by (simp add: isUnicastMAC_def)
  ultimately have "snd (fdb_table (co_store s) (fdb_key (nu_neigh sample_neigh))) = Some (StringVal ''eth1'')"
    by (simp add: fdb_spec_def sample_neigh_def if_name_def)
  with run_reach [OF run co_reach.start] \<open>co_neighs s = [(?b, sample_neigh)]\<close> show ?thesis by blast
qed

end
