(* ===== verification/Collector_Conn.thy ===== *)
theory Collector_Conn
  imports Collector_Props
begin

text \<open>
  The ingesters that serve connections, in the running collector. The locale states what the steps of
  the collector are for such an ingester: a message is handled when the calls for the one before are
  made, and no other goroutine touches its state. While the peer keeps to one connection, the ingester's
  state and calls are then those of its handler alone, run on the messages one after the other. Both the
  FPM and the BMP ingester are instances.
\<close>

declare apply_eff.simps(1) [simp del]

section \<open>A handler on its own\<close>

definition serve_all ::
    "('i \<Rightarrow> 's \<Rightarrow> ('s \<times> 'e list) option) \<Rightarrow> 'i list \<Rightarrow> 's \<Rightarrow> ('s \<times> 'e list) option" where
  "serve_all handler ins s0 =
     foldl (\<lambda>r i. do { (s, es) \<leftarrow> r; (s', es') \<leftarrow> handler i s; Some (s', es @ es') }) (Some (s0, [])) ins"

lemma serve_all_Nil [simp]: "serve_all handler [] s0 = Some (s0, [])"
  by (simp add: serve_all_def)

lemma serve_all_snoc [simp]:
  "serve_all handler (ins @ [i]) s0 =
    do { (s, es) \<leftarrow> serve_all handler ins s0; (s', es') \<leftarrow> handler i s; Some (s', es @ es') }"
  by (simp add: serve_all_def)


section \<open>Connections\<close>

locale conn_server =
  fixes rt :: "nat \<Rightarrow> routine"
    and ar :: area
    and msgs :: "collector \<Rightarrow> (nat \<times> 'i) list"
    and st :: "collector \<Rightarrow> 's"
    and handler :: "'i \<Rightarrow> 's \<Rightarrow> ('s \<times> eff list) option"
    and fresh :: "'s \<Rightarrow> bool"
  assumes own: "area_of r = ar \<longleftrightarrow> (\<exists>k. r = rt k)"
    and new: "fresh (st (co_start target ll ll' kn now))" "msgs (co_start target ll ll' kn now) = []"
      "co_todo (co_start target ll ll' kn now) (rt k) = []"
    and steps: "co_step s s' \<Longrightarrow>
      (\<exists>k i es. co_todo s (rt k) = [] \<and> handler i (st s) = Some (st s', es) \<and> msgs s' = msgs s @ [(k, i)] \<and>
        co_todo s' = (co_todo s)(rt k := es) \<and> co_log s' = co_log s) \<or>
      st s' = st s \<and> msgs s' = msgs s \<and>
      ((\<exists>r e es. co_todo s r = e # es \<and> co_todo s' = (co_todo s)(r := es) \<and> co_log s' = co_log s @ [(r, e)]) \<or>
       (\<forall>k. co_todo s' (rt k) = co_todo s (rt k)) \<and> co_log s' = co_log s)"
begin

definition on_conn :: "nat \<Rightarrow> collector \<Rightarrow> bool" where
  "on_conn c s \<longleftrightarrow>
     (fst ` set (msgs s) \<subseteq> {c} \<longrightarrow>
       (\<exists>s0. fresh s0 \<and> serve_all handler (map snd (msgs s)) s0 =
          Some (st s, calls_of ar (co_log s) @ co_todo s (rt c))) \<and>
       (\<forall>k. rt k \<noteq> rt c \<longrightarrow> co_todo s (rt k) = []))"

lemma on_conn_msg:
  assumes "on_conn c s" "co_todo s (rt k) = []" "handler i (st s) = Some (st s', es)"
    "msgs s' = msgs s @ [(k, i)]" "co_todo s' = (co_todo s)(rt k := es)" "co_log s' = co_log s"
  shows "on_conn c s'"
proof (cases "fst ` set (msgs s) \<subseteq> {c} \<and> k = c")
  case True
  with assms(1,2) obtain s0 where "fresh s0"
      "serve_all handler (map snd (msgs s)) s0 = Some (st s, calls_of ar (co_log s))"
    by (auto simp: on_conn_def)
  with True assms show ?thesis by (auto simp: on_conn_def)
qed (use assms(4) in \<open>auto simp: on_conn_def\<close>)

lemma on_conn_call:
  assumes "on_conn c s" "st s' = st s" "msgs s' = msgs s" "co_todo s r = e # es"
    "co_todo s' = (co_todo s)(r := es)" "co_log s' = co_log s @ [(r, e)]"
  shows "on_conn c s'"
proof (cases "fst ` set (msgs s) \<subseteq> {c}")
  case True
  with assms(1) obtain s0 where s0: "fresh s0"
      "serve_all handler (map snd (msgs s)) s0 = Some (st s, calls_of ar (co_log s) @ co_todo s (rt c))"
      "\<And>k. rt k \<noteq> rt c \<Longrightarrow> co_todo s (rt k) = []"
    by (auto simp: on_conn_def)
  have "area_of r = ar \<longleftrightarrow> r = rt c" using own [of r] s0(3) assms(4) by force
  with s0 assms show ?thesis by (cases "r = rt c") (auto simp: on_conn_def calls_of_snoc)
qed (use assms(3) in \<open>simp add: on_conn_def\<close>)

lemma on_conn_reach: "co_reach target s \<Longrightarrow> on_conn c s"
proof (induction rule: co_reach.induct)
  case (start ll ll' k now)
  show ?case using new by (auto simp: on_conn_def co_start_def calls_of_def)
next
  case (step s s')
  from steps [OF step(2)] show ?case
  proof (elim disjE exE conjE)
    fix k i es
    assume "co_todo s (rt k) = []" "handler i (st s) = Some (st s', es)" "msgs s' = msgs s @ [(k, i)]"
      "co_todo s' = (co_todo s)(rt k := es)" "co_log s' = co_log s"
    with step.IH show ?thesis by (rule on_conn_msg)
  next
    fix r e es
    assume "st s' = st s" "msgs s' = msgs s" "co_todo s r = e # es" "co_todo s' = (co_todo s)(r := es)"
      "co_log s' = co_log s @ [(r, e)]"
    with step.IH show ?thesis by (rule on_conn_call)
  qed (use step.IH in \<open>simp add: on_conn_def\<close>)
qed

text \<open>When the calls are made, they are those of the handler on the messages.\<close>

lemma conn_calls:
  assumes "co_reach target s" "co_todo s (rt c) = []" "msgs s = map (Pair c) ins"
  obtains s0 where "fresh s0" "serve_all handler ins s0 = Some (st s, calls_of ar (co_log s))"
proof -
  have "fst ` set (msgs s) \<subseteq> {c}" "map snd (msgs s) = ins" unfolding assms(3) by (auto simp: comp_def)
  with on_conn_reach [OF assms(1), of c] assms(2) that show thesis by (auto simp: on_conn_def)
qed

end


section \<open>The two ingesters\<close>

lemma area_of_conn [simp]:
  "area_of r = AFpm \<longleftrightarrow> (\<exists>k. r = RFpm k)" "area_of r = ABmp \<longleftrightarrow> (\<exists>k. r = RBmp k)"
  by (cases r; simp)+

interpretation fpm_conn: conn_server RFpm AFpm co_frames co_fpm "\<lambda>(ll, msg). handleNetlink ll msg" "\<lambda>f. \<exists>ll. f = NewFPM ll"
proof unfold_locales
  show "co_step s s' \<Longrightarrow>
      (\<exists>k i es. co_todo s (RFpm k) = [] \<and> (case i of (ll, msg) \<Rightarrow> handleNetlink ll msg) (co_fpm s) = Some (co_fpm s', es) \<and>
        co_frames s' = co_frames s @ [(k, i)] \<and> co_todo s' = (co_todo s)(RFpm k := es) \<and> co_log s' = co_log s) \<or>
      co_fpm s' = co_fpm s \<and> co_frames s' = co_frames s \<and>
      ((\<exists>r e es. co_todo s r = e # es \<and> co_todo s' = (co_todo s)(r := es) \<and> co_log s' = co_log s @ [(r, e)]) \<or>
       (\<forall>k. co_todo s' (RFpm k) = co_todo s (RFpm k)) \<and> co_log s' = co_log s)" for s s'
    by (induction rule: co_step.induct) auto
qed (auto simp: co_start_def)

interpretation bmp_conn: conn_server RBmp ABmp co_msgs co_bmp "\<lambda>(ll, ty, body). bmp_dispatch ll ty body" "\<lambda>b. \<exists>ll. b = NewBMP ll"
proof unfold_locales
  show "co_step s s' \<Longrightarrow>
      (\<exists>k i es. co_todo s (RBmp k) = [] \<and> (case i of (ll, ty, body) \<Rightarrow> bmp_dispatch ll ty body) (co_bmp s) = Some (co_bmp s', es) \<and>
        co_msgs s' = co_msgs s @ [(k, i)] \<and> co_todo s' = (co_todo s)(RBmp k := es) \<and> co_log s' = co_log s) \<or>
      co_bmp s' = co_bmp s \<and> co_msgs s' = co_msgs s \<and>
      ((\<exists>r e es. co_todo s r = e # es \<and> co_todo s' = (co_todo s)(r := es) \<and> co_log s' = co_log s @ [(r, e)]) \<or>
       (\<forall>k. co_todo s' (RBmp k) = co_todo s (RBmp k)) \<and> co_log s' = co_log s)" for s s'
    by (induction rule: co_step.induct) auto
qed (auto simp: co_start_def)

end
