(* ===== verification/Collector_Bgp.thy ===== *)
theory Collector_Bgp
  imports Collector_Conn Bmp_Store
begin

text \<open>
  The VPN routes of the running collector: the BMP messages of bgpd, as they are on the wire, and the
  table a client reads while all other goroutines run.
\<close>

declare apply_eff.simps(1) [simp del]

section \<open>Messages of bgpd\<close>

text \<open>A path attribute, by what the ingester reads of it, with its flags.\<close>

datatype path_attr =
    MpReach byte ip "vpn_nlri list"
  | MpUnreach byte "vpn_nlri list"
  | ExtComms byte "ext_comm list"
  | OtherAttr attr

fun enc_path_attr :: "path_attr \<Rightarrow> attr" where
  "enc_path_attr (MpReach f nh vs) = \<lparr>at_flags = f, at_type = 14, at_val = enc_mp_reach nh vs\<rparr>"
| "enc_path_attr (MpUnreach f vs) = \<lparr>at_flags = f, at_type = 15, at_val = enc_mp_unreach vs\<rparr>"
| "enc_path_attr (ExtComms f cs) = \<lparr>at_flags = f, at_type = 16, at_val = concat (map enc_comm cs)\<rparr>"
| "enc_path_attr (OtherAttr a) = a"

fun path_attr_wf :: "path_attr \<Rightarrow> bool" where
  "path_attr_wf (MpReach f nh vs) \<longleftrightarrow> length nh = 4 \<and> list_all nlri_wf vs"
| "path_attr_wf (MpUnreach f vs) \<longleftrightarrow> list_all nlri_wf vs"
| "path_attr_wf (ExtComms f cs) \<longleftrightarrow> list_all comm_wf cs"
| "path_attr_wf (OtherAttr a) \<longleftrightarrow> at_type a \<notin> {14, 15, 16}"

text \<open>What an UPDATE says: the routes it announces with their next hop, those it withdraws, and the route
  targets; of attributes that are repeated, the last.\<close>

type_synonym vpn_update = "(ip \<times> vpn_nlri list) \<times> vpn_nlri list \<times> string list"

fun attr_says :: "vpn_update \<Rightarrow> path_attr \<Rightarrow> vpn_update" where
  "attr_says (r, u, ts) (MpReach f nh vs) = ((nh, vs), u, ts)"
| "attr_says (r, u, ts) (MpUnreach f vs) = (r, vs, ts)"
| "attr_says (r, u, ts) (ExtComms f cs) = (r, u, concat (map comm_rts cs))"
| "attr_says (r, u, ts) (OtherAttr a) = (r, u, ts)"

definition announce :: "ip \<Rightarrow> ip \<Rightarrow> string list \<Rightarrow> vpn_nlri \<Rightarrow> vpn_op" where
  "announce peer nh ts v = Announce peer (show_rd (v_rd v)) (nlri_prefix v) (of_nat (last (v_labels v))) nh ts"

definition withdraw :: "ip \<Rightarrow> vpn_nlri \<Rightarrow> vpn_op" where
  "withdraw peer v = Withdraw peer (show_rd (v_rd v)) (nlri_prefix v)"

definition update_ops :: "ip \<Rightarrow> path_attr list \<Rightarrow> vpn_op list" where
  "update_ops peer as =
     (let ((nh, vs), ws, ts) = foldl attr_says (([], []), [], []) as
      in map (announce peer nh ts) vs @ map (withdraw peer) ws)"

text \<open>A BMP message: an UPDATE of a peer (per-peer header, marker and length field, IPv4 unicast
  withdrawals, path attributes, IPv4 unicast NLRI), or one of another type, the Peer Up and Peer Down messages among them.\<close>

datatype bgpd_msg =
    Update bytes bytes bytes "path_attr list" bytes
  | Message byte bytes

fun bgpd_wire :: "bgpd_msg \<Rightarrow> byte \<times> bytes" where
  "bgpd_wire (Update h mk wd as nlri) = (0, h @ bgp_update mk wd (concat (map (enc_attr \<circ> enc_path_attr) as)) nlri)"
| "bgpd_wire (Message ty body) = (ty, body)"

fun bgpd_wf :: "bgpd_msg \<Rightarrow> bool" where
  "bgpd_wf (Update h mk wd as nlri) \<longleftrightarrow>
     length h = 42 \<and> length mk = 18 \<and> length wd < 65536 \<and>
     length (concat (map (enc_attr \<circ> enc_path_attr) as)) < 65536 \<and>
     list_all path_attr_wf as \<and> list_all (attr_wf \<circ> enc_path_attr) as"
| "bgpd_wf (Message ty body) \<longleftrightarrow> ty \<noteq> 0"

text \<open>The address of the peer in a per-peer header.\<close>

definition header_peer :: "bytes \<Rightarrow> ip" where
  "header_peer h = (if h ! 1 AND 0x80 \<noteq> 0 then take 16 (drop 10 h) else take 4 (drop 22 h))"

fun msg_ops :: "bgpd_msg \<Rightarrow> vpn_op list" where
  "msg_ops (Update h mk wd as nlri) = update_ops (header_peer h) as"
| "msg_ops (Message ty body) = []"


section \<open>One message\<close>

lemma perPeer_peer: "perPeer h = Some (peer, asn, pt, rd, True) \<Longrightarrow> peer = header_peer h"
  by (auto simp: perPeer_def header_peer_def idx_def slice_of_def split: if_splits bind_splits)

text \<open>The attributes the walk collects are those of the update.\<close>

definition walked :: "mp_attrs \<Rightarrow> vpn_update \<Rightarrow> bool" where
  "walked acc u \<longleftrightarrow>
     (let ((nh, vs), ws, ts) = u
      in mp_reach acc = (if nh = [] then None else Some (enc_mp_reach nh vs)) \<and>
         (nh = [] \<longrightarrow> vs = []) \<and> (nh \<noteq> [] \<longrightarrow> length nh = 4) \<and>
         (mp_unreach acc = None \<and> ws = [] \<or> mp_unreach acc = Some (enc_mp_unreach ws)) \<and>
         mp_rts acc = ts \<and> list_all nlri_wf vs \<and> list_all nlri_wf ws)"

lemma walked_step: "walked acc u \<Longrightarrow> path_attr_wf a \<Longrightarrow> walked (attr_step acc (enc_path_attr a)) (attr_says u a)"
  by (cases a) (auto simp: walked_def attr_step_def ret_eq parseRTs_enc split: prod.splits)

lemma walked_foldl:
  "walked acc u \<Longrightarrow> list_all path_attr_wf as \<Longrightarrow>
    walked (foldl attr_step acc (map enc_path_attr as)) (foldl attr_says u as)"
  by (induction as arbitrary: acc u) (simp_all add: walked_step)

lemma nlri_effs_ops:
  "nlri_effs peer nh ts False = op_effs \<circ> announce peer nh ts"
  "nlri_effs peer [] [] True = op_effs \<circ> withdraw peer"
  by (auto simp: fun_eq_iff nlri_effs_def announce_def withdraw_def writeVPNRoute_def)

lemma mp_effects_walked:
  assumes "walked acc ((nh, vs), ws, ts)"
  shows "mp_effects peer acc = Some (concat (map op_effs (map (announce peer nh ts) vs @ map (withdraw peer) ws)))"
  using assms
  by (auto simp: walked_def mp_effects_def handleMP_reach handleMP_unreach nlri_effs_ops)

lemma dispatch_update:
  assumes "bgpd_wf (Update h mk wd as nlri)" "bgpd_wire (Update h mk wd as nlri) = (ty, body)"
  shows "bmp_dispatch ll ty body b = Some (b, concat (map op_effs (msg_ops (Update h mk wd as nlri))))"
proof -
  from assms(1) have wf: "length h = 42" "length mk = 18" "length wd < 65536"
      "length (concat (map enc_attr (map enc_path_attr as))) < 65536" "list_all attr_wf (map enc_path_attr as)"
      "list_all path_attr_wf as"
    by (simp_all add: list.pred_map)
  obtain peer asn pt rd where peer: "perPeer h = Some (peer, asn, pt, rd, True)"
    using perPeer_42 [OF wf(1)] by blast
  obtain nh vs ws ts where u: "foldl attr_says (([], []), [], []) as = ((nh, vs), ws, ts)" by (metis prod.exhaust)
  have "walked no_mp (([], []), [], [])" by (simp add: walked_def)
  from walked_foldl [OF this wf(6)] have "walked (foldl attr_step no_mp (map enc_path_attr as)) ((nh, vs), ws, ts)"
    by (simp add: u)
  note mp_effects_walked [OF this, of peer]
  with routeMon_enc [OF wf(1) peer wf(2-5), of nlri] perPeer_peer [OF peer] assms(2) show ?thesis
    by (auto simp: bmp_dispatch_def update_ops_def u)
qed

lemma vpn_table_other:
  assumes "og \<noteq> ''frr''"
  shows "vpn_table (apply_eff st (CacheUpdate og ups dels)) = vpn_table st"
  using assms by (auto simp: vpn_table_def apply_eff.simps(1) st.look_upds st.look_dels fun_eq_iff)

lemma peerState_vpn: "peerState ll body up b = Some (b', es) \<Longrightarrow> vpn_table (apply_effs st es) = vpn_table st"
  by (auto simp: peerState_def Let_def vpn_table_other split: if_splits bind_splits)

lemma dispatch_vpn:
  assumes "bgpd_wf m" "bgpd_wire m = (ty, body)" "bmp_dispatch ll ty body b = Some (b', es)"
  shows "vpn_table (apply_effs st es) = foldl op_spec (vpn_table st) (msg_ops m)"
proof (cases m)
  case (Update h mk wd as nlri)
  with dispatch_update assms have "es = concat (map op_effs (msg_ops m))" by fastforce
  then show ?thesis by (simp add: vpn_table_refines)
next
  case (Message ty' body')
  with assms show ?thesis by (auto simp: bmp_dispatch_def peerState_vpn split: if_splits)
qed


section \<open>The table of the running collector\<close>

lemma serve_vpn:
  assumes "list_all (bgpd_wf \<circ> snd) ins"
    and "serve_all (\<lambda>(ll, ty, body). bmp_dispatch ll ty body) (map (\<lambda>(ll, m). (ll, bgpd_wire m)) ins) b0 = Some (b, es)"
  shows "vpn_table (apply_effs st es) = foldl op_spec (vpn_table st) (concat (map (msg_ops \<circ> snd) ins))"
  using assms
proof (induction ins arbitrary: b es rule: rev_induct)
  case (snoc x ins)
  obtain ll m where x: "x = (ll, m)" by force
  obtain ty body where wire: "bgpd_wire m = (ty, body)" by force
  from snoc.prems(2) obtain b1 es1 es2 where
    1: "serve_all (\<lambda>(ll, ty, body). bmp_dispatch ll ty body) (map (\<lambda>(ll, m). (ll, bgpd_wire m)) ins) b0 = Some (b1, es1)"
    and 2: "bmp_dispatch ll ty body b1 = Some (b, es2)" "es = es1 @ es2"
    by (auto simp: x wire bind_eq_Some_conv)
  have wf: "list_all (bgpd_wf \<circ> snd) ins" "bgpd_wf m" using snoc.prems(1) x by (simp_all add: comp_def)
  show ?case using snoc.IH [OF wf(1) 1] dispatch_vpn [OF wf(2) wire 2(1)] by (simp add: 2(2) x)
qed simp

lemma vpn_empty: "vpn_table (\<lambda>_. None) = (\<lambda>_. [None, None, None, None])"
  by (simp add: vpn_table_def store_look_def fun_eq_iff)

text \<open>
  C14: the running collector shows the VPN routes bgpd reports. Whatever the other goroutines do in
  between, when the messages bgpd has sent on its connection are well-formed UPDATEs (with any attributes
  in any order, repeated ones among them) and messages of other types, and the calls for them are made,
  the VPN routes in the cache are those that the announcements and withdrawals of the UPDATEs, in their
  order, make of an empty table, for every route distinguisher and prefix.
\<close>

theorem collector_shows_vpn:
  assumes "co_reach target s" and "co_todo s (RBmp c) = []"
    and "co_msgs s = map (\<lambda>(ll, m). (c, ll, bgpd_wire m)) ins" and "list_all (bgpd_wf \<circ> snd) ins"
  shows "vpn_table (co_store s) =
    foldl op_spec (\<lambda>_. [None, None, None, None]) (concat (map (msg_ops \<circ> snd) ins))"
proof -
  have "co_msgs s = map (Pair c) (map (\<lambda>(ll, m). (ll, bgpd_wire m)) ins)"
    unfolding assms(3) by (simp add: split_def)
  from bmp_conn.conn_calls [OF assms(1,2) this] obtain b0 where
    calls: "serve_all (\<lambda>(ll, ty, body). bmp_dispatch ll ty body) (map (\<lambda>(ll, m). (ll, bgpd_wire m)) ins) b0 =
      Some (co_bmp s, calls_of ABmp (co_log s))"
    by metis
  have "vpn_table (co_store s) = vpn_table (apply_effs (\<lambda>_. None) (calls_of ABmp (co_log s)))"
    by (simp add: vpn_table_def look_calls [OF calls_ok_reach [OF assms(1)]])
  then show ?thesis by (simp add: serve_vpn [OF assms(4) calls] vpn_empty)
qed

text \<open>The UPDATE of \<open>Bmp_Props\<close>, its route target after the route.\<close>

definition sample_update :: bgpd_msg where
  "sample_update = Update (replicate 42 0) (replicate 18 255) []
     [MpReach 0x90 [10, 0, 0, 1] [sample_nlri], ExtComms 192 [Rt (RdAs2 65000 1)]] []"

lemma sample_update_wf: "bgpd_wf sample_update"
  by (simp add: sample_update_def sample_nlri_def attr_wf_def attr_ext_def enc_attr_def enc_mp_reach_def
      enc_nlri_def octets_def nlri_wf_def nlri_bits_def)

theorem collector_shows_vpn_witness:
  "\<exists>s. co_reach ''r1'' s \<and> co_msgs s \<noteq> [] \<and>
    vpn_table (co_store s) (''65000:100'', ''10.1.0.0/16'') =
      map (\<lambda>s. Some (StringVal s)) [''80'', ''10.0.0.1'', ''65000:1'', ''0.0.0.0'']"
proof -
  let ?s0 = "co_start ''r1'' None None run_kernel 0"
  obtain ty body where wire: "bgpd_wire sample_update = (ty, body)" by force
  obtain b es where "bmp_dispatch None ty body (co_bmp ?s0) = Some (b, es)"
    using dispatch_update [OF sample_update_wf [unfolded sample_update_def] wire [unfolded sample_update_def]] by blast
  moreover have "co_todo ?s0 (RBmp 0) = []" by (simp add: co_start_def)
  ultimately have "co_reach ''r1'' (todo (RBmp 0) es (?s0\<lparr>co_bmp := b,
      co_msgs := co_msgs ?s0 @ [(0, None, ty, body)]\<rparr>))"
    by (intro co_reach.step [OF co_reach.start co_step.bmp])
  from drain_reach [OF this, of "RBmp 0"] obtain s where s: "co_reach ''r1'' s" "co_todo s (RBmp 0) = []"
      "co_msgs s = map (\<lambda>(ll, m). (0, ll, bgpd_wire m)) [(None, sample_update)]"
    by (force simp: co_start_def wire)
  from collector_shows_vpn [OF s] sample_update_wf have
    "vpn_table (co_store s) = foldl op_spec (\<lambda>_. [None, None, None, None]) (msg_ops sample_update)" by simp
  moreover have "header_peer (replicate 42 0) = [0, 0, 0, 0]"
    by (simp add: header_peer_def numeral_eq_Suc)
  moreover have "replicate 2 x = [x, x]" for x :: string
    by (simp add: numeral_2_eq_2)
  ultimately have "vpn_table (co_store s) (''65000:100'', ''10.1.0.0/16'') =
      map (\<lambda>s. Some (StringVal s)) [''80'', ''10.0.0.1'', ''65000:1'', ''0.0.0.0'']"
    by (simp add: sample_update_def update_ops_def announce_def sample_nlri_def nlri_prefix_def octets_def
        ip_string_4 dotted_def dec_eval)
  with s(1,3) show ?thesis by auto
qed

end
