(* ===== verification/Collector_Sessions.thy ===== *)
theory Collector_Sessions
  imports Collector_Conn Bmp_Session
begin

text \<open>
  The neighbours' session states in the running collector: after any messages of bgpd on a connection,
  the session of a peer is what its last Peer Up or Peer Down message says, under the VRF its
  distinguisher was bound to.
\<close>

declare apply_eff.simps(1) [simp del]

section \<open>Messages one after the other\<close>

lemma serve_all_append:
  "serve_all h (xs @ ys) s0 = do { (s, es) \<leftarrow> serve_all h xs s0; (s', es') \<leftarrow> serve_all h ys s; Some (s', es @ es') }"
proof (induction ys rule: rev_induct)
  case (snoc y ys)
  show ?case
    unfolding append_assoc [symmetric] serve_all_snoc snoc.IH
    by (auto split: Option.bind_splits)
qed (auto split: Option.bind_splits)

type_synonym bmp_input = "link_list \<times> byte \<times> bytes"

definition bmp_seq :: "bmp_input list \<Rightarrow> bmp \<Rightarrow> (bmp \<times> eff list) option" where
  "bmp_seq = serve_all (\<lambda>(ll, ty, body). bmp_dispatch ll ty body)"

lemma bmp_seq_simps [simp]:
  "bmp_seq [] b = Some (b, [])"
  "bmp_seq (xs @ [(ll, ty, body)]) b =
    do { (b', es) \<leftarrow> bmp_seq xs b; (b'', es') \<leftarrow> bmp_dispatch ll ty body b'; Some (b'', es @ es') }"
  by (simp_all add: bmp_seq_def)

lemma bmp_seq_one [simp]: "bmp_seq [(ll, ty, body)] b = bmp_dispatch ll ty body b"
  using bmp_seq_simps(2) [of "[]" ll ty body b] by (cases "bmp_dispatch ll ty body b") auto

lemma bmp_seq_append:
  "bmp_seq (xs @ ys) b = do { (b', es) \<leftarrow> bmp_seq xs b; (b'', es') \<leftarrow> bmp_seq ys b'; Some (b'', es @ es') }"
  by (simp add: bmp_seq_def serve_all_append)

lemma bmp_seq_split:
  assumes "bmp_seq (xs @ (ll, ty, body) # ys) b0 = Some (b, es)"
  obtains b1 b2 es1 es2 es3 where "bmp_seq xs b0 = Some (b1, es1)" "bmp_dispatch ll ty body b1 = Some (b2, es2)"
    "bmp_seq ys b2 = Some (b, es3)" "es = es1 @ es2 @ es3"
proof -
  have "bmp_seq ((xs @ [(ll, ty, body)]) @ ys) b0 = Some (b, es)" using assms by simp
  with that show thesis unfolding bmp_seq_append by (auto simp: bind_eq_Some_conv)
qed

lemma bmp_seq_keeps: "b_rdVRF b rd = Some v \<Longrightarrow> bmp_seq xs b = Some (b', es) \<Longrightarrow> b_rdVRF b' rd = Some v"
proof (induction xs arbitrary: b' es rule: rev_induct)
  case (snoc x xs)
  obtain ll ty body where x: "x = (ll, ty, body)" by (cases x)
  from snoc.prems(2) obtain b1 es1 es2 where "bmp_seq xs b = Some (b1, es1)" "bmp_dispatch ll ty body b1 = Some (b', es2)"
    by (auto simp: x bind_eq_Some_conv)
  with snoc.IH snoc.prems(1) bmp_dispatch_keeps show ?case by blast
qed simp


section \<open>Which messages move a session\<close>

text \<open>A Peer Up or Peer Down message (\<open>up\<close>) of the peer with this address text, under this distinguisher.\<close>

definition peer_msg :: "bool \<Rightarrow> string \<Rightarrow> string \<Rightarrow> byte \<times> bytes \<Rightarrow> bool" where
  "peer_msg up addr rd m \<longleftrightarrow>
     (let (ty, body) = m
      in ty = (if up then bmpPeerUp else bmpPeerDown) \<and>
         (case perPeer body of None \<Rightarrow> False
          | Some (peer, asn, pt, rd', ok) \<Rightarrow> ok \<and> \<not> is_unspecified peer \<and> ip_string peer = addr \<and> rd' = rd))"

definition session_at :: "store \<Rightarrow> string \<Rightarrow> string \<Rightarrow> tval option" where
  "session_at st vrf addr = store_look st ''openconfig'' (neighborElems vrf addr ''session-state'')"

lemma session_at_frr [simp]: "session_at (apply_effs st (writeVPNRoute peer rd pfx label nh rts wd)) vrf addr = session_at st vrf addr"
  by (simp add: session_at_def writeVPNRoute_def Let_def look_apply_upd look_apply_del)

text \<open>A call that leaves the session.\<close>

definition calm :: "string \<Rightarrow> string \<Rightarrow> eff \<Rightarrow> bool" where
  "calm vrf addr e \<longleftrightarrow> (\<forall>st. session_at (apply_eff st e) vrf addr = session_at st vrf addr)"

lemma calm_effs: "\<forall>e \<in> set es. calm vrf addr e \<Longrightarrow> session_at (apply_effs st es) vrf addr = session_at st vrf addr"
  by (induction es arbitrary: st) (simp_all add: calm_def)

lemma calm_routes: "routeMon body = Some es \<Longrightarrow> \<forall>e \<in> set es. calm vrf addr e"
proof -
  have "\<forall>e \<in> set (writeVPNRoute peer rd pfx label nh rts wd). calm vrf addr e" for peer rd pfx label nh rts wd
    by (simp add: writeVPNRoute_def calm_def session_at_def Let_def look_apply_upd look_apply_del)
  from everyD [OF routeMon_every [OF this]] show "routeMon body = Some es \<Longrightarrow> \<forall>e \<in> set es. calm vrf addr e" .
qed

text \<open>What a peer message writes, and where.\<close>

lemma peerState_writes:
  assumes "perPeer body = Some (peer, asn, pt, rd, True)" "\<not> is_unspecified peer" "peerState ll body up b = Some (b', es)"
  shows "\<exists>vrf. (if rd \<noteq> [] then learnVRF ll body up rd b = Some (vrf, b') else vrf = ''default'' \<and> b' = b) \<and>
    (\<forall>st vrf' addr. session_at (apply_effs st es) vrf' addr =
      (if vrf' = vrf \<and> addr = ip_string peer then session_val up else session_at st vrf' addr))"
  using assms
  by (auto simp: peerState_def Let_def session_at_def session_val_def leafUpdate_def strVal_def
      look_apply_upd bind_eq_Some_conv split: if_splits)

lemma dispatch_other:
  assumes "bmp_dispatch ll ty body b = Some (b', es)" "\<And>up rd. \<not> peer_msg up addr rd (ty, body)"
  shows "session_at (apply_effs st es) vrf addr = session_at st vrf addr"
proof -
  have peer: ?thesis if "peerState ll body up b = Some (b', es)" "ty = (if up then bmpPeerUp else bmpPeerDown)" for up
  proof (cases "perPeer body")
    case (Some r)
    obtain peer asn pt rd ok where r: "r = (peer, asn, pt, rd, ok)" by (metis prod.exhaust)
    show ?thesis
    proof (cases "ok \<and> \<not> is_unspecified peer")
      case True
      then have "ip_string peer \<noteq> addr" using assms(2) [of up rd] that(2) Some r by (simp add: peer_msg_def)
      with True peerState_writes [OF _ _ that(1)] Some r show ?thesis by auto
    next
      case False
      with that(1) Some r show ?thesis by (auto simp: peerState_def)
    qed
  qed (use that(1) in \<open>simp add: peerState_def\<close>)
  show ?thesis
    using assms(1) peer [of True] peer [of False] calm_effs [OF calm_routes]
    by (auto simp: bmp_dispatch_def split: if_splits)
qed

lemma bmp_seq_other:
  assumes "bmp_seq ys b = Some (b', es)" "\<forall>(ll, m) \<in> set ys. \<forall>up rd. \<not> peer_msg up addr rd m"
  shows "session_at (apply_effs st es) vrf addr = session_at st vrf addr"
  using assms
proof (induction ys arbitrary: b' es rule: rev_induct)
  case (snoc y ys)
  obtain ll ty body where y: "y = (ll, ty, body)" by (cases y)
  from snoc.prems(1) obtain b1 es1 es2 where
    1: "bmp_seq ys b = Some (b1, es1)" and 2: "bmp_dispatch ll ty body b1 = Some (b', es2)" "es = es1 @ es2"
    by (auto simp: y bind_eq_Some_conv)
  with snoc dispatch_other [OF 2(1)] show ?case by (simp add: y)
qed simp


section \<open>The session of a bound distinguisher\<close>

text \<open>A Peer Up message that names the VRF of its distinguisher.\<close>

definition names_vrf :: "string \<Rightarrow> byte \<times> bytes \<Rightarrow> bool" where
  "names_vrf rd m \<longleftrightarrow> (\<exists>addr. peer_msg True addr rd m) \<and> peerUpVRF (snd m) \<notin> {None, Some []}"

lemma peer_msgE:
  assumes "peer_msg up addr rd (ty, body)"
  obtains peer asn pt where "ty = (if up then bmpPeerUp else bmpPeerDown)" "perPeer body = Some (peer, asn, pt, rd, True)"
    "\<not> is_unspecified peer" "ip_string peer = addr"
  using assms by (auto simp: peer_msg_def split: option.splits)

lemma learnVRF_binds:
  assumes "learnVRF ll body True rd b = Some (vrf, b')" "peerUpVRF body \<notin> {None, Some []}"
  shows "b_rdVRF b' rd = Some vrf"
  using assms by (auto simp: learnVRF_def Let_def split: option.splits if_splits)

lemma dispatch_binds:
  assumes "names_vrf rd (ty, body)" "rd \<noteq> []" "bmp_dispatch ll ty body b = Some (b', es)"
  shows "\<exists>v. b_rdVRF b' rd = Some v"
proof -
  from assms(1) obtain addr where msg: "peer_msg True addr rd (ty, body)" and name: "peerUpVRF body \<notin> {None, Some []}"
    by (auto simp: names_vrf_def)
  from msg obtain peer asn pt where m: "ty = 3" "perPeer body = Some (peer, asn, pt, rd, True)" "\<not> is_unspecified peer"
    by (rule peer_msgE) simp
  then have "peerState ll body True b = Some (b', es)" using assms(3) by (simp add: bmp_dispatch_def)
  from peerState_writes [OF m(2,3) this] assms(2) obtain vrf where "learnVRF ll body True rd b = Some (vrf, b')" by auto
  with learnVRF_binds [OF _ name] show ?thesis by blast
qed

lemma dispatch_session:
  assumes "peer_msg up addr rd (ty, body)" "rd \<noteq> []" "bmp_dispatch ll ty body b = Some (b', es)"
    and "b_rdVRF b rd = Some v \<or> b_rdVRF b' rd = Some v \<and> up \<and> peerUpVRF body \<notin> {None, Some []}"
  shows "b_rdVRF b' rd = Some v \<and> session_at (apply_effs st es) v addr = session_val up"
proof -
  from assms(1) obtain peer asn pt where m: "ty = (if up then 3 else 2)" "perPeer body = Some (peer, asn, pt, rd, True)"
      "\<not> is_unspecified peer" "ip_string peer = addr"
    by (rule peer_msgE)
  then have "peerState ll body up b = Some (b', es)"
    using assms(3) by (cases up) (simp_all add: bmp_dispatch_def)
  from peerState_writes [OF m(2,3) this] assms(2) obtain vrf where
    vrf: "learnVRF ll body up rd b = Some (vrf, b')"
      "\<And>st vrf' addr. session_at (apply_effs st es) vrf' addr =
        (if vrf' = vrf \<and> addr = ip_string peer then session_val up else session_at st vrf' addr)"
    by auto
  have "b_rdVRF b' rd = Some v \<and> vrf = v"
    using assms(4)
  proof
    assume "b_rdVRF b rd = Some v"
    with vrf(1) show ?thesis by (simp add: learnVRF_def)
  next
    assume "b_rdVRF b' rd = Some v \<and> up \<and> peerUpVRF body \<notin> {None, Some []}"
    with vrf(1) learnVRF_binds show ?thesis by fastforce
  qed
  with vrf(2) m(4) show ?thesis by simp
qed

lemma bmp_seq_binds:
  assumes "bmp_seq xs b = Some (b', es)" "\<exists>(ll, m) \<in> set xs. names_vrf rd m" "rd \<noteq> []"
  shows "\<exists>v. b_rdVRF b' rd = Some v"
proof -
  from assms(2) obtain ll ty body us ws where xs: "xs = us @ (ll, ty, body) # ws" "names_vrf rd (ty, body)"
    by (auto dest: split_list)
  from assms(1) [unfolded xs(1)] obtain b1 b2 es2 es3 where
    "bmp_dispatch ll ty body b1 = Some (b2, es2)" "bmp_seq ws b2 = Some (b', es3)"
    by (rule bmp_seq_split)
  with dispatch_binds [OF xs(2) assms(3)] bmp_seq_keeps show ?thesis by blast
qed

text \<open>What the messages of a connection make of the session of a peer.\<close>

lemma bmp_seq_session:
  assumes "bmp_seq (xs @ (ll, ty, body) # ys) b0 = Some (b, es)" "rd \<noteq> []" "peer_msg up addr rd (ty, body)"
    and "\<forall>(ll, m) \<in> set ys. \<forall>up rd. \<not> peer_msg up addr rd m"
    and "\<exists>(ll, m) \<in> set (xs @ [(ll, ty, body)]). names_vrf rd m"
  shows "\<exists>v. b_rdVRF b rd = Some v \<and> session_at (apply_effs st es) v addr = session_val up"
proof -
  from assms(1) obtain b1 b2 es1 es2 es3 where
    1: "bmp_seq xs b0 = Some (b1, es1)" and 2: "bmp_dispatch ll ty body b1 = Some (b2, es2)"
    and 3: "bmp_seq ys b2 = Some (b, es3)" "es = es1 @ es2 @ es3"
    by (rule bmp_seq_split)
  have "\<exists>v. b_rdVRF b1 rd = Some v \<or> b_rdVRF b2 rd = Some v \<and> up \<and> peerUpVRF body \<notin> {None, Some []}"
  proof (cases "names_vrf rd (ty, body)")
    case True
    then have "up" "peerUpVRF body \<notin> {None, Some []}"
      using assms(3) by (auto simp: names_vrf_def peer_msg_def split: if_splits)
    with dispatch_binds [OF True assms(2) 2] show ?thesis by auto
  next
    case False
    with assms(5) bmp_seq_binds [OF 1 _ assms(2)] show ?thesis by auto
  qed
  then obtain v where v: "b_rdVRF b2 rd = Some v" "\<And>st. session_at (apply_effs st es2) v addr = session_val up"
    using dispatch_session [OF assms(3,2) 2] by blast
  with bmp_seq_keeps [OF v(1) 3(1)] bmp_seq_other [OF 3(1) assms(4)] show ?thesis by (auto simp: 3(2))
qed


text \<open>A Peer Up message that names the VRF, with two empty OPEN messages, and the peer going down.\<close>

definition sample_open :: bytes where
  "sample_open = replicate 16 255 @ [0, 19, 1]"

definition sample_up :: bytes where
  "sample_up = sample_body @ replicate 20 0 @ sample_open @ sample_open @ [0, 3, 0, 4, 99, 117, 115, 116]"

lemma sample_up_perPeer: "perPeer sample_up = Some ([10, 0, 0, 2], of_nat 65001, 1, ''65000:1'', True)"
  unfolding sample_up_def perPeer_prefix [OF length_sample_body] by (rule sample_body_perPeer)

lemma sample_up_name: "peerUpVRF sample_up = Some ''cust''"
proof -
  have skip: "skipOpens (Suc n) (sample_open @ q) = skipOpens n q" for n q
  proof -
    have "slice_of (sample_open @ q) 16 18 = Some [0, 19]" "be16 [0, 19] = Some 19"
      by (simp_all add: slice_of_def sample_open_def be16_def)
    moreover have "slice_from (sample_open @ q) 19 = Some q" by (simp add: slice_from_def sample_open_def)
    ultimately show ?thesis by (simp add: sample_open_def)
  qed
  have "be16 [0, 3] = Some 3" "be16 [0, 4] = Some 4" by (simp_all add: be16_def)
  then have "infoTLVs [0, 3, 0, 4, 99, 117, 115, 116] = Some ''cust''"
    by (subst infoTLVs.simps) (simp add: slice_of_def bytes_string_def char_of_def bit_numeral_rec bit_0)
  moreover have "peerUpVRF sample_up =
      (do { r \<leftarrow> skipOpens 2 (sample_open @ sample_open @ [0, 3, 0, 4, 99, 117, 115, 116]);
            case r of None \<Rightarrow> Some '''' | Some q \<Rightarrow> infoTLVs q })"
    by (simp add: peerUpVRF_def sample_up_def length_sample_body slice_from_def del: skipOpens.simps)
  moreover have "skipOpens 2 (sample_open @ sample_open @ q) = Some (Some q)" for q
    unfolding numeral_2_eq_2 skip by simp
  ultimately show ?thesis by simp
qed


end
