(* ===== verification/Startup.thy ===== *)
theory Startup
  imports Collector_Props
begin

text \<open>
  How the collector comes up: the \<^verbatim>\<open>Run\<close> methods of the ingesters, which of their goroutines run when
  a part of the set-up fails, which failures end the process (\<^verbatim>\<open>log.Fatalf\<close> in \<^verbatim>\<open>main\<close>) and which are
  only logged, and what the cache then lacks.
\<close>

declare apply_eff.simps(1) [simp del]

section \<open>The Run methods\<close>

text \<open>The accept loop on the answers of \<^verbatim>\<open>Accept\<close> so far, connection or error: the connections that are
  served, and whether \<^verbatim>\<open>Run\<close> has returned an error.\<close>

fun accept_loop :: "bool list \<Rightarrow> nat \<times> bool" where
  "accept_loop [] = (0, False)"
| "accept_loop (conn # answers) =
     (if \<not> conn then (0, True) else (let (n, err) = accept_loop answers in (Suc n, err)))"

definition bmp_Run :: "bool \<Rightarrow> bool list \<Rightarrow> nat \<times> bool" where
  "bmp_Run listens answers = (if \<not> listens then (0, True) else accept_loop answers)"

definition fpm_Run :: "bool \<Rightarrow> bool list \<Rightarrow> nat \<times> bool" where
  "fpm_Run listens answers = (if \<not> listens then (0, True) else accept_loop answers)"

text \<open>The kernel's link and neighbour subscriptions: \<^const>\<open>None\<close> is an error returned before anything is
  started. A failure of the second is ignored.\<close>

definition netlink_Run :: "bool \<Rightarrow> bool \<Rightarrow> routine list option" where
  "netlink_Run links neighs =
     (if \<not> links then None
      else Some ([RLinks] @ (if neighs then [RNeighs] else []) @ [RCounters]))"

text \<open>\<^verbatim>\<open>lldpcli watch\<close>: the pipe and the start of the command. The first reconciliation comes before
  both, by the goroutine that then follows the output (\<open>RLldp True\<close>).\<close>

definition lldp_Run :: "bool \<Rightarrow> bool \<Rightarrow> routine list \<times> bool" where
  "lldp_Run pipe started =
     (if \<not> pipe then ([RLldp True], True)
      else if \<not> started then ([RLldp True], True)
      else ([RLldp True, RLldp False], False))"

text \<open>The goroutines behind the OSPF rows after the first reconciliation: the receiver of syslog, which
  ends when the socket cannot be bound, the worker, and the ticker of the fallback if there is one.\<close>

datatype ospf_task = Syslog | Worker | Fallback

definition ospf_Run :: "bool \<Rightarrow> int \<Rightarrow> ospf_task list" where
  "ospf_Run bound fallback =
     (if bound then [Syslog] else []) @ [Worker] @ (if 0 < fallback then [Fallback] else [])"

definition cgroup_routines :: "bool \<Rightarrow> routine list" where
  "cgroup_routines cpu_stat = (if \<not> cpu_stat then [] else [RCgroup])"


section \<open>The process\<close>

record startup =
  su_server :: bool
  su_serves :: bool
  su_listens :: "string \<Rightarrow> bool"
  su_bmp :: "bool list"
  su_fpm :: "bool list"
  su_links :: bool
  su_neighs :: bool
  su_pipe :: bool
  su_watch :: bool
  su_cpu_stat :: bool

text \<open>The goroutines of \<^verbatim>\<open>main\<close> that make calls; \<^const>\<open>None\<close> when the process has ended. The field
  \<open>su_serves\<close> says that \<^verbatim>\<open>grpc.Server.Serve\<close> has not returned an error.\<close>

definition main_Run :: "co_flags \<Rightarrow> startup \<Rightarrow> routine set option" where
  "main_Run fl e =
     (let (bmps, bmp_err) = bmp_Run (su_listens e (cf_bmp fl)) (su_bmp e);
          (fpms, fpm_err) = fpm_Run (su_listens e (cf_fpm fl)) (su_fpm e)
      in if \<not> su_server e \<or> \<not> su_listens e (cf_gnmi fl) \<or> \<not> su_serves e \<or> bmp_err \<or> fpm_err then None
         else Some (RBmp ` {..<bmps} \<union> RFpm ` {..<fpms} \<union>
           (case netlink_Run (su_links e) (su_neighs e) of None \<Rightarrow> {} | Some rs \<Rightarrow> set rs) \<union>
           set (fst (lldp_Run (su_pipe e) (su_watch e))) \<union> {ROspf} \<union> set (cgroup_routines (su_cpu_stat e))))"

text \<open>The collector with these goroutines: without the kernel ingester the first snapshot is not taken,
  and a goroutine that does not run makes no calls.\<close>

definition main_start ::
    "co_flags \<Rightarrow> startup \<Rightarrow> link_list \<Rightarrow> link_list \<Rightarrow> kernel \<Rightarrow> int \<Rightarrow> (routine set \<times> collector) option" where
  "main_start fl e ll ll' k now =
     do { R \<leftarrow> main_Run fl e;
          s \<leftarrow> co_main fl (su_server e) (su_listens e) ll ll' (if RCounters \<in> R then k else k\<lparr>k_links := None\<rparr>) now;
          Some (R, s) }"

definition live_step :: "routine set \<Rightarrow> collector \<Rightarrow> collector \<Rightarrow> bool" where
  "live_step R s s' \<longleftrightarrow> co_step s s' \<and> (\<forall>r. r \<notin> R \<longrightarrow> co_todo s' r = [])"


section \<open>Which failures end the process\<close>

lemma accept_err: "snd (accept_loop answers) \<longleftrightarrow> False \<in> set answers"
  by (induction answers) (auto split: prod.splits)

lemma accept_count: "False \<notin> set answers \<Longrightarrow> fst (accept_loop answers) = length answers"
  by (induction answers) (auto split: prod.splits)

text \<open>
  The process ends when the gNMI server, or one of its, bgpd's and zebra's listeners, cannot be set up,
  and at the first error of \<^verbatim>\<open>Accept\<close> on one of the latter two (or of \<^verbatim>\<open>Serve\<close>), however many connections
  were served before and however transient the error; no other failure of the set-up ends it.
\<close>

theorem main_exits_iff:
  "main_Run fl e = None \<longleftrightarrow>
    \<not> su_server e \<or> \<not> su_serves e \<or> \<not> su_listens e (cf_gnmi fl) \<or> \<not> su_listens e (cf_bmp fl) \<or> \<not> su_listens e (cf_fpm fl) \<or>
    False \<in> set (su_bmp e) \<or> False \<in> set (su_fpm e)"
proof -
  have "snd (bmp_Run (su_listens e (cf_bmp fl)) (su_bmp e)) \<longleftrightarrow> \<not> su_listens e (cf_bmp fl) \<or> False \<in> set (su_bmp e)"
    "snd (fpm_Run (su_listens e (cf_fpm fl)) (su_fpm e)) \<longleftrightarrow> \<not> su_listens e (cf_fpm fl) \<or> False \<in> set (su_fpm e)"
    by (simp_all add: bmp_Run_def fpm_Run_def accept_err)
  then show ?thesis by (auto simp: main_Run_def Let_def split: prod.splits)
qed


section \<open>What the cache lacks\<close>

text \<open>The ingesters that make no calls with a set-up.\<close>

fun absent :: "startup \<Rightarrow> area \<Rightarrow> bool" where
  "absent e ABmp \<longleftrightarrow> su_bmp e = []"
| "absent e AFpm \<longleftrightarrow> su_fpm e = []"
| "absent e AKernel \<longleftrightarrow> \<not> su_links e"
| "absent e AHost \<longleftrightarrow> \<not> su_cpu_stat e"
| "absent e AOspf \<longleftrightarrow> False"
| "absent e ALldp \<longleftrightarrow> False"

lemma main_Run_areas: "main_Run fl e = Some R \<Longrightarrow> area_of ` R = {a. \<not> absent e a}"
proof -
  assume run: "main_Run fl e = Some R"
  then have acc: "False \<notin> set (su_bmp e)" "False \<notin> set (su_fpm e)" "su_listens e (cf_bmp fl)" "su_listens e (cf_fpm fl)"
    using main_exits_iff [of fl e] by auto
  have "R = RBmp ` {..<length (su_bmp e)} \<union> RFpm ` {..<length (su_fpm e)} \<union>
      (case netlink_Run (su_links e) (su_neighs e) of None \<Rightarrow> {} | Some rs \<Rightarrow> set rs) \<union>
      set (fst (lldp_Run (su_pipe e) (su_watch e))) \<union> {ROspf} \<union> set (cgroup_routines (su_cpu_stat e))"
    using run acc accept_count [OF acc(1)] accept_count [OF acc(2)]
    by (auto simp: main_Run_def bmp_Run_def fpm_Run_def Let_def split: prod.splits if_splits)
  moreover have "area_of ` RBmp ` {..<n} = (if n = 0 then {} else {ABmp})"
    "area_of ` RFpm ` {..<n} = (if n = 0 then {} else {AFpm})" for n
    by (simp_all add: image_image image_constant_conv lessThan_empty_iff)
  moreover have "area_of ` (case netlink_Run (su_links e) (su_neighs e) of None \<Rightarrow> {} | Some rs \<Rightarrow> set rs) =
      (if su_links e then {AKernel} else {})"
    "area_of ` set (fst (lldp_Run (su_pipe e) (su_watch e))) = {ALldp}"
    "area_of ` set (cgroup_routines (su_cpu_stat e)) = (if su_cpu_stat e then {AHost} else {})"
    by (auto simp: netlink_Run_def lldp_Run_def cgroup_routines_def)
  ultimately have areas: "area_of ` R =
      (if su_bmp e = [] then {} else {ABmp}) \<union> (if su_fpm e = [] then {} else {AFpm}) \<union>
      (if su_links e then {AKernel} else {}) \<union> {ALldp} \<union> {AOspf} \<union> (if su_cpu_stat e then {AHost} else {})"
    by (simp only: image_Un length_0_conv image_insert image_empty area_of.simps)
  have "a \<in> area_of ` R \<longleftrightarrow> \<not> absent e a" for a unfolding areas by (cases a) simp_all
  then show "area_of ` R = {a. \<not> absent e a}" by blast
qed

definition only_calls :: "routine set \<Rightarrow> collector \<Rightarrow> bool" where
  "only_calls R s \<longleftrightarrow> fst ` set (co_log s) \<subseteq> R \<and> (\<forall>r. r \<notin> R \<longrightarrow> co_todo s r = [])"

lemma only_calls_step: "co_step s s' \<Longrightarrow> only_calls R s \<Longrightarrow> (\<forall>r. r \<notin> R \<longrightarrow> co_todo s' r = []) \<Longrightarrow> only_calls R s'"
proof (induction rule: co_step.induct)
  case (call s r e es now)
  then have "r \<in> R" by (auto simp: only_calls_def)
  with call show ?case by (auto simp: only_calls_def)
qed (auto simp: only_calls_def)

lemma live_run: "rtranclp (live_step R) s0 s \<Longrightarrow> only_calls R s0 \<Longrightarrow> only_calls R s \<and> rtranclp co_step s0 s"
proof (induction rule: rtranclp_induct)
  case (step s s')
  then show ?case using only_calls_step by (auto simp: live_step_def intro: rtranclp.rtrancl_into_rtrancl)
qed simp

lemma main_start_calls:
  assumes "main_start fl e ll ll' k now = Some (R, s)"
  shows "only_calls R s \<and> co_reach (cf_target fl) s \<and> main_Run fl e = Some R"
proof -
  from assms have R: "main_Run fl e = Some R"
    and s: "s = co_start (cf_target fl) ll ll' (if RCounters \<in> R then k else k\<lparr>k_links := None\<rparr>) now"
    by (auto simp: main_start_def co_main_def bind_eq_Some_conv split: if_splits)
  have "only_calls R s" by (auto simp: s only_calls_def co_start_def snapshot_def)
  with R show ?thesis using co_reach.start by (simp add: s)
qed

text \<open>
  C23: the collector degrades by ingester. When the process is up and an ingester could not start (the
  link subscription failed, there is no control group, bgpd or zebra has not connected), then in every
  state that the others reach its part of the cache is empty, and every leaf of theirs is what their
  own calls have made of it.
\<close>

theorem collector_degrades:
  assumes "main_start fl e ll ll' k now = Some (R, s0)" and "rtranclp (live_step R) s0 s"
    and "owner og q = Some a"
  shows "store_look (co_store s) og q =
    (if absent e a then None else store_look (apply_effs (\<lambda>_. None) (calls_of a (co_log s))) og q)"
proof -
  from main_start_calls [OF assms(1)] have start: "only_calls R s0" "co_reach (cf_target fl) s0" "main_Run fl e = Some R"
    by simp_all
  with live_run [OF assms(2)] have s: "only_calls R s" "co_reach (cf_target fl) s" using run_reach by auto
  have look: "store_look (co_store s) og q = store_look (apply_effs (\<lambda>_. None) (calls_of a (co_log s))) og q"
    by (simp add: look_calls [OF calls_ok_reach [OF s(2)]] assms(3))
  show ?thesis
  proof (cases "absent e a")
    case True
    with main_Run_areas [OF start(3)] have "a \<notin> area_of ` R" by simp
    with s(1) have "calls_of a (co_log s) = []" by (force simp: only_calls_def calls_of_def filter_empty_conv)
    with look True show ?thesis by (simp add: store_look_def)
  qed (simp add: look)
qed

text \<open>A router without netlink access and without control group, to which bgpd has connected.\<close>

definition sample_setup :: startup where
  "sample_setup = \<lparr>su_server = True, su_serves = True, su_listens = (\<lambda>_. True), su_bmp = [True], su_fpm = [], su_links = False,
     su_neighs = True, su_pipe = True, su_watch = True, su_cpu_stat = False\<rparr>"

theorem collector_degrades_witness:
  "\<exists>R s0. main_start co_defaults sample_setup None None run_kernel 0 = Some (R, s0) \<and> RBmp 0 \<in> R \<and> ROspf \<in> R \<and>
    store_look (co_store s0) ''openconfig'' (ifaceElems ''eth0'' ''oper-status'') = None"
proof -
  obtain R where R: "main_Run co_defaults sample_setup = Some R"
    using main_exits_iff [of co_defaults sample_setup] by (auto simp: sample_setup_def)
  then have in_R: "RBmp 0 \<in> R" "ROspf \<in> R"
    by (auto simp: main_Run_def bmp_Run_def sample_setup_def Let_def split: prod.splits if_splits)
  from R obtain s0 where s0: "main_start co_defaults sample_setup None None run_kernel 0 = Some (R, s0)"
    by (auto simp: main_start_def co_main_def sample_setup_def)
  from collector_degrades [OF s0 rtranclp.rtrancl_refl, of "''openconfig''" "ifaceElems ''eth0'' ''oper-status''" AKernel]
  have "store_look (co_store s0) ''openconfig'' (ifaceElems ''eth0'' ''oper-status'') = None"
    by (simp add: sample_setup_def)
  with s0 in_R show ?thesis by blast
qed

section \<open>OSPF without a source of triggers\<close>

text \<open>The steps of \<open>Ospf\<close> that the running goroutines can make; neighbours change and FRR logs anyway.\<close>

inductive task_step :: "ospf_task list \<Rightarrow> trig \<Rightarrow> trig \<Rightarrow> bool" for ts where
  change: "syslog_matches msg \<Longrightarrow> task_step ts t (t\<lparr>tr_fresh := False, tr_sock := tr_sock t @ [msg]\<rparr>)"
| lost: "task_step ts t (t\<lparr>tr_fresh := False, tr_missed := True\<rparr>)"
| chatter: "task_step ts t (t\<lparr>tr_sock := tr_sock t @ [msg]\<rparr>)"
| tick: "Fallback \<in> set ts \<Longrightarrow> task_step ts t (t\<lparr>tr_pending := signal (tr_pending t)\<rparr>)"
| receive: "Syslog \<in> set ts \<Longrightarrow> tr_sock t = msg # ms \<Longrightarrow> task_step ts t (runSyslog msg (t\<lparr>tr_sock := ms\<rparr>))"
| worker: "Worker \<in> set ts \<Longrightarrow> own_step t t' \<Longrightarrow> tr_worker t' \<noteq> tr_worker t \<Longrightarrow> task_step ts t t'"

lemma task_trig_step: "task_step ts t t' \<Longrightarrow> trig_step t t'"
  by (induction rule: task_step.induct) (blast intro: trig_step.intros own_step.intros)+

inductive_simps task_step_simps: "task_step ts t t'"

text \<open>
  When the syslog socket cannot be bound and there is no fallback interval, which is the default, the
  first change of a neighbour is never shown: no later step makes the rows those of the neighbours again.
\<close>

theorem ospf_stale_without_sources:
  assumes "rtranclp (task_step (ospf_Run False fallback)) t t'" "fallback \<le> 0"
    and "tr_pending t = 0" "tr_worker t = Waiting" "\<not> tr_fresh t"
  shows "\<not> tr_fresh t'"
proof -
  have "tr_pending t' = 0 \<and> tr_worker t' = Waiting \<and> \<not> tr_fresh t'"
    using assms(1)
    by (induction rule: rtranclp_induct) (use assms(2-5) in \<open>auto simp: task_step_simps own_step_simps ospf_Run_def runSyslog_def split: if_splits\<close>)
  then show ?thesis by simp
qed

end
