(* ===== verification/Flap.thy ===== *)
theory Flap
  imports Aggregate_Props Collector_Props
begin

text \<open>
  The collectors of the nodes and the trace aggregator together. Both ends of a link that goes up or
  down report it; their correlators name a trace after it, and the aggregator, which knows the traces
  by their text only, finds that they belong together and which link it was.
\<close>

section \<open>The group of a quiet start\<close>

text \<open>Among sorted traces, the ones within the window of a trace that no other precedes closely are one group.\<close>

definition in_window :: "int \<Rightarrow> int \<Rightarrow> trace \<Rightarrow> bool" where
  "in_window s window t \<longleftrightarrow> s \<le> t_start t \<and> t_start t \<le> s + window"

definition start_ok :: "trace \<Rightarrow> bool" where
  "start_ok t \<longleftrightarrow> 0 \<le> t_start t \<and> t_start t < 2 ^ 62"

lemma near_iff:
  "g \<noteq> [] \<Longrightarrow> start_ok (hd g) \<Longrightarrow> start_ok t \<Longrightarrow> window < 2 ^ 62 \<Longrightarrow>
    near window g t \<longleftrightarrow> t_start t - t_start (hd g) \<le> window"
  by (simp add: near_def start_ok_def time_sub_small)

lemma group_of_quiet:
  assumes "runs window gs" "sorted (map t_start (concat gs))" "list_all start_ok (concat gs)"
    and "0 \<le> window" "window < 2 ^ 62"
    and "t0 \<in> set (concat gs)" "t_start t0 = s"
    and "\<And>t. t \<in> set (concat gs) \<Longrightarrow> t_start t < s \<Longrightarrow> window < s - t_start t"
  shows "filter (in_window s window) (concat gs) \<in> set gs"
  using assms(1-3,6,8)
proof (induction gs)
  case (Cons g gs)
  have g: "g \<noteq> []" "list_all (near window g) (tl g)" "runs window gs" "gs = [] \<or> \<not> near window g (hd (hd gs))"
    using Cons.prems(1) by (simp_all add: runs_Cons)
  then obtain t ts where gt: "g = t # ts" by (cases g) auto
  have t: "start_ok t" using Cons.prems(3) gt by simp
  have member: "t_start u \<le> t_start t + window" if "u \<in> set g" for u
  proof (cases "u = t")
    case False
    with that gt g(2) have "near window g u" by (auto simp: list_all_iff)
    moreover have "start_ok u" using Cons.prems(3) that by (auto simp: list_all_iff)
    ultimately show ?thesis using near_iff [of g u window] t gt assms(5) by simp
  qed (use assms(4) in simp)
  have least: "t_start t \<le> t_start u" if "u \<in> set (concat (g # gs))" for u
    using Cons.prems(2) that gt by auto
  show ?case
  proof (cases "t_start t < s")
    case True
    then have low: "t_start u < s" if "u \<in> set g" for u
      using Cons.prems(5) [of t] member [OF that] gt by simp
    then have "filter (in_window s window) g = []" by (force simp: filter_empty_conv in_window_def)
    moreover have "t0 \<in> set (concat gs)" using Cons.prems(4) low [of t0] assms(7) by auto
    ultimately show ?thesis using Cons.IH [OF g(3)] Cons.prems by (auto simp: sorted_append)
  next
    case False
    with least [OF Cons.prems(4)] assms(7) have s: "t_start t = s" by simp
    have "filter (in_window s window) g = g"
      using member least s by (auto simp: filter_id_conv in_window_def)
    moreover have "filter (in_window s window) (concat gs) = []"
    proof (cases gs)
      case (Cons h hs)
      with g(3) obtain u us where h: "h = u # us" by (cases h) (auto simp: runs_Cons)
      have u: "start_ok u" using Cons.prems(3) Cons h by simp
      with g(4) Cons h have "s + window < t_start u" using near_iff [of g u window] t gt assms(5) s by simp
      moreover have "t_start u \<le> t_start v" if "v \<in> set (concat gs)" for v
        using Cons.prems(2) that Cons h by (auto simp: sorted_append)
      ultimately show ?thesis by (force simp: filter_empty_conv in_window_def)
    qed simp
    ultimately show ?thesis by simp
  qed
qed simp


section \<open>The link of a group\<close>

lemma votes_one:
  assumes "\<And>t. t \<in> set g \<Longrightarrow> linkKey (t_root t) \<in> {'''', k}" "k \<noteq> ''''" "t0 \<in> set g" "linkKey (t_root t0) = k"
  shows "\<exists>n > 0. foldl (\<lambda>m t. vote t m) [] g = [(k, n)]"
proof -
  have step: "vote t [(k, n)] = (if linkKey (t_root t) = k then [(k, n + 1)] else [(k, n)])"
    if "linkKey (t_root t) \<in> {'''', k}" for t n
    using that assms(2) by (auto simp: vote_def Let_def get_or_def)
  have one: "\<exists>n' > 0. foldl (\<lambda>m t. vote t m) [(k, n)] g = [(k, n')]"
    if "n > 0" "\<And>t. t \<in> set g \<Longrightarrow> linkKey (t_root t) \<in> {'''', k}" for n g
    using that by (induction g arbitrary: n) (auto simp: step)
  show ?thesis using assms(1,3)
  proof (induction g)
    case (Cons t g)
    show ?case
    proof (cases "linkKey (t_root t) = k")
      case True
      then have "vote t [] = [(k, 1)]" using assms(2) by (simp add: vote_def Let_def get_or_def)
      with one [of 1 g] Cons.prems(1) show ?thesis by simp
    next
      case False
      with Cons.prems(1) [of t] have "vote t [] = []" by (simp add: vote_def Let_def)
      with False Cons assms(4) show ?thesis by auto
    qed
  qed simp
qed

lemma winner_one: "mset (rng [(k, n)]) = mset [(k, n)] \<Longrightarrow> 0 < n \<Longrightarrow> winner (rng [(k, n)]) = k"
  by (simp add: winner_def)

lemma merge_link:
  "dt_link (merge_traces srtS rng i g) = winner (rng (foldl (\<lambda>m t. vote t m) [] g))"
  "set (dt_nodes (merge_traces srtS rng i g)) = t_node ` set g"
  by (simp_all add: merge_traces_def Let_def node_set_sorted)


section \<open>What a node serves\<close>

text \<open>A trace that starts with an event of an interface is named after it.\<close>

lemma link_trace:
  assumes "co_reach n s" "t \<in> set (ServeHTTP (fst (co_cor s)))" "sp_bus (hd (t_spans t)) = ''netlink''"
  shows "t_node t = n \<and> (\<exists>up. t_root t = link_root up (sp_key (hd (t_spans t))))"
proof -
  obtain c a where c: "co_cor s = (c, a)" by force
  with cor_ok_reach [OF assms(1)] assms(2) obtain i es where
    t: "t = trace_of n i es" "es \<noteq> []" "kept es" "list_all event_ok es"
    by (auto simp: cor_ok_def ring_from_def ServeHTTP_def)
  then have ok: "event_ok (hd es)" by (cases es) simp_all
  have hd: "hd (t_spans t) = span_of (ev_ts (hd es)) (hd es)" using t(1,2) by (simp add: trace_of_def hd_map)
  with assms(3) have bus: "ev_bus (hd es) = ''netlink''" by (simp add: span_of_def)
  with ok have "ev_root (hd es)" "ev_kind (hd es) \<in> {''link-up'', ''link-down''}"
    by (auto simp: event_ok_def event_kinds_def events_def)
  then have "t_root t = link_root (ev_kind (hd es) = ''link-up'') (sp_key (hd (t_spans t)))"
    unfolding hd by (auto simp: t(1) trace_of_def span_of_def link_root_def bus)
  then show ?thesis using t(1) by (auto simp: trace_of_def)
qed

lemma served_node:
  "co_reach n s \<Longrightarrow> t \<in> set (ServeHTTP (fst (co_cor s))) \<Longrightarrow> t_node t = n"
  using cor_ok_reach [of n s] by (cases "co_cor s") (auto simp: cor_ok_def ring_from_def ServeHTTP_def trace_of_def)

definition traces_url :: "string \<Rightarrow> string" where
  "traces_url ip = ''http://'' @ fetch_addr ip @ ''/traces''"

text \<open>The nodes of the inventory run collectors and serve the traces of their correlators.\<close>

definition serving :: "(string \<Rightarrow> trace list) \<Rightarrow> (string, string) gomap \<Rightarrow> (string \<Rightarrow> collector) \<Rightarrow> bool" where
  "serving fetch inventory node \<longleftrightarrow>
     (\<forall>(n, ip) \<in> set inventory. n \<noteq> [] \<and> co_reach n (node n) \<and>
        fetch (traces_url ip) = ServeHTTP (fst (co_cor (node n))))"

lemma fetch_all_serving:
  assumes "serving fetch inventory node"
  shows "fetch_all fetch inventory = concat (map (\<lambda>(n, ip). ServeHTTP (fst (co_cor (node n)))) inventory)"
proof -
  have "map (\<lambda>t. if t_node t = '''' then t\<lparr>t_node := n\<rparr> else t) (fetch (traces_url ip)) =
      ServeHTTP (fst (co_cor (node n)))" if "(n, ip) \<in> set inventory" for n ip
  proof -
    have n: "n \<noteq> []" "co_reach n (node n)" "fetch (traces_url ip) = ServeHTTP (fst (co_cor (node n)))"
      using assms that by (auto simp: serving_def)
    then show ?thesis using served_node [OF n(2)] by (auto intro!: map_idI)
  qed
  then show ?thesis
    unfolding fetch_all_def traces_url_def by (intro arg_cong [where f = concat] map_cong) auto
qed


section \<open>A flap is one distributed trace\<close>

definition link_name :: "string \<Rightarrow> string \<Rightarrow> string" where
  "link_name a b = (if b < a then b @ ''--'' @ a else a @ ''--'' @ b)"

lemma linkKey_ends:
  assumes "plain_name a" "plain_name b"
  shows "linkKey (link_root up (a @ ''-'' @ b)) = link_name a b" "link_name b a = link_name a b" "link_name a b \<noteq> ''''"
proof -
  show "linkKey (link_root up (a @ ''-'' @ b)) = link_name a b"
    using linkKey_root [of a b up] assms by (simp add: link_name_def plain_name_def)
  show "link_name b a = link_name a b"
    by (cases "a = b") (auto simp: link_name_def not_less_iff_gr_or_eq)
qed (simp add: link_name_def)

text \<open>The traces an aggregator finds in the nodes.\<close>

definition node_traces :: "(string, string) gomap \<Rightarrow> (string \<Rightarrow> collector) \<Rightarrow> trace list" where
  "node_traces inventory node = concat (map (\<lambda>(n, ip). ServeHTTP (fst (co_cor (node n)))) inventory)"

text \<open>
  C4: a link flap is one distributed trace. Two collectors in any reachable state serve traces that
  start, within the window of each other, with the events of the interfaces \<^verbatim>\<open>a-b\<close> on \<^verbatim>\<open>a\<close> and \<^verbatim>\<open>b-a\<close> on
  \<^verbatim>\<open>b\<close>. When no trace of any node precedes the first of the two closely and no other link has an event in
  the window, the aggregator makes one distributed trace of exactly the traces in the window,
  whatever the order of its maps and of equal times; it is named after the link and has both nodes.
\<close>

theorem flap_is_one_trace:
  assumes "sorts_by t_start srtT" and "\<And>m. mset (rng m) = mset m"
    and "serving fetch inventory node" and "0 \<le> window" and "window < 2 ^ 62"
    and "(a, ipa) \<in> set inventory" and "(b, ipb) \<in> set inventory" and "plain_name a" and "plain_name b"
    and "ta \<in> set (ServeHTTP (fst (co_cor (node a))))" and "sp_bus (hd (t_spans ta)) = ''netlink''"
    and "sp_key (hd (t_spans ta)) = a @ ''-'' @ b"
    and "tb \<in> set (ServeHTTP (fst (co_cor (node b))))" and "sp_bus (hd (t_spans tb)) = ''netlink''"
    and "sp_key (hd (t_spans tb)) = b @ ''-'' @ a"
    and "t_start ta \<le> t_start tb" and "t_start tb \<le> t_start ta + window"
    and "list_all start_ok (node_traces inventory node)"
    and "\<And>t. t \<in> set (node_traces inventory node) \<Longrightarrow> t_start t < t_start ta \<Longrightarrow> window < t_start ta - t_start t"
    and "\<And>t. t \<in> set (node_traces inventory node) \<Longrightarrow> in_window (t_start ta) window t \<Longrightarrow>
      linkKey (t_root t) \<in> {'''', link_name a b}"
  shows "\<exists>dt \<in> set (build srtT srtS rng window fetch inventory).
    dt_link dt = link_name a b \<and> {a, b} \<subseteq> set (dt_nodes dt) \<and>
    mset (dt_roots dt) = mset (map (\<lambda>t. t_node t @ '': '' @ t_root t)
      (filter (in_window (t_start ta) window) (node_traces inventory node)))"
proof -
  let ?all = "node_traces inventory node" and ?P = "in_window (t_start ta) window"
  let ?ts = "srtT ?all" and ?gs = "group_traces window (srtT ?all)"
  note sorter = sorts_byD [OF assms(1)]
  have fetched: "fetch_all fetch inventory = ?all"
    using fetch_all_serving [OF assms(3)] by (simp add: node_traces_def)
  have ts: "mset ?ts = mset ?all" "set ?ts = set ?all" "sorted (map t_start ?ts)"
    using slice_sort.mset_srt [OF sorter] slice_sort.set_srt [OF sorter] slice_sort.sorted_srt [OF sorter] by blast+
  have runs: "runs window ?gs" "concat ?gs = ?ts" using group_traces_runs by blast+
  have reach: "co_reach a (node a)" "co_reach b (node b)" using assms(3,6,7) by (auto simp: serving_def)
  have all: "ta \<in> set ?all" "tb \<in> set ?all"
    using assms(6,7,10,13) by (force simp: node_traces_def)+
  have "filter ?P (concat ?gs) \<in> set ?gs"
    by (rule group_of_quiet [OF runs(1), where ?t0.0 = ta])
       (use assms(4,5,18,19) all in \<open>simp_all add: runs(2) ts list_all_iff\<close>)
  then obtain i where i: "i < length ?gs" "?gs ! i = filter ?P ?ts" by (auto simp: runs(2) in_set_conv_nth)
  let ?g = "filter ?P ?ts"
  have members: "ta \<in> set ?g" "tb \<in> set ?g" using all assms(4,16,17) by (simp_all add: ts(2) in_window_def)
  obtain up up' where roots: "t_root ta = link_root up (a @ ''-'' @ b)" "t_root tb = link_root up' (b @ ''-'' @ a)"
      "t_node ta = a" "t_node tb = b"
    using link_trace [OF reach(1) assms(10,11)] link_trace [OF reach(2) assms(13,14)] unfolding assms(12,15) by blast
  note name = linkKey_ends [OF assms(8,9)]
  obtain n where n: "0 < n" "foldl (\<lambda>m t. vote t m) [] ?g = [(link_name a b, n)]"
    using votes_one [of ?g "link_name a b" ta] assms(20) members(1) name roots(1) by (auto simp: ts(2))
  let ?dt = "merge_traces srtS rng (int i + 1) ?g"
  have "build srtT srtS rng window fetch inventory ! i = ?dt" "i < length (build srtT srtS rng window fetch inventory)"
    using i by (simp_all add: build_def fetched nth_enumerate_eq)
  then have "?dt \<in> set (build srtT srtS rng window fetch inventory)" by (metis nth_mem)
  moreover have "winner (rng [(link_name a b, n)]) = link_name a b"
    using assms(2) n(1) by (intro winner_one)
  then have "dt_link ?dt = link_name a b" by (simp add: merge_link n(2))
  moreover have "{a, b} \<subseteq> set (dt_nodes ?dt)" using members roots(3,4) by (force simp: merge_link)
  moreover have "mset (dt_roots ?dt) = mset (map (\<lambda>t. t_node t @ '': '' @ t_root t) (filter ?P ?all))"
    using ts(1) by (simp add: mset_filter)
  ultimately show ?thesis by blast
qed


text \<open>A node that reports the removal of an interface and closes the trace four seconds later.\<close>

definition gone_link :: "string \<Rightarrow> link_update" where
  "gone_link iface =
     \<lparr>lu_type = rtmDelLink,
      lu_link = \<lparr>kl_name = iface, kl_index = 3, kl_mtu = 1500, kl_flags = 0, kl_oper = OperDown,
                 kl_type = ''device'', kl_stats = None\<rparr>\<rparr>"

abbreviation (input) gone_eff :: "string \<Rightarrow> eff" where
  "gone_eff iface \<equiv> Emit ''netlink'' ''link-down'' iface ''link removed'' True"

definition gone_event :: "string \<Rightarrow> int \<Rightarrow> event" where
  "gone_event iface now =
     \<lparr>ev_bus = ''netlink'', ev_kind = ''link-down'', ev_key = iface, ev_detail = ''link removed'', ev_root = True,
      ev_ts = now\<rparr>"

definition gone_calls :: "string \<Rightarrow> string \<Rightarrow> int \<Rightarrow> collector" where
  "gone_calls n iface now =
     make_call now RLinks (gone_eff iface) (todo RLinks []
       (make_call 0 RLinks (CacheUpdate ''openconfig'' [] [ifaceElems iface []]) (todo RLinks [gone_eff iface]
          (todo RLinks (linkLoop (gone_link iface))
            ((co_start n None None run_kernel 0)\<lparr>co_links := [gone_link iface]\<rparr>)))))"

definition gone_run :: "string \<Rightarrow> string \<Rightarrow> int \<Rightarrow> collector" where
  "gone_run n iface now =
     (gone_calls n iface now)\<lparr>co_cor := run_tick (now + 4000000000)
       (run_event (gone_event iface now) now (run_start 0 (corr_New n)))\<rparr>"

lemma gone_calls_reach: "co_reach n (gone_calls n iface now)"
proof -
  let ?e = "CacheUpdate ''openconfig'' [] [ifaceElems iface []]"
  let ?s0 = "co_start n None None run_kernel 0"
  let ?s1 = "todo RLinks (linkLoop (gone_link iface)) (?s0\<lparr>co_links := [gone_link iface]\<rparr>)"
  have calls: "linkLoop (gone_link iface) = [?e, gone_eff iface]"
    by (simp add: linkLoop_def gone_link_def Let_def)
  have "co_todo ?s0 RLinks = []" "co_links ?s0 = []" by (simp_all add: co_start_def)
  from co_reach.step [OF co_reach.start co_step.link_event [OF this(1), of "gone_link iface"]] this(2)
  have 1: "co_reach n ?s1" by simp
  have "co_todo ?s1 RLinks = ?e # [gone_eff iface]" by (simp add: calls)
  from co_reach.step [OF 1 co_step.call [OF this]]
  have 2: "co_reach n (make_call 0 RLinks ?e (todo RLinks [gone_eff iface] ?s1))" .
  have "co_todo (make_call 0 RLinks ?e (todo RLinks [gone_eff iface] ?s1)) RLinks = gone_eff iface # []" by simp
  from co_reach.step [OF 2 co_step.call [OF this]] show ?thesis unfolding gone_calls_def .
qed

lemma gone_run_reach: "co_reach n (gone_run n iface now)"
proof -
  let ?c = "fst (run_start 0 (corr_New n))"
  have c: "co_cor (gone_calls n iface now) = (?c\<lparr>c_ch := [gone_event iface now]\<rparr>, None)"
    by (simp add: gone_calls_def co_start_def run_start_def corr_Emit_def corr_New_def gone_event_def)
  have "c_ch (?c\<lparr>c_ch := [gone_event iface now]\<rparr>) = gone_event iface now # []" by simp
  from co_reach.step [OF gone_calls_reach co_step.receive [OF c this]]
  have "co_reach n ((gone_calls n iface now)\<lparr>co_cor := run_event (gone_event iface now) now
      (?c\<lparr>c_ch := [gone_event iface now]\<rparr>\<lparr>c_ch := []\<rparr>, None)\<rparr>)" .
  moreover have "(?c\<lparr>c_ch := [gone_event iface now]\<rparr>\<lparr>c_ch := []\<rparr>, None) = run_start 0 (corr_New n)"
    by (simp add: run_start_def corr_New_def)
  ultimately have "co_reach n ((gone_calls n iface now)\<lparr>co_cor := run_event (gone_event iface now) now
      (run_start 0 (corr_New n))\<rparr>)" by simp
  from co_reach.step [OF this co_step.tick [of _ "now + 4000000000"]] show ?thesis by (simp add: gone_run_def)
qed

lemma gone_run_traces:
  "ServeHTTP (fst (co_cor (gone_run n iface now))) = [trace_of n 1 [gone_event iface now]]"
  by (simp add: gone_run_def run_tick_def run_event_def run_start_def corr_New_def gone_event_def ServeHTTP_def
      time_sub_def join_trace_def open_trace_def flush_def trace_of_def Let_def)

definition flap_node :: "string \<Rightarrow> collector" where
  "flap_node n = (if n = ''pe1'' then gone_run ''pe1'' ''pe1-p1'' 1000000000 else gone_run ''p1'' ''p1-pe1'' 1200000000)"

definition ends_fetch :: "string \<Rightarrow> trace list" where
  "ends_fetch url = ServeHTTP (fst (co_cor (flap_node (if url = traces_url ''10.0.0.1'' then ''pe1'' else ''p1''))))"

theorem flap_is_one_trace_witness:
  "\<exists>dt \<in> set (build (sort_key t_start) (sort_key ds_abs) rev 1500000000 ends_fetch flap_inv).
    dt_link dt = ''p1--pe1'' \<and> {''pe1'', ''p1''} \<subseteq> set (dt_nodes dt)"
proof -
  let ?ta = "trace_of ''pe1'' 1 [gone_event ''pe1-p1'' 1000000000]"
    and ?tb = "trace_of ''p1'' 1 [gone_event ''p1-pe1'' 1200000000]"
  have served: "serving ends_fetch flap_inv flap_node"
    by (simp add: serving_def ends_fetch_def flap_node_def gone_run_reach traces_url_def fetch_addr_def str_contains_def)
  have traces: "ServeHTTP (fst (co_cor (flap_node ''pe1''))) = [?ta]" "ServeHTTP (fst (co_cor (flap_node ''p1''))) = [?tb]"
    by (simp_all add: flap_node_def gone_run_traces)
  have all: "node_traces flap_inv flap_node = [?ta, ?tb]" by (simp add: node_traces_def traces)
  have plain: "plain_name ''pe1''" "plain_name ''p1''" by (simp_all add: plain_name_def is_space_def)
  have fields: "t_start ?ta = 1000000000" "t_start ?tb = 1200000000"
      "t_root ?ta = link_root False (''pe1'' @ ''-'' @ ''p1'')" "t_root ?tb = link_root False (''p1'' @ ''-'' @ ''pe1'')"
    by (simp_all add: trace_of_def gone_event_def link_root_def)
  have key: "linkKey (t_root ?ta) = link_name ''pe1'' ''p1''" "linkKey (t_root ?tb) = link_name ''pe1'' ''p1''"
    unfolding fields(3,4) linkKey_ends(1) [OF plain] linkKey_ends(1) [OF plain(2,1)]
    by (rule HOL.refl) (rule linkKey_ends(2) [OF plain])
  have "\<exists>dt \<in> set (build (sort_key t_start) (sort_key ds_abs) rev 1500000000 ends_fetch flap_inv).
    dt_link dt = link_name ''pe1'' ''p1'' \<and> {''pe1'', ''p1''} \<subseteq> set (dt_nodes dt) \<and>
    mset (dt_roots dt) = mset (map (\<lambda>t. t_node t @ '': '' @ t_root t)
      (filter (in_window (t_start ?ta) 1500000000) (node_traces flap_inv flap_node)))"
  proof (rule flap_is_one_trace [OF by_start.sorts mset_rev served _ _ _ _ plain, where ta = ?ta and tb = ?tb])
    show "linkKey (t_root t) \<in> {'''', link_name ''pe1'' ''p1''}" if "t \<in> set (node_traces flap_inv flap_node)" for t
      using that key unfolding all by auto
    show "1500000000 < t_start ?ta - t_start t" if "t \<in> set (node_traces flap_inv flap_node)" "t_start t < t_start ?ta" for t
      using that fields(1,2) unfolding all by auto
    show "sp_bus (hd (t_spans ?ta)) = ''netlink''" "sp_key (hd (t_spans ?ta)) = ''pe1'' @ ''-'' @ ''p1''"
      "sp_bus (hd (t_spans ?tb)) = ''netlink''" "sp_key (hd (t_spans ?tb)) = ''p1'' @ ''-'' @ ''pe1''"
      by (simp_all add: trace_of_def span_of_def gone_event_def)
    show "list_all start_ok (node_traces flap_inv flap_node)" unfolding all by (simp add: start_ok_def fields)
    show "(''pe1'', ''10.0.0.1'') \<in> set flap_inv" "(''p1'', ''10.0.0.2'') \<in> set flap_inv" by simp_all
  qed (simp_all only: traces fields, simp_all)
  then show ?thesis by (auto simp: link_name_def)
qed

end
