(* ===== verification/Collector_Fib.thy ===== *)
theory Collector_Fib
  imports Collector_Conn Fpm_Stream
begin

text \<open>
  The forwarding table of the running collector: what is proved of zebra's stream alone holds of it
  while all other goroutines run.
\<close>

declare apply_eff.simps(1) [simp del]

section \<open>The FPM ingester of the collector\<close>

text \<open>The messages of one connection, one after the other.\<close>

definition fpm_seq :: "(link_list \<times> bytes) list \<Rightarrow> fpm \<Rightarrow> (fpm \<times> eff list) option" where
  "fpm_seq = serve_all (\<lambda>(ll, msg). handleNetlink ll msg)"

lemma fpm_seq_simps [simp]:
  "fpm_seq [] f0 = Some (f0, [])"
  "fpm_seq (ins @ [(ll, msg)]) f0 =
    do { (f, es) \<leftarrow> fpm_seq ins f0; (f', es') \<leftarrow> handleNetlink ll msg f; Some (f', es @ es') }"
  by (simp_all add: fpm_seq_def)


section \<open>The forwarding table\<close>

text \<open>The netlink messages of zebra's routes and nexthop objects.\<close>

fun zebra_msg :: "fpm_msg \<Rightarrow> bytes" where
  "zebra_msg (Route del r) = enc_route del r"
| "zebra_msg (Nexthop del i items) = enc_nexthop del i items"
| "zebra_msg (Foreign ty body) = []"

fun zebra_wf :: "fpm_msg \<Rightarrow> bool" where
  "zebra_wf (Route del r) \<longleftrightarrow> route_wf r"
| "zebra_wf (Nexthop del i items) \<longleftrightarrow> 0 < i \<and> i < 4294967296 \<and> list_all nh_item_wf items"
| "zebra_wf (Foreign ty body) \<longleftrightarrow> False"

lemma handleNetlink_zebra:
  assumes "zebra_wf m"
  shows "\<exists>es. handleNetlink ll (zebra_msg m) f = Some (fst (fpm_spec ll m (f, tbl)), es) \<and>
    (\<forall>st. aft_table (apply_effs st es) = snd (fpm_spec ll m (f, aft_table st)))"
proof (cases m)
  case (Route del r)
  then show ?thesis
    using assms handleRoute_enc [of r ll del f] by (cases del) (simp_all add: enc_route_def handleNetlink_msg)
qed (use assms handleNetlink_nexthop in simp_all)

definition fib_spec :: "(link_list \<times> fpm_msg) list \<Rightarrow> fpm_abs \<Rightarrow> fpm_abs" where
  "fib_spec ins a = foldl (\<lambda>a (ll, m). fpm_spec ll m a) a ins"

lemma fpm_spec_fst: "fst (fpm_spec ll m (f, tbl)) = fst (fpm_spec ll m (f, tbl'))"
  by (cases m) simp_all

lemma fpm_seq_fib:
  assumes "list_all (zebra_wf \<circ> snd) ins" "fpm_seq (map (\<lambda>(ll, m). (ll, zebra_msg m)) ins) f0 = Some (f, es)"
  shows "f = fst (fib_spec ins (f0, tbl)) \<and> aft_table (apply_effs st es) = snd (fib_spec ins (f0, aft_table st))"
  using assms
proof (induction ins arbitrary: f es tbl rule: rev_induct)
  case (snoc x ins)
  obtain ll m where x: "x = (ll, m)" by force
  from snoc.prems(2) obtain f1 es1 es2 where
    1: "fpm_seq (map (\<lambda>(ll, m). (ll, zebra_msg m)) ins) f0 = Some (f1, es1)"
    and 2: "handleNetlink ll (zebra_msg m) f1 = Some (f, es2)" "es = es1 @ es2"
    by (auto simp: x bind_eq_Some_conv)
  have wf: "list_all (zebra_wf \<circ> snd) ins" "zebra_wf m" using snoc.prems(1) x by (simp_all add: comp_def)
  note IH = snoc.IH [OF wf(1) 1]
  from handleNetlink_zebra [OF wf(2), of ll f1 "snd (fib_spec ins (f0, tbl))"] 2(1) have
    f: "f = fst (fpm_spec ll m (f1, snd (fib_spec ins (f0, tbl))))"
    and es2: "\<And>st. aft_table (apply_effs st es2) = snd (fpm_spec ll m (f1, aft_table st))" by auto
  have spec: "fib_spec (ins @ [x]) a = fpm_spec ll m (fib_spec ins a)" for a by (simp add: fib_spec_def x)
  have "f1 = fst (fib_spec ins (f0, aft_table st))" using IH by blast
  with IH have "aft_table (apply_effs st es) = snd (fib_spec (ins @ [x]) (f0, aft_table st))"
    unfolding spec 2(2) by (simp add: es2)
  moreover have "f = fst (fib_spec (ins @ [x]) (f0, tbl))"
    unfolding spec using f IH [of tbl] by simp
  ultimately show ?case by blast
qed (simp add: fib_spec_def)

lemma aft_empty: "aft_table (\<lambda>_. None) = (\<lambda>_. (None, None))"
  by (simp add: aft_table_def store_look_def fun_eq_iff)

text \<open>When zebra has sent these messages and their calls are made, the calls are those of the stream.\<close>

lemma fpm_stream_calls:
  assumes "co_reach target s" "co_todo s (RFpm 0) = []" "co_frames s = map (\<lambda>(ll, m). (0, ll, zebra_msg m)) ins"
  obtains ll where "fpm_seq (map (\<lambda>(ll, m). (ll, zebra_msg m)) ins) (NewFPM ll) =
    Some (co_fpm s, calls_of AFpm (co_log s))"
proof -
  have "co_frames s = map (Pair 0) (map (\<lambda>(ll, m). (ll, zebra_msg m)) ins)"
    unfolding assms(3) by (simp add: split_def)
  from fpm_conn.conn_calls [OF assms(1,2) this] that show thesis unfolding fpm_seq_def by metis
qed

text \<open>
  C2: the running collector shows zebra's forwarding table. Whatever the other goroutines do in between,
  when the messages zebra has sent on its connection are routes and nexthop objects and the calls for
  them are made, the routes in the cache are those the specification of the stream computes from an
  empty table, for every network instance, address family and prefix.
\<close>

theorem collector_shows_fib:
  assumes "co_reach target s" and "co_todo s (RFpm 0) = []"
    and "co_frames s = map (\<lambda>(ll, m). (0, ll, zebra_msg m)) ins" and "list_all (zebra_wf \<circ> snd) ins"
  shows "\<exists>ll. co_fpm s = fst (fib_spec ins (NewFPM ll, \<lambda>_. (None, None))) \<and>
    aft_table (co_store s) = snd (fib_spec ins (NewFPM ll, \<lambda>_. (None, None)))"
proof -
  obtain ll where
    seq: "fpm_seq (map (\<lambda>(ll, m). (ll, zebra_msg m)) ins) (NewFPM ll) = Some (co_fpm s, calls_of AFpm (co_log s))"
    by (rule fpm_stream_calls [OF assms(1-3)])
  have "aft_table (co_store s) = aft_table (apply_effs (\<lambda>_. None) (calls_of AFpm (co_log s)))"
    by (simp add: aft_table_def look_calls [OF calls_ok_reach [OF assms(1)]])
  with fpm_seq_fib [OF assms(4) seq, of "\<lambda>_. (None, None)" "\<lambda>_. None"] show ?thesis by (auto simp: aft_empty)
qed


definition fib_route :: route where
  "fib_route = \<lparr>r_family = 2, r_plen = 24, r_table8 = 254, r_kind = 1,
     r_items = [RtDst [10, 1, 0, 0], RtGw [10, 0, 0, 2], RtOif 3]\<rparr>"

theorem collector_shows_fib_witness:
  "\<exists>s. co_reach ''r1'' s \<and> co_frames s \<noteq> [] \<and>
    aft_table (co_store s) (''default'', ''ipv4-unicast'', ''10.1.0.0/24'') = (Some (StringVal ''10.0.0.2''), None)"
proof -
  let ?m = "Route False fib_route" and ?s0 = "co_start ''r1'' None None run_kernel 0"
  have wf: "zebra_wf ?m" by (simp add: fib_route_def route_wf_def)
  obtain f es where "handleNetlink None (zebra_msg ?m) (co_fpm ?s0) = Some (f, es)"
    using handleNetlink_zebra [OF wf] by blast
  moreover have "co_todo ?s0 (RFpm 0) = []" by (simp add: co_start_def)
  ultimately have "co_reach ''r1'' (todo (RFpm 0) es (?s0\<lparr>co_fpm := f,
      co_frames := co_frames ?s0 @ [(0, None, zebra_msg ?m)]\<rparr>))"
    by (intro co_reach.step [OF co_reach.start co_step.fpm])
  from drain_reach [OF this, of "RFpm 0"] obtain s where s: "co_reach ''r1'' s" "co_todo s (RFpm 0) = []"
      "co_frames s = map (\<lambda>(ll, m). (0, ll, zebra_msg m)) [(None, ?m)]"
    by (force simp: co_start_def)
  from collector_shows_fib [OF s] wf obtain ll where
    "aft_table (co_store s) = snd (fib_spec [(None, ?m)] (NewFPM ll, \<lambda>_. (None, None)))" by auto
  then have "aft_table (co_store s) (''default'', ''ipv4-unicast'', ''10.1.0.0/24'') = (Some (StringVal ''10.0.0.2''), None)"
    by (simp add: fib_spec_def fib_route_def route_key_def route_entry_def route_acc_def formatPrefix_def
        route_nexthop_def route_table_def vrf_Name_def aft_entry_def ip_string_4 dotted_def dec_eval Let_def)
  with s(1,3) show ?thesis by auto
qed

end
