(* ===== verification/End_To_End.thy ===== *)
theory End_To_End
  imports Network Collector_Fib Collector_Leaves
begin

text \<open>
  The whole program, from zebra's stream and the kernel's answers to a trace: the caches the path trace
  reads are those of running collectors. What \<open>Network\<close> assumes of a cache is shown here to hold of
  the cache of every collector that has been run on a stream of routes and nexthop objects.
\<close>

declare apply_eff.simps(1) [simp del]

section \<open>Label entries\<close>

text \<open>The rule on leaves: what is in the label table is a leaf of a label entry.\<close>

definition lfib_rule :: "string \<Rightarrow> elems \<Rightarrow> tval \<Rightarrow> bool" where
  "lfib_rule og q v \<longleftrightarrow> (og = ''frr'' \<longrightarrow> path_match (gp_elem (lfibQuery ''*'')) q \<longrightarrow> lfib_leaf q v)"

lemma owner_lfib: "path_match (gp_elem (lfibQuery lab)) q \<Longrightarrow> owner ''frr'' q = Some AKernel"
  by (auto simp: lfibQuery_def owner_def elim!: path_match.elims)

lemma intsCSV_no_star: "CHR ''*'' \<notin> set (intsCSV ls)"
  unfolding intsCSV_join by (rule join_no_star) auto

lemma writeLFIB_leaves: "all_leaves_ok lfib_rule (writeLFIB byIndex r)"
  using intsCSV_no_star
  by (auto simp: writeLFIB_def Let_def leafUpdate_def strVal_def mplsElems_lfib lfib_rule_def
      split: option.splits intro!: lfib_leafI)

lemma kernel_lfib:
  "all_leaves_ok lfib_rule (linkLoop u)" "all_leaves_ok lfib_rule (neighLoop byIndex nu)"
  "all_leaves_ok lfib_rule (counterLoop kn)" "all_leaves_ok lfib_rule (snapshot kn)"
proof -
  have mpls: "all_leaves_ok lfib_rule (snapshotMPLS f rl)" for f rl
    using writeLFIB_leaves by (auto simp: snapshotMPLS_def split: option.splits)
  have rest: "all_leaves_ok lfib_rule (sampleCounters ll)" "all_leaves_ok lfib_rule (snapshotFDB f nl)"
      "all_leaves_ok lfib_rule (snapshotAddrs ll al)" "all_leaves_ok lfib_rule (writeLinkState l)"
    for ll f nl al l
    by (auto simp: sampleCounters_def snapshotFDB_def snapshotAddrs_def writeLinkState_def writeFDB_def Let_def
        lfib_rule_def split: option.splits if_splits)
  show "all_leaves_ok lfib_rule (linkLoop u)" "all_leaves_ok lfib_rule (neighLoop byIndex nu)"
    by (auto simp: linkLoop_def neighLoop_def writeFDB_def writeLinkState_def Let_def lfib_rule_def)
  show "all_leaves_ok lfib_rule (counterLoop kn)"
    using mpls rest by (simp add: counterLoop_def ball_Un)
  show "all_leaves_ok lfib_rule (snapshot kn)"
    using mpls rest by (cases "k_links kn") (auto simp: snapshot_def simp del: leaves_ok.simps)
qed

interpretation lfib: leaf_rule lfib_rule
  by (rule kernel_rule) (auto simp: lfib_rule_def owner_lfib kernel_lfib)

lemma lfib_shaped_reach:
  assumes "co_reach target s"
  shows "lfib_shaped (co_store s)"
  using lfib.leaf_reach [OF assms] unfolding lfib_shaped_def lfib_rule_def by blast


section \<open>Routes\<close>

lemma hex_nat_not_Nil [simp]: "hex_nat n \<noteq> []"
  by (subst hex_nat.simps) simp

lemma groups16_Nil: "length a = 16 \<Longrightarrow> groups16 a \<noteq> []"
  by (cases a rule: groups16.cases) auto

lemma string6_not_Nil: "length a = 16 \<Longrightarrow> string6 a \<noteq> []"
proof -
  assume "length a = 16"
  then have "groups16 a \<noteq> []" by (rule groups16_Nil)
  then have "join '':'' (map hex_nat (groups16 a)) \<noteq> []"
    using hex_nat_not_Nil by (intro join_not_Nil) (auto simp: eq_commute [of "[]"])
  then show ?thesis by (auto simp: string6_def Let_def split: prod.splits)
qed

lemma dotted_not_Nil: "a \<noteq> [] \<Longrightarrow> dotted a \<noteq> []"
  unfolding dotted_def by (intro join_not_Nil) (auto simp: eq_commute [of "[]"])

lemma ip_string_not_Nil: "ip_string a \<noteq> []"
  by (auto simp: ip_string_def string6_not_Nil dotted_not_Nil to4_def)

lemma nh_text_not_Nil: "nh_text bh gw \<noteq> []"
  by (simp add: nh_text_def ip_string_not_Nil)

text \<open>A route of zebra whose IPv4 prefix has no bits beyond its length.\<close>

definition v4_net :: "route \<Rightarrow> ip" where
  "v4_net r = take 4 (to4 (ra_dst (route_acc r)) @ replicate 4 0)"

fun canon_msg :: "fpm_msg \<Rightarrow> bool" where
  "canon_msg (Route del r) \<longleftrightarrow> (r_family r = 2 \<longrightarrow> net_ok (v4_net r) (unat (r_plen r)))"
| "canon_msg m \<longleftrightarrow> True"

lemma formatPrefix_v4: "formatPrefix 2 (ra_dst (route_acc r)) (r_plen r) = (net_text (v4_net r) (unat (r_plen r)), ipv4)"
  by (simp add: formatPrefix_def v4_net_def net_text_def ipv4_def ip_string_4)

lemma formatPrefix_v6: "snd (formatPrefix 10 d n) = ''ipv6-unicast''"
  by (simp add: formatPrefix_def)

lemma aftPath_v6: "\<not> path_match (gp_elem aftQuery) (aftPath vrf ''ipv6-unicast'' pfx leaf)"
  by (simp add: aftQuery_def aftPath_def)

lemma route_effects_v6_shaped:
  assumes "aft_shaped st"
  shows "aft_shaped (apply_effs st (route_effects vrf ''ipv6-unicast'' pfx nh labels del))"
proof -
  let ?es = "route_effects vrf ''ipv6-unicast'' pfx nh labels del"
  have new: "store_look st ''openconfig'' q = Some v"
    if "store_look (apply_effs st ?es) ''openconfig'' q = Some v" "path_match (gp_elem aftQuery) q" for q v
    using that
    by (auto simp: route_effects_def Let_def look_apply_upd look_apply_del aftPath_v6 split: if_splits option.splits)
  have tbl: "aft_table (apply_effs st ?es) (vrf', ipv4, p) = aft_table st (vrf', ipv4, p)" for vrf' p
    unfolding aft_table_effects by (simp add: ipv4_def)
  show ?thesis using assms new unfolding aft_shaped_def tbl by blast
qed

lemma zebra_msg_shaped:
  assumes "zebra_wf m" "canon_msg m" "handleNetlink ll (zebra_msg m) f = Some (f', es)" "aft_shaped st"
  shows "aft_shaped (apply_effs st es)"
proof (cases m)
  case (Route del r)
  then have wf: "route_wf r" using assms(1) by simp
  obtain bh gw push where "handleRoute ll (enc_route del r) del f =
      Some (f\<lparr>f_vrf := snd (vrf_Name ll (route_table r) (f_vrf f))\<rparr>,
        (let (pfx, af) = formatPrefix (r_family r) (ra_dst (route_acc r)) (r_plen r)
         in route_effects (fst (vrf_Name ll (route_table r) (f_vrf f))) af pfx (nh_text bh gw) push del))"
    by (rule handleRoute_effects [OF wf, where f = f and ll = ll and del = del])
  moreover have "handleNetlink ll (zebra_msg m) f = handleRoute ll (enc_route del r) del f"
    using Route by (cases del) (simp_all add: enc_route_def handleNetlink_msg)
  ultimately have es: "es = (let (pfx, af) = formatPrefix (r_family r) (ra_dst (route_acc r)) (r_plen r)
      in route_effects (fst (vrf_Name ll (route_table r) (f_vrf f))) af pfx (nh_text bh gw) push del)"
    using assms(3) by simp
  from wf have "r_family r = 2 \<or> r_family r = 10" by (simp add: route_wf_def)
  then show ?thesis
  proof
    assume 2: "r_family r = 2"
    with assms(2) Route have "net_ok (v4_net r) (unat (r_plen r))" by simp
    from route_effects_shaped [OF assms(4) this nh_text_not_Nil] show ?thesis
      unfolding es 2 formatPrefix_v4 by simp
  next
    assume 10: "r_family r = 10"
    obtain pfx where "formatPrefix 10 (ra_dst (route_acc r)) (r_plen r) = (pfx, ''ipv6-unicast'')"
      using formatPrefix_v6 [of "ra_dst (route_acc r)" "r_plen r"] by (metis prod.collapse)
    then show ?thesis unfolding es 10 using route_effects_v6_shaped [OF assms(4)] by simp
  qed
qed (use assms handleNetlink_nexthop in auto)

lemma fpm_seq_shaped:
  assumes "list_all (zebra_wf \<circ> snd) ins" "list_all (canon_msg \<circ> snd) ins"
    and "fpm_seq (map (\<lambda>(ll, m). (ll, zebra_msg m)) ins) f0 = Some (f, es)" "aft_shaped st"
  shows "aft_shaped (apply_effs st es)"
  using assms(1-3)
proof (induction ins arbitrary: f es rule: rev_induct)
  case (snoc x ins)
  obtain ll m where x: "x = (ll, m)" by force
  from snoc.prems(3) obtain f1 es1 es2 where
    1: "fpm_seq (map (\<lambda>(ll, m). (ll, zebra_msg m)) ins) f0 = Some (f1, es1)"
    and 2: "handleNetlink ll (zebra_msg m) f1 = Some (f, es2)" "es = es1 @ es2"
    by (auto simp: x bind_eq_Some_conv)
  have wf: "list_all (zebra_wf \<circ> snd) ins" "zebra_wf m" "list_all (canon_msg \<circ> snd) ins" "canon_msg m"
    using snoc.prems(1,2) x by (simp_all add: comp_def)
  from zebra_msg_shaped [OF wf(2,4) 2(1) snoc.IH [OF wf(1,3) 1]] show ?case unfolding 2(2) by simp
qed (use assms(4) in simp)

lemma owner_aft: "path_match (gp_elem aftQuery) q \<Longrightarrow> owner ''openconfig'' q = Some AFpm"
  by (auto simp: aftQuery_def owner_def elim!: path_match.elims)

lemma aft_shaped_reach:
  assumes "co_reach target s" and "co_todo s (RFpm 0) = []"
    and "co_frames s = map (\<lambda>(ll, m). (0, ll, zebra_msg m)) ins"
    and "list_all (zebra_wf \<circ> snd) ins" "list_all (canon_msg \<circ> snd) ins"
  shows "aft_shaped (co_store s)"
proof -
  let ?st = "apply_effs (\<lambda>_. None) (calls_of AFpm (co_log s))"
  obtain ll where
    seq: "fpm_seq (map (\<lambda>(ll, m). (ll, zebra_msg m)) ins) (NewFPM ll) = Some (co_fpm s, calls_of AFpm (co_log s))"
    by (rule fpm_stream_calls [OF assms(1-3)])
  from fpm_seq_shaped [OF assms(4,5) seq empty_shaped(1)] have shaped: "aft_shaped ?st" .
  note look = look_calls [OF calls_ok_reach [OF assms(1)], of "''openconfig''"]
  have tbl: "aft_table (co_store s) = aft_table ?st" by (simp add: aft_table_def look)
  have match: "store_look (co_store s) ''openconfig'' q = store_look ?st ''openconfig'' q"
    if "path_match (gp_elem aftQuery) q" for q
    using owner_aft [OF that] by (simp add: look)
  show ?thesis using shaped unfolding aft_shaped_def tbl by (metis match)
qed

section \<open>The trace\<close>

text \<open>
  C1: end to end, a path trace follows the tables of running collectors. Let every node run a collector
  that has been fed any stream of routes and nexthop objects by its zebra and any answers by its
  kernel, all its goroutines interleaved as they please, and let it answer Get from its cache. When
  the calls for the stream are made and no prefix is in two VRFs of a node, a trace for an address
  reports it as reached exactly when, in at most 23 hops, longest-prefix-match and label switching
  over the nodes' caches carry a packet from the start node to the node that has the address, in
  whatever order the nodes answer and the exporter's map is visited.
\<close>

theorem trace_follows_collectors:
  assumes "\<And>n. co_reach n (node n)" and "\<And>n. co_todo (node n) (RFpm 0) = []"
    and "\<And>n. co_frames (node n) = map (\<lambda>(ll, msg). (0, ll, zebra_msg msg)) (ins n)"
    and "\<And>n. list_all (zebra_wf \<circ> snd) (ins n)" and "\<And>n. list_all (canon_msg \<circ> snd) (ins n)"
    and "\<And>n. one_vrf (co_store (node n))"
    and "\<And>n. answers_of (co_store (node n)) aftQuery (ask n aftQuery)"
    and "\<And>n lab. lab \<noteq> ''*'' \<Longrightarrow> answers_of (co_store (node n)) (lfibQuery lab) (ask n (lfibQuery lab))"
    and "\<And>l. mset (rng l) = mset l" and "length a = 4"
  shows "snd (trace_path rng (\<lambda>_. ask) m start (dotted a)) \<longleftrightarrow>
    (\<exists>k < 24. ((\<lambda>c c'. c \<noteq> dest_of m (dotted a) \<and> net_fwd (\<lambda>n. co_store (node n)) m a c c') ^^ k)
       (start, []) (dest_of m (dotted a)))"
proof (rule trace_follows_caches [OF _ assms(9,10)])
  show "served (\<lambda>n. co_store (node n)) ask"
    unfolding served_def
    using aft_shaped_reach [OF assms(1-5)] lfib_shaped_reach [OF assms(1)] assms(6-8) by blast
qed

text \<open>The sample network of \<open>Network\<close> as two collectors: zebra sends the route to \<^verbatim>\<open>pe1\<close>, and the kernel of
  \<^verbatim>\<open>pe2\<close> lists the label in its first snapshot.\<close>

definition pe1_route :: route where
  "pe1_route = \<lparr>r_family = 2, r_plen = 24, r_table8 = 0, r_kind = 1,
     r_items = [RtTable 100, RtDst [10, 9, 0, 0], RtGw [10, 0, 0, 2], RtOif 3, RtEncapType 1,
       RtEncap [(18, 0, 64)]]\<rparr>"

definition pe1_links :: link_list where
  "pe1_links = Some [VrfLink 100 ''cust'']"

definition pe2_kernel :: kernel where
  "pe2_kernel = run_kernel\<lparr>k_links := Some [], k_routes := Some [\<lparr>mr_dst = Some 18, mr_newdst = None,
     mr_via = [], mr_gw = [], mr_link = 5\<rparr>], k_by_index := (\<lambda>_. Some ''cust'')\<rparr>"

lemma pe2_snapshot: "snapshot pe2_kernel = pe2_effs"
  by (simp add: pe2_kernel_def snapshot_def run_kernel_def sampleCounters_def snapshotFDB_def snapshotMPLS_def
      snapshotAddrs_def pe2_effs_def)

lemma pe1_wf: "route_wf pe1_route" "canon_msg (Route False pe1_route)"
  using demo_net_ok by (simp_all add: pe1_route_def route_wf_def v4_net_def route_acc_def to4_def)

lemma pe1_message: "\<exists>f. handleNetlink pe1_links (zebra_msg (Route False pe1_route)) (NewFPM pe1_links) = Some (f, pe1_effs)"
proof -
  let ?f = "NewFPM pe1_links" and ?r = pe1_route
  obtain bh gw push where entry: "route_entry ?f ?r = aft_entry (nh_text bh gw) push"
    and eq: "handleRoute pe1_links (enc_route False ?r) False ?f =
      Some (?f\<lparr>f_vrf := snd (vrf_Name pe1_links (route_table ?r) (f_vrf ?f))\<rparr>,
        (let (pfx, af) = formatPrefix (r_family ?r) (ra_dst (route_acc ?r)) (r_plen ?r)
         in route_effects (fst (vrf_Name pe1_links (route_table ?r) (f_vrf ?f))) af pfx (nh_text bh gw) push False))"
    by (rule handleRoute_effects [OF pe1_wf(1), where f = ?f and ll = pe1_links and del = False])
  have "route_entry ?f ?r = (Some (StringVal ''10.0.0.2''), Some (StringVal ''18''))"
    by (simp add: route_entry_def route_acc_def pe1_route_def aft_entry_def ip_string_4 dotted_def dec_eval Let_def)
  with entry have nh: "nh_text bh gw = ''10.0.0.2''" "push \<noteq> []" "labelsCSV push = ''18''"
    by (auto simp: aft_entry_def labelsCSV_join split: if_splits)
  have vrf: "fst (vrf_Name pe1_links (route_table ?r) (f_vrf ?f)) = ''cust''"
    by (simp add: pe1_links_def pe1_route_def route_table_def route_acc_def) code_simp
  have pfx: "formatPrefix (r_family ?r) (ra_dst (route_acc ?r)) (r_plen ?r) = (net_text [10, 9, 0, 0] 24, ipv4)"
    using formatPrefix_v4 [of ?r] by (simp add: pe1_route_def v4_net_def route_acc_def to4_def)
  have "route_effects ''cust'' ipv4 p ''10.0.0.2'' push False = route_effects ''cust'' ipv4 p ''10.0.0.2'' [18] False" for p
    using nh(2,3) by (simp add: route_effects_def labelsCSV_join dec_eval)
  with eq pfx vrf nh(1) show ?thesis
    by (simp add: enc_route_def handleNetlink_msg pe1_effs_def)
qed

lemma demo_collectors:
  "\<exists>node ins. \<forall>n. co_reach n (node n) \<and> co_todo (node n) (RFpm 0) = [] \<and>
    co_frames (node n) = map (\<lambda>(ll, msg). (0, ll, zebra_msg msg)) (ins n) \<and>
    list_all (zebra_wf \<circ> snd) (ins n) \<and> list_all (canon_msg \<circ> snd) (ins n) \<and>
    co_store (node n) = demo_cache n"
proof -
  let ?m = "Route False pe1_route"
  define ins where "ins n = (if n = ''pe1'' then [(pe1_links, ?m)] else [])" for n :: string
  have ins: "list_all (zebra_wf \<circ> snd) (ins n)" "list_all (canon_msg \<circ> snd) (ins n)" for n
    using pe1_wf by (simp_all add: ins_def del: canon_msg.simps)
  have "\<exists>s. co_reach n s \<and> co_todo s (RFpm 0) = [] \<and>
      co_frames s = map (\<lambda>(ll, msg). (0, ll, zebra_msg msg)) (ins n) \<and> co_store s = demo_cache n" for n
  proof -
    consider "n = ''pe1''" | "n = ''pe2''" | "n \<noteq> ''pe1''" "n \<noteq> ''pe2''" by blast
    then show ?thesis
    proof cases
      case 1
      let ?s0 = "co_start n pe1_links pe1_links run_kernel 0"
      obtain f where "handleNetlink pe1_links (zebra_msg ?m) (co_fpm ?s0) = Some (f, pe1_effs)"
        using pe1_message by (auto simp: co_start_def simp del: zebra_msg.simps)
      moreover have "co_todo ?s0 (RFpm 0) = []" by (simp add: co_start_def)
      ultimately have "co_reach n (todo (RFpm 0) pe1_effs (?s0\<lparr>co_fpm := f,
          co_frames := co_frames ?s0 @ [(0, pe1_links, zebra_msg ?m)]\<rparr>))"
        by (intro co_reach.step [OF co_reach.start co_step.fpm])
      from drain_reach [OF this, of "RFpm 0"] 1 show ?thesis
        by (force simp: co_start_def ins_def demo_cache_def)
    next
      case 2
      from drain_reach [OF co_reach.start [of n pe1_links pe1_links pe2_kernel 0], of RCounters] 2 show ?thesis
        by (force simp: co_start_def ins_def demo_cache_def pe2_snapshot)
    next
      case 3
      then show ?thesis
        using co_reach.start [of n None None run_kernel 0]
        by (intro exI [of _ "co_start n None None run_kernel 0"])
           (simp add: co_start_def ins_def demo_cache_def)
    qed
  qed
  then obtain node where "\<forall>n. co_reach n (node n) \<and> co_todo (node n) (RFpm 0) = [] \<and>
      co_frames (node n) = map (\<lambda>(ll, msg). (0, ll, zebra_msg msg)) (ins n) \<and> co_store (node n) = demo_cache n"
    by metis
  with ins show ?thesis by blast
qed

theorem trace_follows_collectors_witness:
  "snd (trace_path id (\<lambda>_ n. serve (demo_leaves n)) demo_map ''pe1'' ''10.9.0.1'')"
proof -
  obtain node ins where s: "\<And>n. co_reach n (node n)" "\<And>n. co_todo (node n) (RFpm 0) = []"
    "\<And>n. co_frames (node n) = map (\<lambda>(ll, msg). (0, ll, zebra_msg msg)) (ins n)"
    "\<And>n. list_all (zebra_wf \<circ> snd) (ins n)" "\<And>n. list_all (canon_msg \<circ> snd) (ins n)"
    and store: "\<And>n. co_store (node n) = demo_cache n" using demo_collectors by blast
  have a: "dotted [10, 9, 0, 1] = ''10.9.0.1''" by (simp add: dotted_def dec_eval)
  have "answers_of (co_store (node n)) aftQuery (serve (demo_leaves n) aftQuery)" "one_vrf (co_store (node n))" for n
    using demo_served by (simp_all add: served_def store)
  moreover have "answers_of (co_store (node n)) (lfibQuery lab) (serve (demo_leaves n) (lfibQuery lab))"
    if "lab \<noteq> ''*''" for n lab
    using demo_served that by (simp add: served_def store)
  ultimately have "snd (trace_path id (\<lambda>_ n. serve (demo_leaves n)) demo_map ''pe1'' (dotted [10, 9, 0, 1])) \<longleftrightarrow>
    (\<exists>k < 24. ((\<lambda>c c'. c \<noteq> dest_of demo_map (dotted [10, 9, 0, 1]) \<and>
        net_fwd (\<lambda>n. co_store (node n)) demo_map [10, 9, 0, 1] c c') ^^ k)
       (''pe1'', []) (dest_of demo_map (dotted [10, 9, 0, 1])))"
    by (intro trace_follows_collectors [OF s]) simp_all
  with demo_walk show ?thesis by (simp add: store a)
qed

end
