(* ===== verification/Config.thy ===== *)
theory Config
  imports Aggregate Pathtrace
begin

text \<open>
  The settings of the three exporters: what their \<^verbatim>\<open>main\<close> functions make of the environment. The
  environment is a function from names to text, empty for an unset variable as \<^verbatim>\<open>os.Getenv\<close> has it;
  \<^const>\<open>None\<close> is the exit by \<^verbatim>\<open>log.Fatal\<close>. Times are nanoseconds.

  \<open>parse_duration\<close> is \<^verbatim>\<open>time.ParseDuration\<close> of Go's standard library, with its overflow checks. The one
  floating point product in it, of a decimal fraction and its unit, is the argument \<open>fm\<close>.
\<close>

section \<open>Durations\<close>

definition unit_map :: "(string \<times> nat) list" where
  "unit_map =
     [(''ns'', 1), (''us'', 1000), ([CHR 0xC2, CHR 0xB5, CHR ''s''], 1000),
      ([CHR 0xCE, CHR 0xBC, CHR ''s''], 1000), (''ms'', 1000000), (''s'', 1000000000),
      (''m'', 60000000000), (''h'', 3600000000000)]"

text \<open>\<^verbatim>\<open>leadingInt\<close>: the digits at the start; \<^const>\<open>None\<close> if they overflow.\<close>

fun leading_int :: "nat \<Rightarrow> string \<Rightarrow> (nat \<times> string) option" where
  "leading_int x [] = Some (x, [])"
| "leading_int x (c # s) =
     (if is_digit c then
        (if 2 ^ 63 div 10 < x then None
         else let y = x * 10 + digit_val c in if 2 ^ 63 < y then None else leading_int y s)
      else Some (x, c # s))"

text \<open>\<^verbatim>\<open>leadingFraction\<close>: the digits after the point and their scale; digits that overflow are skipped.\<close>

fun leading_fraction :: "bool \<Rightarrow> nat \<Rightarrow> nat \<Rightarrow> string \<Rightarrow> nat \<times> nat \<times> string" where
  "leading_fraction ov x scale [] = (x, scale, [])"
| "leading_fraction ov x scale (c # s) =
     (if is_digit c then
        (if ov then leading_fraction True x scale s
         else if (2 ^ 63 - 1) div 10 < x then leading_fraction True x scale s
         else let y = x * 10 + digit_val c
              in if 2 ^ 63 < y then leading_fraction True x scale s
                 else leading_fraction False y (scale * 10) s)
      else (x, scale, c # s))"

definition dur_char :: "char \<Rightarrow> bool" where
  "dur_char c \<longleftrightarrow> c = CHR ''.'' \<or> is_digit c"

type_synonym frac_mult = "nat \<Rightarrow> nat \<Rightarrow> nat \<Rightarrow> nat"

text \<open>One number with its unit, and the rest of the text.\<close>

definition dur_part :: "frac_mult \<Rightarrow> string \<Rightarrow> (nat \<times> string) option" where
  "dur_part fm s =
     (if s = [] \<or> \<not> dur_char (hd s) then None
      else do {
        (v, s1) \<leftarrow> leading_int 0 s;
        let (f, scale, s2, post) =
          (if s1 \<noteq> [] \<and> hd s1 = CHR ''.''
           then let (f, scale, s2) = leading_fraction False 0 1 (tl s1) in (f, scale, s2, length s2 \<noteq> length (tl s1))
           else (0, 1, s1, False));
        if length s1 = length s \<and> \<not> post then None
        else do {
          let u = takeWhile (\<lambda>c. \<not> dur_char c) s2;
          unit \<leftarrow> (if u = [] then None else map_of unit_map u);
          if 2 ^ 63 div unit < v then None
          else let w = v * unit + (if 0 < f then fm f unit scale else 0)
               in if 0 < f \<and> 2 ^ 63 < w then None else Some (w, dropWhile (\<lambda>c. \<not> dur_char c) s2) } })"

lemma leading_int_length: "leading_int x s = Some (v, r) \<Longrightarrow> length r \<le> length s"
  by (induction x s rule: leading_int.induct) (auto simp: Let_def split: if_splits)

lemma leading_fraction_length: "leading_fraction ov x sc s = (f, sc', r) \<Longrightarrow> length r \<le> length s"
  by (induction ov x sc s rule: leading_fraction.induct) (auto simp: Let_def split: if_splits)

lemma dur_part_shorter: "dur_part fm s = Some (w, r) \<Longrightarrow> length r < length s"
proof -
  have drop: "length (dropWhile p xs) < length xs" if "takeWhile p xs \<noteq> []" for p and xs :: string
    using that by (cases xs) (auto simp: length_dropWhile_le le_imp_less_Suc split: if_splits)
  assume "dur_part fm s = Some (w, r)"
  then obtain v s1 s2 where "leading_int 0 s = Some (v, s1)" "takeWhile (\<lambda>c. \<not> dur_char c) s2 \<noteq> []"
      "r = dropWhile (\<lambda>c. \<not> dur_char c) s2" "length s2 \<le> length s1"
    by (auto simp: dur_part_def bind_eq_Some_conv Let_def split: if_splits prod.splits
        dest!: leading_fraction_length)
  with leading_int_length [of 0 s v s1] drop [of "\<lambda>c. \<not> dur_char c" s2] show ?thesis by simp
qed

text \<open>The sum is an unsigned 64-bit number.\<close>

function dur_loop :: "frac_mult \<Rightarrow> nat \<Rightarrow> string \<Rightarrow> nat option" where
  "dur_loop fm d s =
     (if s = [] then Some d
      else case dur_part fm s of
             None \<Rightarrow> None
           | Some (w, r) \<Rightarrow> (let d' = (d + w) mod 2 ^ 64 in if 2 ^ 63 < d' then None else dur_loop fm d' r))"
  by pat_completeness auto
termination
  by (relation "measure (\<lambda>(fm, d, s). length s)") (auto simp: dur_part_shorter)

declare dur_loop.simps [simp del]

definition parse_duration :: "frac_mult \<Rightarrow> string \<Rightarrow> int option" where
  "parse_duration fm s =
     (let signed = s \<noteq> [] \<and> (hd s = CHR ''-'' \<or> hd s = CHR ''+'');
          neg = signed \<and> hd s = CHR ''-'';
          s = (if signed then tl s else s)
      in if s = ''0'' then Some 0
         else if s = [] then None
         else do {
           d \<leftarrow> dur_loop fm 0 s;
           if neg then Some (- int d) else if 2 ^ 63 - 1 < d then None else Some (int d) })"


section \<open>The settings\<close>

type_synonym env = "string \<Rightarrow> string"

definition env_duration :: "frac_mult \<Rightarrow> env \<Rightarrow> string \<Rightarrow> int \<Rightarrow> int" where
  "env_duration fm env name dflt =
     (let v = env name
      in if v \<noteq> '''' then (case parse_duration fm v of Some d \<Rightarrow> d | None \<Rightarrow> dflt) else dflt)"

definition env_text :: "env \<Rightarrow> string \<Rightarrow> string \<Rightarrow> string" where
  "env_text env name dflt = (let v = env name in if v \<noteq> '''' then v else dflt)"

record topo_settings =
  ts_inventory :: "(string, string) gomap"
  ts_interval :: int
  ts_listen :: string

definition topo_main :: "frac_mult \<Rightarrow> env \<Rightarrow> topo_settings option" where
  "topo_main fm env =
     (let inv = parseInventory (env ''INVENTORY'');
          interval = env_duration fm env ''INTERVAL'' (15 * 1000000000);
          listen = env_text env ''LISTEN'' '':9810''
      in if length inv = 0 then None
         else Some \<lparr>ts_inventory = inv, ts_interval = interval, ts_listen = listen\<rparr>)"

record pt_settings =
  ps_inventory :: "(string, string) gomap"
  ps_flows :: "flow list"
  ps_interval :: int
  ps_listen :: string

definition pt_main :: "(flow list \<Rightarrow> flow list) \<Rightarrow> frac_mult \<Rightarrow> env \<Rightarrow> pt_settings option" where
  "pt_main srt fm env =
     (let inv = pt_parseInventory (env ''INVENTORY'');
          flows = parseFlows srt (env ''FLOWS'');
          interval = env_duration fm env ''INTERVAL'' (15 * 1000000000);
          listen = env_text env ''LISTEN'' '':9808''
      in if length inv = 0 \<or> length flows = 0 then None
         else Some \<lparr>ps_inventory = inv, ps_flows = flows, ps_interval = interval, ps_listen = listen\<rparr>)"

record agg_settings =
  as_inventory :: "(string, string) gomap"
  as_window :: int
  as_interval :: int
  as_listen :: string
  as_zipkinURL :: string

definition agg_main :: "frac_mult \<Rightarrow> env \<Rightarrow> agg_settings option" where
  "agg_main fm env =
     (let inv = agg_parseInventory (env ''INVENTORY'');
          window = env_duration fm env ''WINDOW'' (1500 * 1000000);
          interval = env_duration fm env ''INTERVAL'' (3 * 1000000000);
          listen = env_text env ''LISTEN'' '':9341'';
          zipkinURL = env ''TEMPO_ZIPKIN''
      in if length inv = 0 then None
         else Some \<lparr>as_inventory = inv, as_window = window, as_interval = interval, as_listen = listen,
                as_zipkinURL = zipkinURL\<rparr>)"

end
