(* ===== verification/Config_Props.thy ===== *)
theory Config_Props
  imports Config
begin

text \<open>
  What an operator writes into the environment is what the exporters run with: durations, inventory
  and flows are read back from their text.
\<close>

section \<open>Durations\<close>

lemma leading_int_digit:
  "is_digit c \<Longrightarrow> leading_int x (c # s) =
    (if 2 ^ 63 < 10 * x + digit_val c then None else leading_int (10 * x + digit_val c) s)"
  by (auto simp: Let_def mult.commute)

lemma foldl_digits_mono: "x \<le> foldl (\<lambda>n c. 10 * n + digit_val c) x ds"
proof (induction ds arbitrary: x)
  case (Cons c ds)
  have "x \<le> 10 * x + digit_val c" by simp
  also note Cons.IH
  finally show ?case by simp
qed simp

lemma leading_int_digits:
  assumes "list_all is_digit ds" "r = [] \<or> \<not> is_digit (hd r)" "x \<le> 2 ^ 63"
  shows "leading_int x (ds @ r) =
    (let y = foldl (\<lambda>n c. 10 * n + digit_val c) x ds in if y \<le> 2 ^ 63 then Some (y, r) else None)"
  using assms
proof (induction ds arbitrary: x)
  case Nil
  then show ?case by (cases r) auto
next
  case (Cons c ds)
  show ?case
  proof (cases "10 * x + digit_val c \<le> 2 ^ 63")
    case True
    with Cons show ?thesis by (simp add: leading_int_digit del: leading_int.simps)
  next
    case False
    with foldl_digits_mono [of "10 * x + digit_val c" ds] Cons.prems show ?thesis
      by (simp add: leading_int_digit del: leading_int.simps)
  qed
qed

lemma leading_int_dec:
  "r = [] \<or> \<not> is_digit (hd r) \<Longrightarrow> leading_int 0 (dec n @ r) = (if n \<le> 2 ^ 63 then Some (n, r) else None)"
  using dec_val_dec [of n] by (simp add: leading_int_digits dec_val_def)

lemma unit_map_ok:
  assumes "map_of unit_map u = Some k"
  shows "u \<noteq> []" "\<forall>c \<in> set u. \<not> dur_char c" "0 < k"
  using assms by (auto simp: unit_map_def dur_char_def is_digit_def split: if_splits)

lemma takeWhile_part:
  assumes "\<forall>c \<in> set u. \<not> dur_char c" "rest = [] \<or> dur_char (hd rest)"
  shows "takeWhile (\<lambda>c. \<not> dur_char c) (u @ rest) = u" "dropWhile (\<lambda>c. \<not> dur_char c) (u @ rest) = rest"
proof -
  from assms have "takeWhile (\<lambda>c. \<not> dur_char c) (u @ rest) = u @ takeWhile (\<lambda>c. \<not> dur_char c) rest"
      "dropWhile (\<lambda>c. \<not> dur_char c) (u @ rest) = dropWhile (\<lambda>c. \<not> dur_char c) rest"
    by (auto simp: takeWhile_append2 dropWhile_append2)
  with assms(2) show "takeWhile (\<lambda>c. \<not> dur_char c) (u @ rest) = u"
      "dropWhile (\<lambda>c. \<not> dur_char c) (u @ rest) = rest"
    by (cases rest; simp)+
qed

lemma dur_part_dec:
  assumes "map_of unit_map u = Some k" "rest = [] \<or> dur_char (hd rest)"
  shows "dur_part fm (dec n @ u @ rest) = (if n * k \<le> 2 ^ 63 then Some (n * k, rest) else None)"
proof -
  note u = unit_map_ok [OF assms(1)]
  have hd: "\<not> is_digit (hd (u @ rest))" "hd (u @ rest) \<noteq> CHR ''.''" "u @ rest \<noteq> []"
    using u(1,2) by (cases u; simp add: dur_char_def)+
  have start: "dec n @ u @ rest \<noteq> []" "dur_char (hd (dec n @ u @ rest))"
    using dec_digits [of "hd (dec n)" n] by (simp_all add: dur_char_def)
  have le: "n \<le> 2 ^ 63 div k \<longleftrightarrow> n * k \<le> 2 ^ 63" using u(3) by (simp add: less_eq_div_iff_mult_less_eq)
  have le': "n * k \<le> 2 ^ 63 \<Longrightarrow> n \<le> 2 ^ 63"
    using u(3) by (metis le_trans mult.right_neutral mult_le_mono2 Suc_leI One_nat_def)
  have int: "leading_int 0 (dec n @ u @ rest) = (if n \<le> 2 ^ 63 then Some (n, u @ rest) else None)"
    using hd(1) by (intro leading_int_dec) simp
  show ?thesis
  proof (cases "n \<le> 2 ^ 63")
    case True
    with start int hd show ?thesis
      by (simp add: dur_part_def takeWhile_part [OF u(2) assms(2)] u(1) assms(1) not_less [symmetric])
         (use le in auto)
  next
    case False
    with start int le' show ?thesis by (auto simp: dur_part_def)
  qed
qed

text \<open>A duration as it is written: numbers with their units.\<close>

definition dur_text :: "(nat \<times> string) list \<Rightarrow> string" where
  "dur_text ts = concat (map (\<lambda>(n, u). dec n @ u) ts)"

definition unit_ns :: "string \<Rightarrow> nat" where
  "unit_ns u = (case map_of unit_map u of Some k \<Rightarrow> k | None \<Rightarrow> 0)"

definition dur_val :: "(nat \<times> string) list \<Rightarrow> nat" where
  "dur_val ts = sum_list (map (\<lambda>(n, u). n * unit_ns u) ts)"

text \<open>No number stands for exactly 2^63 nanoseconds (two of them wrap to nothing in \<^verbatim>\<open>ParseDuration\<close>).\<close>

definition dur_ok :: "(nat \<times> string) list \<Rightarrow> bool" where
  "dur_ok ts \<longleftrightarrow> list_all (\<lambda>(n, u). map_of unit_map u \<noteq> None \<and> n * unit_ns u \<noteq> 2 ^ 63) ts"

lemma dur_text_hd: "dur_text ts = [] \<or> is_digit (hd (dur_text ts))"
proof (cases ts)
  case (Cons t ts')
  then show ?thesis using dec_digits [of "hd (dec (fst t))" "fst t"] by (simp add: dur_text_def split_beta)
qed (simp add: dur_text_def)

lemma dur_loop_text:
  "dur_ok ts \<Longrightarrow> d \<le> 2 ^ 63 \<Longrightarrow>
    dur_loop fm d (dur_text ts) = (if d + dur_val ts \<le> 2 ^ 63 then Some (d + dur_val ts) else None)"
proof (induction ts arbitrary: d)
  case Nil
  then show ?case by (simp add: dur_loop.simps dur_text_def dur_val_def)
next
  case (Cons t ts)
  obtain n u where t: "t = (n, u)" by force
  from Cons.prems obtain k where k: "map_of unit_map u = Some k" "n * k \<noteq> 2 ^ 63"
    by (auto simp: dur_ok_def t unit_ns_def)
  have written: "dur_text (t # ts) = dec n @ u @ dur_text ts" by (simp add: dur_text_def t)
  have val: "dur_val (t # ts) = n * k + dur_val ts" by (simp add: dur_val_def t unit_ns_def k(1))
  have ok: "dur_ok ts" using Cons.prems(1) by (simp add: dur_ok_def)
  have part: "dur_part fm (dur_text (t # ts)) = (if n * k \<le> 2 ^ 63 then Some (n * k, dur_text ts) else None)"
    unfolding written using dur_text_hd [of ts] by (intro dur_part_dec [OF k(1)]) (auto simp: dur_char_def)
  have ne: "dur_text (t # ts) \<noteq> []" by (simp add: written)
  show ?case
  proof (cases "n * k \<le> 2 ^ 63")
    case True
    with Cons.prems(2) k(2) have "(d + n * k) mod 2 ^ 64 = d + n * k" by simp
    with ne part True have "dur_loop fm d (dur_text (t # ts)) =
        (if 2 ^ 63 < d + n * k then None else dur_loop fm (d + n * k) (dur_text ts))"
      by (subst dur_loop.simps) (simp add: Let_def)
    then show ?thesis using Cons.IH [OF ok, of "d + n * k"] by (auto simp: val add.assoc)
  next
    case False
    with ne part have "dur_loop fm d (dur_text (t # ts)) = None" by (subst dur_loop.simps) simp
    with False show ?thesis by (simp add: val)
  qed
qed

lemma parse_duration_text:
  assumes "dur_ok ts" "ts \<noteq> []"
  shows "parse_duration fm (dur_text ts) = (if dur_val ts < 2 ^ 63 then Some (int (dur_val ts)) else None)"
    and "parse_duration fm (CHR ''-'' # dur_text ts) = (if dur_val ts \<le> 2 ^ 63 then Some (- int (dur_val ts)) else None)"
proof -
  obtain n u ts' where ts: "ts = (n, u) # ts'" using assms(2) by (cases ts) auto
  from assms(1) obtain k where "map_of unit_map u = Some k"
    by (auto simp: dur_ok_def ts)
  note u = unit_map_ok [OF this]
  have ne: "dur_text ts \<noteq> []" by (simp add: dur_text_def ts)
  with dur_text_hd [of ts] have "is_digit (hd (dur_text ts))" by simp
  then have sign: "hd (dur_text ts) \<noteq> CHR ''-''" "hd (dur_text ts) \<noteq> CHR ''+''" by (auto simp: is_digit_def)
  have "hd u \<in> set (dur_text ts)" using u(1) by (simp add: dur_text_def ts)
  moreover have "\<not> dur_char (hd u)" using u(1,2) by simp
  ultimately have zero: "dur_text ts \<noteq> ''0''" by (auto simp: dur_char_def is_digit_def)
  note loop = dur_loop_text [OF assms(1), of 0 fm]
  show "parse_duration fm (dur_text ts) = (if dur_val ts < 2 ^ 63 then Some (int (dur_val ts)) else None)"
    using ne sign zero loop by (auto simp: parse_duration_def Let_def)
  show "parse_duration fm (CHR ''-'' # dur_text ts) = (if dur_val ts \<le> 2 ^ 63 then Some (- int (dur_val ts)) else None)"
    using ne zero loop by (auto simp: parse_duration_def Let_def)
qed

text \<open>A number without a unit is not a duration, so that the default stays.\<close>

lemma parse_duration_no_unit: "n \<noteq> 0 \<Longrightarrow> parse_duration fm (dec n) = None"
proof -
  assume "n \<noteq> 0"
  have "dec 0 = ''0''" by (simp add: dec_eval)
  with \<open>n \<noteq> 0\<close> have "dec n \<noteq> ''0''" by (metis dec_inj)
  moreover have "hd (dec n) \<noteq> CHR ''-''" "hd (dec n) \<noteq> CHR ''+''"
    using dec_digits [of "hd (dec n)" n] by (auto simp: is_digit_def)
  moreover have "dur_part fm (dec n) = None"
    using leading_int_dec [of "[]" n] by (auto simp: dur_part_def Let_def)
  then have "dur_loop fm 0 (dec n) = None" by (subst dur_loop.simps) simp
  ultimately show ?thesis by (simp add: parse_duration_def Let_def)
qed

section \<open>Flows\<close>

definition flow_text :: "flow \<Rightarrow> string" where
  "flow_text f = fl_name f @ '':'' @ fl_start f @ ''>'' @ fl_dst f"

definition flow_ok :: "flow \<Rightarrow> bool" where
  "flow_ok f \<longleftrightarrow>
     fl_name f \<noteq> [] \<and> fl_start f \<noteq> [] \<and> fl_dst f \<noteq> [] \<and> CHR '':'' \<notin> set (fl_name f) \<and>
     CHR ''>'' \<notin> set (fl_start f) \<and> CHR '','' \<notin> set (flow_text f) \<and>
     \<not> is_space (hd (fl_name f)) \<and> \<not> is_space (last (fl_dst f))"

lemma parse_flow_text:
  assumes "flow_ok f"
  shows "parse_flow (trim_space (flow_text f)) = Some f" "trim_space (flow_text f) \<noteq> []"
proof -
  have trim: "trim_space (flow_text f) = flow_text f"
    unfolding trim_space_def using assms by (intro trim_by_id) (auto simp: flow_ok_def flow_text_def)
  have "index_byte (flow_text f) CHR '':'' = Some (length (fl_name f))"
      "index_byte (fl_start f @ ''>'' @ fl_dst f) CHR ''>'' = Some (length (fl_start f))"
    using assms by (simp_all add: flow_ok_def flow_text_def index_byte_append)
  with assms show "parse_flow (trim_space (flow_text f)) = Some f"
    unfolding trim by (cases f) (auto simp: parse_flow_def flow_ok_def flow_text_def)
  show "trim_space (flow_text f) \<noteq> []" unfolding trim using assms by (simp add: flow_text_def)
qed

lemma parseFlows_print:
  assumes "list_all flow_ok fs" "fs \<noteq> []"
  shows "parseFlows srt (join '','' (map flow_text fs)) = srt fs"
proof -
  have "split_on CHR '','' (join '','' (map flow_text fs)) = map flow_text fs"
    using assms by (intro split_join) (auto simp: list_all_iff flow_ok_def)
  moreover have "foldl (\<lambda>fs spec. let spec = trim_space spec in if spec = '''' then fs
        else case parse_flow spec of None \<Rightarrow> fs | Some f \<Rightarrow> fs @ [f]) gs (map flow_text fs) = gs @ fs" for gs
    using assms(1)
  proof (induction fs arbitrary: gs)
    case (Cons f fs)
    then show ?case using parse_flow_text [of f] by (simp add: Let_def)
  qed simp
  ultimately show ?thesis by (simp add: parseFlows_def)
qed


section \<open>The settings\<close>

definition inv_text :: "(string \<times> string) list \<Rightarrow> string" where
  "inv_text es = join '','' (map (\<lambda>(n, a). n @ ''='' @ a) es)"

definition inv_of :: "(string \<times> string) list \<Rightarrow> (string, string) gomap" where
  "inv_of es = foldl (\<lambda>m (n, a). map_put n a m) [] es"

definition dur_of :: "int \<Rightarrow> (nat \<times> string) list \<Rightarrow> int" where
  "dur_of dflt ts = (if ts = [] \<or> 2 ^ 63 \<le> dur_val ts then dflt else int (dur_val ts))"

lemma env_duration_text: "dur_ok ts \<Longrightarrow> env name = dur_text ts \<Longrightarrow> env_duration fm env name dflt = dur_of dflt ts"
proof (cases "ts = []")
  case False
  moreover assume "dur_ok ts" "env name = dur_text ts"
  moreover have "dur_text ts \<noteq> []" using False by (cases ts) (auto simp: dur_text_def)
  ultimately show ?thesis
    using parse_duration_text(1) [of ts fm] by (auto simp: env_duration_def dur_of_def)
qed (simp add: env_duration_def dur_of_def dur_text_def)

lemma inv_of_Nil_iff: "inv_of es = [] \<longleftrightarrow> es = []"
proof -
  have put: "map_put k v m \<noteq> []" for k v and m :: "(string, string) gomap" by (cases m) auto
  have "foldl (\<lambda>m (n, a). map_put n a m) m es \<noteq> []" if "m \<noteq> []" for m :: "(string, string) gomap" and es
    using that put by (induction es arbitrary: m) (simp_all add: split_beta)
  then show ?thesis by (cases es) (auto simp: inv_of_def put split_beta)
qed

text \<open>
  C39: what is written into the environment is what the exporters run with. For an inventory of named
  addresses, flows with their names and durations written as numbers with units, each exporter starts
  with exactly these, the flows sorted; the sum of a duration that does not fit in 63 bits, or an unset
  variable, leaves the default; and an exporter without a node, or without a flow, exits.
\<close>

theorem settings_read:
  assumes "env ''INVENTORY'' = inv_text es" "list_all inv_entry_ok es"
    and "env ''FLOWS'' = join '','' (map flow_text fs)" "list_all flow_ok fs"
    and "env ''INTERVAL'' = dur_text ts" "dur_ok ts" and "env ''WINDOW'' = dur_text ws" "dur_ok ws"
    and "\<And>l. mset (srt l) = mset l"
  shows "topo_main fm env = (if es = [] then None else
      Some \<lparr>ts_inventory = inv_of es, ts_interval = dur_of 15000000000 ts,
        ts_listen = env_text env ''LISTEN'' '':9810''\<rparr>) \<and>
    pt_main srt fm env = (if es = [] \<or> fs = [] then None else
      Some \<lparr>ps_inventory = inv_of es, ps_flows = srt fs, ps_interval = dur_of 15000000000 ts,
        ps_listen = env_text env ''LISTEN'' '':9808''\<rparr>) \<and>
    agg_main fm env = (if es = [] then None else
      Some \<lparr>as_inventory = inv_of es, as_window = dur_of 1500000000 ws, as_interval = dur_of 3000000000 ts,
        as_listen = env_text env ''LISTEN'' '':9341'', as_zipkinURL = env ''TEMPO_ZIPKIN''\<rparr>)"
proof -
  have iv: "parseInventory (env ''INVENTORY'') = inv_of es" "agg_parseInventory (env ''INVENTORY'') = inv_of es"
    using parseInventory_print [OF assms(2)] by (simp_all add: assms(1) inv_text_def inv_of_def agg_parseInventory_eq)
  have fl: "parseFlows srt (env ''FLOWS'') = srt fs"
  proof (cases "fs = []")
    case True
    then show ?thesis by (simp add: assms(3) parseFlows_def split_on_def trim_space_def trim_by_def)
  qed (simp add: assms(3) parseFlows_print [OF assms(4)])
  have "srt fs = [] \<longleftrightarrow> fs = []" using assms(9) [of fs] by (metis mset_zero_iff)
  then show ?thesis
    using env_duration_text [where env = env and name = "''INTERVAL''", OF assms(6,5)]
      env_duration_text [where env = env and name = "''WINDOW''", OF assms(8,7)]
    by (simp add: topo_main_def pt_main_def agg_main_def iv fl inv_of_Nil_iff)
qed

definition demo_env :: env where
  "demo_env v =
     (if v = ''INVENTORY'' then ''pe1=10.0.0.1,pe2=10.0.0.2:57400''
      else if v = ''FLOWS'' then ''web:pe1>10.9.0.1''
      else if v = ''INTERVAL'' then ''1m30s''
      else if v = ''LISTEN'' then '':80'' else '''')"

theorem settings_read_witness:
  "pt_main id (\<lambda>f unit scale. f * unit div scale) demo_env =
    Some \<lparr>ps_inventory = [(''pe1'', ''10.0.0.1''), (''pe2'', ''10.0.0.2:57400'')],
      ps_flows = [\<lparr>fl_name = ''web'', fl_start = ''pe1'', fl_dst = ''10.9.0.1''\<rparr>],
      ps_interval = 90000000000, ps_listen = '':80''\<rparr> \<and>
   map_option as_window (agg_main (\<lambda>f unit scale. f * unit div scale) demo_env) = Some 1500000000"
proof -
  let ?es = "[(''pe1'', ''10.0.0.1''), (''pe2'', ''10.0.0.2:57400'')]"
    and ?fs = "[\<lparr>fl_name = ''web'', fl_start = ''pe1'', fl_dst = ''10.9.0.1''\<rparr>]"
    and ?ts = "[(1, ''m''), (30, ''s'')] :: (nat \<times> string) list"
  have "demo_env ''INVENTORY'' = inv_text ?es" "demo_env ''FLOWS'' = join '','' (map flow_text ?fs)"
      "demo_env ''INTERVAL'' = dur_text ?ts" "demo_env ''WINDOW'' = dur_text []"
    by (simp_all add: demo_env_def inv_text_def flow_text_def dur_text_def dec_eval)
  moreover have "list_all inv_entry_ok ?es" "list_all flow_ok ?fs" "dur_ok ?ts" "dur_ok []"
    by (simp_all add: inv_entry_ok_def flow_ok_def flow_text_def dur_ok_def unit_map_def unit_ns_def is_space_def)
  ultimately have "pt_main id (\<lambda>f unit scale. f * unit div scale) demo_env =
      Some \<lparr>ps_inventory = inv_of ?es, ps_flows = ?fs, ps_interval = dur_of 15000000000 ?ts,
        ps_listen = env_text demo_env ''LISTEN'' '':9808''\<rparr> \<and>
      map_option as_window (agg_main (\<lambda>f unit scale. f * unit div scale) demo_env) = Some 1500000000"
    using settings_read [of demo_env ?es ?fs ?ts "[]" id "\<lambda>f unit scale. f * unit div scale"]
    by (simp add: dur_of_def)
  moreover have "inv_of ?es = ?es" "dur_of 15000000000 ?ts = 90000000000" "env_text demo_env ''LISTEN'' d = '':80''" for d
    by (simp_all add: inv_of_def dur_of_def dur_val_def unit_ns_def unit_map_def env_text_def demo_env_def)
  ultimately show ?thesis by simp
qed

end
