(* ===== verification/Serving.thy ===== *)
theory Serving
  imports Aggregate
begin

text \<open>
  The goroutines of the exporters: the refresh loop of each \<^verbatim>\<open>cmd/*-exporter\<close> and of
  \<^verbatim>\<open>cmd/trace-aggregator\<close>, and the HTTP handlers that serve what the last refresh made, one goroutine
  for each request. They share the page \<^verbatim>\<open>out\<close> under a \<^verbatim>\<open>sync.RWMutex\<close>: a call of \<^verbatim>\<open>Lock\<close> waits for the
  readers that hold the lock, and from the call on no new reader gets it. Every call is a step of its own
  and time passes between any two steps. A handler holds the read lock while it writes the page to its
  client, for as long as the client takes. The topology and the path trace exporter hold the write lock
  for the whole refresh, the aggregator only to store its result.

  The field \<open>sv_log\<close> is not a variable of the program: it is the history of rounds, refreshes and answers.
  What a refresh yields is arbitrary here (\<open>topo_render\<close>, \<open>pt_render\<close> and \<open>build\<close> say what it is).
\<close>

text \<open>A round of the loop begins; the write lock is got, and released with a new page; a handler writes
  a page to its client.\<close>

datatype 'p page_event =
    Round int
  | Started int
  | Finished int 'p
  | Served int 'p

text \<open>The loop sleeps until a time, has begun a round, has called \<^verbatim>\<open>Lock\<close>, holds the lock, or has
  released it.\<close>

datatype loop_pc = Due int | Begun | Asking | Holding | Released

text \<open>The local variable of the loop is \<^verbatim>\<open>start\<close> or \<^verbatim>\<open>dt\<close>. A handler that holds the read lock has
  written nothing yet (\<^const>\<open>None\<close>) or is writing a page.\<close>

record ('p, 'c) serving =
  sv_now :: int
  sv_out :: 'p
  sv_local :: 'c
  sv_pc :: loop_pc
  sv_readers :: "'p option list"
  sv_log :: "'p page_event list"

definition sv_start :: "'p \<Rightarrow> 'c \<Rightarrow> int \<Rightarrow> ('p, 'c) serving" where
  "sv_start p0 c now = \<lparr>sv_now = now, sv_out = p0, sv_local = c, sv_pc = Due now, sv_readers = [], sv_log = []\<rparr>"

definition happens :: "'p page_event \<Rightarrow> ('p, 'c) serving \<Rightarrow> ('p, 'c) serving" where
  "happens e s = s\<lparr>sv_log := sv_log s @ [e]\<rparr>"

text \<open>\<^verbatim>\<open>time.Sleep\<close>: until when; a duration that is not positive returns at once.\<close>

definition sleep_until :: "int \<Rightarrow> int \<Rightarrow> int" where
  "sleep_until now d = (if 0 < d then now + d else now)"


section \<open>The handlers\<close>

inductive serves_page :: "('p, 'c) serving \<Rightarrow> ('p, 'c) serving \<Rightarrow> bool" where
  rlock: "sv_pc s \<notin> {Asking, Holding} \<Longrightarrow> serves_page s (s\<lparr>sv_readers := None # sv_readers s\<rparr>)"
| answer: "sv_readers s = rs @ None # rs' \<Longrightarrow>
    serves_page s (happens (Served (sv_now s) (sv_out s)) (s\<lparr>sv_readers := rs @ Some (sv_out s) # rs'\<rparr>))"
| runlock: "sv_readers s = rs @ Some p # rs' \<Longrightarrow> serves_page s (s\<lparr>sv_readers := rs @ rs'\<rparr>)"

definition pt_metrics :: "(string, int) serving \<Rightarrow> (string, int) serving \<Rightarrow> bool" where
  "pt_metrics s s' \<longleftrightarrow> serves_page s s'"

definition topo_metrics :: "(string, int) serving \<Rightarrow> (string, int) serving \<Rightarrow> bool" where
  "topo_metrics s s' \<longleftrightarrow> serves_page s s'"

definition agg_dtraces :: "(dtrace list, dtrace list) serving \<Rightarrow> (dtrace list, dtrace list) serving \<Rightarrow> bool" where
  "agg_dtraces s s' \<longleftrightarrow> serves_page s s'"


section \<open>The topology and the path trace exporter\<close>

text \<open>When the loop wakes, for a round that began at \<open>t0\<close> and whose lock was released before \<open>t1\<close>.\<close>

definition pt_wake :: "int \<Rightarrow> int \<Rightarrow> int \<Rightarrow> int" where
  "pt_wake interval t0 t1 =
     (let d = t1 - t0 in if d < interval then sleep_until t1 (interval - d) else t1)"

definition topo_wake :: "int \<Rightarrow> int \<Rightarrow> int \<Rightarrow> int" where
  "topo_wake interval t0 t1 = sleep_until t1 interval"

text \<open>The path trace exporter reads the clock when the round begins, before it calls \<^verbatim>\<open>Lock\<close>; the topology
  exporter does not use that time.\<close>

inductive page_step :: "(int \<Rightarrow> int \<Rightarrow> int) \<Rightarrow> ('p, int) serving \<Rightarrow> ('p, int) serving \<Rightarrow> bool" for wake where
  round: "sv_pc s = Due t \<Longrightarrow> t \<le> sv_now s \<Longrightarrow>
    page_step wake s (happens (Round (sv_now s)) (s\<lparr>sv_pc := Begun, sv_local := sv_now s\<rparr>))"
| asks: "sv_pc s = Begun \<Longrightarrow> page_step wake s (s\<lparr>sv_pc := Asking\<rparr>)"
| locked: "sv_pc s = Asking \<Longrightarrow> sv_readers s = [] \<Longrightarrow>
    page_step wake s (happens (Started (sv_now s)) (s\<lparr>sv_pc := Holding\<rparr>))"
| rendered: "sv_pc s = Holding \<Longrightarrow>
    page_step wake s (happens (Finished (sv_now s) p) (s\<lparr>sv_out := p, sv_pc := Released\<rparr>))"
| sleeps: "sv_pc s = Released \<Longrightarrow> page_step wake s (s\<lparr>sv_pc := Due (wake (sv_local s) (sv_now s))\<rparr>)"
| pass: "0 \<le> d \<Longrightarrow> page_step wake s (s\<lparr>sv_now := sv_now s + d\<rparr>)"

definition pt_step :: "int \<Rightarrow> (string, int) serving \<Rightarrow> (string, int) serving \<Rightarrow> bool" where
  "pt_step interval s s' \<longleftrightarrow> page_step (pt_wake interval) s s' \<or> pt_metrics s s'"

definition topo_step :: "int \<Rightarrow> (string, int) serving \<Rightarrow> (string, int) serving \<Rightarrow> bool" where
  "topo_step interval s s' \<longleftrightarrow> page_step (topo_wake interval) s s' \<or> topo_metrics s s'"


section \<open>The aggregator\<close>

text \<open>It builds before it calls \<^verbatim>\<open>Lock\<close>, and exports after \<^verbatim>\<open>Unlock\<close>.\<close>

inductive agg_step :: "int \<Rightarrow> (dtrace list, dtrace list) serving \<Rightarrow> (dtrace list, dtrace list) serving \<Rightarrow> bool"
  for interval where
  round: "sv_pc s = Due t \<Longrightarrow> t \<le> sv_now s \<Longrightarrow>
    agg_step interval s (happens (Round (sv_now s)) (s\<lparr>sv_pc := Begun\<rparr>))"
| built: "sv_pc s = Begun \<Longrightarrow> agg_step interval s (s\<lparr>sv_pc := Asking, sv_local := dt\<rparr>)"
| locked: "sv_pc s = Asking \<Longrightarrow> sv_readers s = [] \<Longrightarrow>
    agg_step interval s (happens (Started (sv_now s)) (s\<lparr>sv_pc := Holding\<rparr>))"
| stored: "sv_pc s = Holding \<Longrightarrow>
    agg_step interval s (happens (Finished (sv_now s) (sv_local s)) (s\<lparr>sv_out := sv_local s, sv_pc := Released\<rparr>))"
| exported: "sv_pc s = Released \<Longrightarrow>
    agg_step interval s (s\<lparr>sv_pc := Due (sleep_until (sv_now s) interval)\<rparr>)"
| handler: "agg_dtraces s s' \<Longrightarrow> agg_step interval s s'"
| pass: "0 \<le> d \<Longrightarrow> agg_step interval s (s\<lparr>sv_now := sv_now s + d\<rparr>)"

inductive_cases page_stepE: "page_step wake s s'"
inductive_cases serves_pageE: "serves_page s s'"
inductive_cases agg_stepE: "agg_step interval s s'"


section \<open>What is served\<close>

text \<open>A history is one of a register that holds the page of the last refresh: each round makes one
  refresh, and nothing is answered during a refresh, while the lock is held. The result is the state of
  the register at the end.\<close>

datatype round_phase = Idle | Asked | Busy

fun register :: "round_phase \<times> 'p \<Rightarrow> 'p page_event \<Rightarrow> (round_phase \<times> 'p) option" where
  "register (ph, p) (Round t) = (if ph = Idle then Some (Asked, p) else None)"
| "register (ph, p) (Started t) = (if ph = Asked then Some (Busy, p) else None)"
| "register (ph, p) (Finished t q) = (if ph = Busy then Some (Idle, q) else None)"
| "register (ph, p) (Served t q) = (if ph \<noteq> Busy \<and> q = p then Some (ph, p) else None)"

definition register_run :: "'p \<Rightarrow> 'p page_event list \<Rightarrow> (round_phase \<times> 'p) option" where
  "register_run p0 h = foldl (\<lambda>r e. Option.bind r (\<lambda>s. register s e)) (Some (Idle, p0)) h"

fun phase_of :: "loop_pc \<Rightarrow> round_phase" where
  "phase_of (Due t) = Idle"
| "phase_of Begun = Asked"
| "phase_of Asking = Asked"
| "phase_of Holding = Busy"
| "phase_of Released = Idle"

fun event_time :: "'p page_event \<Rightarrow> int" where
  "event_time (Round t) = t"
| "event_time (Started t) = t"
| "event_time (Finished t p) = t"
| "event_time (Served t p) = t"

lemma register_run_snoc [simp]:
  "register_run p0 [] = Some (Idle, p0)"
  "register_run p0 (h @ [e]) = Option.bind (register_run p0 h) (\<lambda>s. register s e)"
  by (simp_all add: register_run_def)

lemma happens_fields [simp]:
  "sv_now (happens e s) = sv_now s" "sv_out (happens e s) = sv_out s" "sv_local (happens e s) = sv_local s"
  "sv_pc (happens e s) = sv_pc s" "sv_readers (happens e s) = sv_readers s" "sv_log (happens e s) = sv_log s @ [e]"
  by (simp_all add: happens_def)

text \<open>The register, in the order of time; and the lock: no handler holds it together with the loop, and
  the page that a handler is writing is the current one.\<close>

definition serves_last :: "'p \<Rightarrow> ('p, 'c) serving \<Rightarrow> bool" where
  "serves_last p0 s \<longleftrightarrow>
     register_run p0 (sv_log s) = Some (phase_of (sv_pc s), sv_out s) \<and>
     sorted (map event_time (sv_log s)) \<and> (\<forall>e \<in> set (sv_log s). event_time e \<le> sv_now s) \<and>
     (sv_pc s = Holding \<longrightarrow> sv_readers s = []) \<and> (\<forall>p. Some p \<in> set (sv_readers s) \<longrightarrow> p = sv_out s)"

lemma serves_last_pass: "serves_last p0 s \<Longrightarrow> 0 \<le> d \<Longrightarrow> serves_last p0 (s\<lparr>sv_now := sv_now s + d\<rparr>)"
  by (fastforce simp: serves_last_def)

lemma phase_of_Busy [simp]: "phase_of c = Busy \<longleftrightarrow> c = Holding"
  by (cases c) auto

lemma serves_last_handler: "serves_page s s' \<Longrightarrow> serves_last p0 s \<Longrightarrow> serves_last p0 s'"
  by (erule serves_pageE) (auto simp: serves_last_def sorted_append)

lemma serves_last_page: "page_step wake s s' \<Longrightarrow> serves_last p0 s \<Longrightarrow> serves_last p0 s'"
proof (induction rule: page_step.induct)
  case (pass d s)
  then show ?case by (simp add: serves_last_pass)
qed (auto simp: serves_last_def sorted_append)

lemma serves_last_agg: "agg_step interval s s' \<Longrightarrow> serves_last p0 s \<Longrightarrow> serves_last p0 s'"
proof (induction rule: agg_step.induct)
  case (pass d s)
  then show ?case by (simp add: serves_last_pass)
next
  case (handler s s')
  then show ?case by (simp add: agg_dtraces_def serves_last_handler)
qed (auto simp: serves_last_def sorted_append)

text \<open>How far apart: the rounds of the path trace exporter begin at least the interval apart, whatever a
  round takes; the topology exporter and the aggregator rest for the interval after each refresh.\<close>

definition rounds_apart :: "int \<Rightarrow> 'p page_event list \<Rightarrow> bool" where
  "rounds_apart iv h \<longleftrightarrow>
     sorted_wrt (\<lambda>e e'. \<forall>t t'. e = Round t \<and> e' = Round t' \<longrightarrow> t + max 0 iv \<le> t') h"

definition rests :: "int \<Rightarrow> 'p page_event list \<Rightarrow> bool" where
  "rests iv h \<longleftrightarrow>
     sorted_wrt (\<lambda>e e'. \<forall>t p t'. e = Finished t p \<and> e' = Round t' \<longrightarrow> t + max 0 iv \<le> t') h"

lemma rounds_apart_snoc [simp]:
  "rounds_apart iv []"
  "rounds_apart iv (h @ [e]) \<longleftrightarrow> rounds_apart iv h \<and> (\<forall>t t'. Round t \<in> set h \<and> e = Round t' \<longrightarrow> t + max 0 iv \<le> t')"
  by (auto simp: rounds_apart_def sorted_wrt_append)

lemma rests_snoc [simp]:
  "rests iv []"
  "rests iv (h @ [e]) \<longleftrightarrow> rests iv h \<and> (\<forall>t p t'. Finished t p \<in> set h \<and> e = Round t' \<longrightarrow> t + max 0 iv \<le> t')"
  by (auto simp: rests_def sorted_wrt_append)

definition apart_ok :: "int \<Rightarrow> ('p, int) serving \<Rightarrow> bool" where
  "apart_ok iv s \<longleftrightarrow> rounds_apart iv (sv_log s) \<and>
     (case sv_pc s of
        Due t \<Rightarrow> \<forall>t0. Round t0 \<in> set (sv_log s) \<longrightarrow> t0 + max 0 iv \<le> t
      | _ \<Rightarrow> sv_local s \<le> sv_now s \<and> (\<forall>t0. Round t0 \<in> set (sv_log s) \<longrightarrow> t0 \<le> sv_local s))"

definition rest_ok :: "int \<Rightarrow> ('p, 'c) serving \<Rightarrow> bool" where
  "rest_ok iv s \<longleftrightarrow> rests iv (sv_log s) \<and>
     (\<forall>t0 p. Finished t0 p \<in> set (sv_log s) \<longrightarrow> t0 \<le> sv_now s) \<and>
     (\<forall>t t0 p. sv_pc s = Due t \<and> Finished t0 p \<in> set (sv_log s) \<longrightarrow> t0 + max 0 iv \<le> t)"

lemma pt_wake_after: "t0 \<le> t1 \<Longrightarrow> t0 + max 0 iv \<le> pt_wake iv t0 t1"
  by (auto simp: pt_wake_def sleep_until_def Let_def)

lemma sleep_after: "t0 \<le> t1 \<Longrightarrow> t0 + max 0 iv \<le> sleep_until t1 iv"
  by (auto simp: sleep_until_def)

lemma apart_page: "page_step (pt_wake iv) s s' \<Longrightarrow> apart_ok iv s \<Longrightarrow> apart_ok iv s'"
proof (induction rule: page_step.induct)
  case (sleeps s)
  then show ?case using pt_wake_after [of "sv_local s" "sv_now s" iv] by (fastforce simp: apart_ok_def)
qed (fastforce simp: apart_ok_def split: loop_pc.splits)+

lemma apart_handler: "serves_page s s' \<Longrightarrow> apart_ok iv s \<Longrightarrow> apart_ok iv s'"
  by (erule serves_pageE) (auto simp: apart_ok_def split: loop_pc.splits)

lemma rest_handler: "serves_page s s' \<Longrightarrow> rest_ok iv s \<Longrightarrow> rest_ok iv s'"
  by (erule serves_pageE) (auto simp: rest_ok_def)

lemma rest_page: "page_step (topo_wake iv) s s' \<Longrightarrow> rest_ok iv s \<Longrightarrow> rest_ok iv s'"
proof (induction rule: page_step.induct)
  case (sleeps s)
  then show ?case using sleep_after [of _ "sv_now s" iv] by (auto simp: rest_ok_def topo_wake_def)
qed (fastforce simp: rest_ok_def)+

lemma rest_agg: "agg_step iv s s' \<Longrightarrow> rest_ok iv s \<Longrightarrow> rest_ok iv s'"
proof (induction rule: agg_step.induct)
  case (exported s)
  then show ?case using sleep_after [of _ "sv_now s" iv] by (auto simp: rest_ok_def)
next
  case (handler s s')
  then show ?case by (simp add: agg_dtraces_def rest_handler)
qed (fastforce simp: rest_ok_def)+

lemma sv_start_ok: "serves_last p0 (sv_start p0 c now)" "rest_ok iv (sv_start p0 c now)"
  "apart_ok iv (sv_start p0 t now)"
  by (simp_all add: serves_last_def rest_ok_def apart_ok_def sv_start_def)

lemma run_keeps: "rtranclp r s s' \<Longrightarrow> (\<And>s s'. r s s' \<Longrightarrow> P s \<Longrightarrow> P s') \<Longrightarrow> P s \<Longrightarrow> P s'"
  by (induction rule: rtranclp_induct) auto

lemma pt_run_ok:
  assumes "rtranclp (pt_step iv) (sv_start p0 c now) s"
  shows "serves_last p0 s \<and> apart_ok iv s"
  by (rule run_keeps [OF assms])
    (auto simp: pt_step_def pt_metrics_def sv_start_ok intro: serves_last_page serves_last_handler apart_page apart_handler)

lemma topo_run_ok:
  assumes "rtranclp (topo_step iv) (sv_start p0 c now) s"
  shows "serves_last p0 s \<and> rest_ok iv s"
  by (rule run_keeps [OF assms])
    (auto simp: topo_step_def topo_metrics_def sv_start_ok intro: serves_last_page serves_last_handler rest_page rest_handler)

lemma agg_run_ok:
  assumes "rtranclp (agg_step iv) (sv_start p0 c now) s"
  shows "serves_last p0 s \<and> rest_ok iv s"
  by (rule run_keeps [OF assms]) (auto simp: sv_start_ok intro: serves_last_agg rest_agg)
text \<open>
  C38: the exporters serve the page of their last refresh, whatever the timing of refreshes, requests and
  clients. Every history of rounds, refreshes and answers is one of a register that is empty at first,
  that a round writes once and requests read; no request is answered while the loop holds the lock, and
  what a handler is still writing to its client is the current page. Rounds never overlap: those of the
  path trace exporter begin at least the interval apart (the refresh itself may be late, as it waits for
  the handlers that hold the lock), and the topology exporter and the aggregator begin a round no
  earlier than the interval after the refresh before it.
\<close>

theorem exporters_serve_last_page:
  assumes "rtranclp (pt_step iv1) (sv_start '''' c1 now1) s"
    and "rtranclp (topo_step iv2) (sv_start '''' c2 now2) u"
    and "rtranclp (agg_step iv3) (sv_start [] c3 now3) a"
  shows "(serves_last '''' s \<and> rounds_apart iv1 (sv_log s)) \<and>
    (serves_last '''' u \<and> rests iv2 (sv_log u)) \<and>
    (serves_last [] a \<and> rests iv3 (sv_log a))"
  using pt_run_ok [OF assms(1)] topo_run_ok [OF assms(2)] agg_run_ok [OF assms(3)]
  by (simp add: apart_ok_def rest_ok_def)

text \<open>A run: the first refresh waits ten seconds for a client, so the second one starts five seconds later,
  though the interval is fifteen.\<close>

abbreviation (input) demo_log :: "string page_event list" where
  "demo_log \<equiv> [Round 0, Served 0 '''', Started 10, Finished 10 ''page'', Round 15, Started 15]"

lemma pt_steps:
  "sv_pc s = Due t \<Longrightarrow> t \<le> sv_now s \<Longrightarrow> s' = happens (Round (sv_now s)) (s\<lparr>sv_pc := Begun, sv_local := sv_now s\<rparr>) \<Longrightarrow>
    pt_step iv s s'"
  "sv_pc s = Begun \<Longrightarrow> s' = s\<lparr>sv_pc := Asking\<rparr> \<Longrightarrow> pt_step iv s s'"
  "sv_pc s = Asking \<Longrightarrow> sv_readers s = [] \<Longrightarrow> s' = happens (Started (sv_now s)) (s\<lparr>sv_pc := Holding\<rparr>) \<Longrightarrow> pt_step iv s s'"
  "sv_pc s = Holding \<Longrightarrow> s' = happens (Finished (sv_now s) p) (s\<lparr>sv_out := p, sv_pc := Released\<rparr>) \<Longrightarrow> pt_step iv s s'"
  "sv_pc s = Released \<Longrightarrow> s' = s\<lparr>sv_pc := Due (pt_wake iv (sv_local s) (sv_now s))\<rparr> \<Longrightarrow> pt_step iv s s'"
  "0 \<le> d \<Longrightarrow> s' = s\<lparr>sv_now := sv_now s + d\<rparr> \<Longrightarrow> pt_step iv s s'"
  "sv_pc s \<notin> {Asking, Holding} \<Longrightarrow> s' = s\<lparr>sv_readers := None # sv_readers s\<rparr> \<Longrightarrow> pt_step iv s s'"
  "sv_readers s = [] @ None # rs \<Longrightarrow> s' = happens (Served (sv_now s) (sv_out s)) (s\<lparr>sv_readers := [] @ Some (sv_out s) # rs\<rparr>) \<Longrightarrow>
    pt_step iv s s'"
  "sv_readers s = [] @ Some q # rs \<Longrightarrow> s' = s\<lparr>sv_readers := [] @ rs\<rparr> \<Longrightarrow> pt_step iv s s'"
  unfolding pt_step_def pt_metrics_def by (blast intro: page_step.intros serves_page.intros)+

lemma demo_page_run:
  "\<exists>s. rtranclp (pt_step 15) (sv_start '''' 0 0) s \<and> sv_log s = demo_log \<and> sv_pc s = Holding \<and> sv_out s = ''page''"
proof -
  let ?S = "\<lambda>now out pc rs h. \<lparr>sv_now = now :: int, sv_out = out, sv_local = 0 :: int, sv_pc = pc, sv_readers = rs, sv_log = h\<rparr>"
  let ?h = "take 2 demo_log" and ?p = "''page''"
  let ?s1 = "?S 0 '''' Begun [None] [Round 0]" and ?s2 = "?S 10 '''' Asking [] ?h"
  let ?s3 = "?S 15 ?p (Due 15) [] (take 4 demo_log)"
  let ?s4 = "?s3\<lparr>sv_local := 15, sv_pc := Begun, sv_log := take 5 demo_log\<rparr>"
  note [trans] = rtranclp.rtrancl_into_rtrancl
  have "rtranclp (pt_step 15) (sv_start '''' 0 0) (?S 0 '''' (Due 0) [] [])" by (simp add: sv_start_def)
  also have "pt_step 15 \<dots> (?S 0 '''' (Due 0) [None] [])" by (rule pt_steps(7)) simp_all
  also have "pt_step 15 \<dots> ?s1" by (rule pt_steps(1) [of _ 0]) (simp_all add: happens_def)
  also have "pt_step 15 \<dots> (?S 0 '''' Begun [Some ''''] ?h)" by (rule pt_steps(8)) (simp_all add: happens_def)
  also have "pt_step 15 \<dots> (?S 0 '''' Asking [Some ''''] ?h)" by (rule pt_steps(2)) simp_all
  also have "pt_step 15 \<dots> (?S 10 '''' Asking [Some ''''] ?h)" by (rule pt_steps(6) [of 10]) simp_all
  also have "pt_step 15 \<dots> ?s2" by (rule pt_steps(9)) simp_all
  also have "pt_step 15 \<dots> (?S 10 '''' Holding [] (take 3 demo_log))" by (rule pt_steps(3)) (simp_all add: happens_def)
  also have "pt_step 15 \<dots> (?S 10 ?p Released [] (take 4 demo_log))" by (rule pt_steps(4) [of _ _ ?p]) (simp_all add: happens_def)
  also have "pt_step 15 \<dots> (?S 10 ?p (Due 15) [] (take 4 demo_log))"
    by (rule pt_steps(5)) (simp_all add: pt_wake_def sleep_until_def)
  also have "pt_step 15 \<dots> ?s3" by (rule pt_steps(6) [of 5]) simp_all
  also have "pt_step 15 \<dots> ?s4" by (rule pt_steps(1) [of _ 15]) (simp_all add: happens_def)
  also have "pt_step 15 \<dots> (?s4\<lparr>sv_pc := Asking\<rparr>)" by (rule pt_steps(2)) simp_all
  also have "pt_step 15 \<dots> (?s4\<lparr>sv_pc := Holding, sv_log := demo_log\<rparr>)" by (rule pt_steps(3)) (simp_all add: happens_def)
  finally show ?thesis by (intro exI conjI) (assumption, simp_all)
qed

theorem exporters_serve_last_page_witness:
  "\<exists>s. rtranclp (pt_step 15) (sv_start '''' 0 0) s \<and> sv_log s = demo_log \<and>
    register_run '''' demo_log = Some (Busy, ''page'') \<and> rounds_apart 15 demo_log"
proof -
  obtain s where s: "rtranclp (pt_step 15) (sv_start '''' 0 0) s" "sv_log s = demo_log" "sv_pc s = Holding" "sv_out s = ''page''"
    using demo_page_run by blast
  have "rtranclp (topo_step 5) (sv_start '''' 0 0) (sv_start '''' 0 0)" "rtranclp (agg_step 3) (sv_start [] [] 0) (sv_start [] [] 0)"
    by simp_all
  from exporters_serve_last_page [OF s(1) this] s show ?thesis by (auto simp: serves_last_def)
qed

text \<open>
  A client that does not read blocks the exporter: while the loop waits for the handlers that hold the
  lock, no other request gets it and the page stays, for as long as one of them is still writing.
\<close>

theorem stalled_client_blocks:
  assumes "rtranclp (\<lambda>s s'. pt_step iv s s' \<and> sv_readers s' \<noteq> []) s s'" "sv_pc s = Asking"
  shows "sv_pc s' = Asking \<and> sv_out s' = sv_out s \<and> length (sv_readers s') \<le> length (sv_readers s)"
  using assms(1)
proof (induction rule: rtranclp_induct)
  case (step s1 s2)
  then show ?case
    by (auto simp: pt_step_def pt_metrics_def elim!: page_stepE serves_pageE)
qed (simp add: assms(2))

end
