(* ===== verification/GnmiServer.thy ===== *)
theory GnmiServer
  imports Exporter
begin

text \<open>
  \<^verbatim>\<open>internal/gnmiserver/server.go\<close>: Get and Capabilities over the cache, and the stream wrapper that
  gives Subscribe requests the default target. Third-party code is a parameter: \<open>completePath\<close> is
  \<^verbatim>\<open>path.CompletePath\<close>, \<open>query\<close> the values a query of the cache visits, in order, and its error, where
  a value that is not a notification is \<^const>\<open>None\<close>. Of a Subscribe request the model has the prefix;
  the rest is the type variable \<open>'s\<close>, and a request that is no subscription is \<^const>\<open>None\<close>.
\<close>

section \<open>Subscribe\<close>

type_synonym 's sub_request = "(gpath option \<times> 's) option"

definition empty_path :: gpath where
  "empty_path = \<lparr>gp_target = '''', gp_origin = '''', gp_elem = []\<rparr>"

definition with_target :: "string \<Rightarrow> gpath option \<Rightarrow> gpath" where
  "with_target target pre =
     (let p = (case pre of None \<Rightarrow> empty_path | Some p \<Rightarrow> p)
      in if gp_target p = '''' then p\<lparr>gp_target := target\<rparr> else p)"

text \<open>\<^verbatim>\<open>Recv\<close> of the wrapper, on what the stream delivers: a request and an error.\<close>

definition ts_Recv :: "string \<Rightarrow> 's sub_request \<times> string option \<Rightarrow> 's sub_request \<times> string option" where
  "ts_Recv target r =
     (case r of
        (req, Some err) \<Rightarrow> (req, Some err)
      | (req, None) \<Rightarrow>
          (case req of
             None \<Rightarrow> (None, None)
           | Some (pre, sub) \<Rightarrow> (Some (Some (with_target target pre), sub), None)))"


text \<open>\<^verbatim>\<open>Subscribe\<close>: the embedded server, a parameter, reads the wrapped stream, here what its calls of
  \<^verbatim>\<open>Recv\<close> deliver.\<close>

definition server_Subscribe ::
    "(('s sub_request \<times> string option) list \<Rightarrow> 'r) \<Rightarrow> 'c cache \<Rightarrow> ('s sub_request \<times> string option) list \<Rightarrow> 'r" where
  "server_Subscribe subscribe c stream = subscribe (map (ts_Recv (c_target c)) stream)"


section \<open>Get\<close>

datatype code = InvalidArgument | NotFound

record get_request =
  gr_prefix :: "gpath option"
  gr_path :: "gpath list"

type_synonym get_result = "(code \<times> string) + notification list"

fun get_paths ::
    "(gpath option \<Rightarrow> gpath \<Rightarrow> string + string list)
      \<Rightarrow> (string \<Rightarrow> string list \<Rightarrow> notification option list \<times> string option)
      \<Rightarrow> gpath option \<Rightarrow> string \<Rightarrow> gpath list \<Rightarrow> notification list \<Rightarrow> get_result" where
  "get_paths completePath query pre target [] notifs = Inr notifs"
| "get_paths completePath query pre target (p # ps) notifs =
     (case completePath pre p of
        Inl err \<Rightarrow> Inl (InvalidArgument, err)
      | Inr q \<Rightarrow>
          (case query target q of
             (vals, Some err) \<Rightarrow> Inl (NotFound, err)
           | (vals, None) \<Rightarrow>
               get_paths completePath query pre target ps (notifs @ List.map_filter id vals)))"

definition server_Get ::
    "(gpath option \<Rightarrow> gpath \<Rightarrow> string + string list)
      \<Rightarrow> (string \<Rightarrow> string list \<Rightarrow> notification option list \<times> string option)
      \<Rightarrow> string \<Rightarrow> get_request \<Rightarrow> get_result" where
  "server_Get completePath query cacheTarget req =
     (let target = (case gr_prefix req of None \<Rightarrow> '''' | Some p \<Rightarrow> gp_target p);
          target = (if target = '''' then cacheTarget else target);
          paths = (if gr_path req = [] then [empty_path] else gr_path req)
      in get_paths completePath query (gr_prefix req) target paths [])"


section \<open>Capabilities and construction\<close>

record model_data =
  md_name :: string
  md_org :: string
  md_version :: string

record capabilities =
  cp_version :: string
  cp_models :: "model_data list"
  cp_encodings :: "string list"

definition server_Capabilities :: capabilities where
  "server_Capabilities =
     \<lparr>cp_version = ''0.10.0'',
      cp_models =
        [\<lparr>md_name = ''openconfig-interfaces'', md_org = ''OpenConfig'', md_version = ''''\<rparr>,
         \<lparr>md_name = ''openconfig-network-instance'', md_org = ''OpenConfig'', md_version = ''''\<rparr>,
         \<lparr>md_name = ''openconfig-lldp'', md_org = ''OpenConfig'', md_version = ''''\<rparr>,
         \<lparr>md_name = ''frr'', md_org = ''frr-visible'', md_version = ''0.1.0''\<rparr>,
         \<lparr>md_name = ''host'', md_org = ''frr-visible'', md_version = ''0.1.0''\<rparr>],
      cp_encodings = [''JSON_IETF'', ''PROTO'']\<rparr>"

text \<open>\<^verbatim>\<open>New\<close>: \<open>newServer\<close> is \<^verbatim>\<open>subscribe.NewServer\<close>, \<open>setClient\<close> hooks the subscribers to the cache and
  \<open>register\<close> makes the gRPC server.\<close>

definition server_New ::
    "('c \<Rightarrow> string + 's) \<Rightarrow> ('s \<Rightarrow> 'c \<Rightarrow> 'c) \<Rightarrow> ('s \<Rightarrow> 'c cache \<Rightarrow> 'g) \<Rightarrow> 'c cache \<Rightarrow> string + ('g \<times> 'c cache)" where
  "server_New newServer setClient register c =
     (case newServer (c_tree c) of
        Inl err \<Rightarrow> Inl err
      | Inr sub \<Rightarrow>
          (let c = c\<lparr>c_tree := setClient sub (c_tree c)\<rparr> in Inr (register sub c, c)))"


section \<open>What the server answers\<close>

text \<open>The failure of a path, if it has one.\<close>

definition path_error ::
    "(gpath option \<Rightarrow> gpath \<Rightarrow> string + string list)
      \<Rightarrow> (string \<Rightarrow> string list \<Rightarrow> notification option list \<times> string option)
      \<Rightarrow> gpath option \<Rightarrow> string \<Rightarrow> gpath \<Rightarrow> (code \<times> string) option" where
  "path_error completePath query pre target p =
     (case completePath pre p of
        Inl err \<Rightarrow> Some (InvalidArgument, err)
      | Inr q \<Rightarrow> map_option (Pair NotFound) (snd (query target q)))"

definition path_notifs ::
    "(gpath option \<Rightarrow> gpath \<Rightarrow> string + string list)
      \<Rightarrow> (string \<Rightarrow> string list \<Rightarrow> notification option list \<times> string option)
      \<Rightarrow> gpath option \<Rightarrow> string \<Rightarrow> gpath \<Rightarrow> notification list" where
  "path_notifs completePath query pre target p =
     (case completePath pre p of Inl err \<Rightarrow> [] | Inr q \<Rightarrow> List.map_filter id (fst (query target q)))"

lemma get_paths_eq:
  "get_paths cp qu pre tg ps ns =
    (case List.map_filter (path_error cp qu pre tg) ps of
       [] \<Rightarrow> Inr (ns @ concat (map (path_notifs cp qu pre tg) ps))
     | e # _ \<Rightarrow> Inl e)"
proof (induction ps arbitrary: ns)
  case (Cons p ps)
  show ?case
  proof (cases "cp pre p")
    case (Inl err)
    then show ?thesis by (simp add: path_error_def)
  next
    case (Inr q)
    obtain vals err where q: "qu tg q = (vals, err)" by force
    show ?thesis
    proof (cases err)
      case None
      then have "path_error cp qu pre tg p = None" "path_notifs cp qu pre tg p = List.map_filter id vals"
        using Inr q by (simp_all add: path_error_def path_notifs_def)
      then show ?thesis using Inr q None by (simp add: Cons.IH split: list.splits)
    next
      case (Some e)
      then show ?thesis using Inr q by (simp add: path_error_def)
    qed
  qed
qed (simp add: List.map_filter_def)

text \<open>
  C40: Get answers all or nothing. With the target of the prefix, or the cache's own when there is none,
  and the whole tree when no path is asked for, the answer is the notifications of the paths in their
  order when every path can be answered, and else the error of the first path that cannot: an invalid
  argument when it does not complete, not found when the cache refuses the query.
\<close>

theorem get_answers:
  "server_Get completePath query cacheTarget req =
    (let target = gp_target (with_target cacheTarget (gr_prefix req));
         paths = (if gr_path req = [] then [empty_path] else gr_path req)
     in case List.map_filter (path_error completePath query (gr_prefix req) target) paths of
          [] \<Rightarrow> Inr (concat (map (path_notifs completePath query (gr_prefix req) target) paths))
        | e # _ \<Rightarrow> Inl e)"
proof -
  have t: "(if (case gr_prefix req of None \<Rightarrow> '''' | Some p \<Rightarrow> gp_target p) = '''' then cacheTarget
      else (case gr_prefix req of None \<Rightarrow> '''' | Some p \<Rightarrow> gp_target p)) =
    gp_target (with_target cacheTarget (gr_prefix req))"
    by (simp add: with_target_def empty_path_def split: option.splits)
  show ?thesis unfolding server_Get_def Let_def t get_paths_eq by (simp split: list.splits)
qed

text \<open>
  Every subscription that reaches the subscribe server has a target, so a client that sends none is
  not rejected: the wrapper fills in the cache's target and nothing else, keeps a target the client
  chose, passes errors and other requests through, and does nothing the second time.
\<close>

theorem subscribe_target_default:
  assumes "cacheTarget \<noteq> ''''"
  shows "(case ts_Recv cacheTarget (Some (pre, sub), None) of
      (Some (Some p, sub'), None) \<Rightarrow>
        gp_target p \<noteq> '''' \<and> sub' = sub \<and>
        (case pre of None \<Rightarrow> p = empty_path\<lparr>gp_target := cacheTarget\<rparr>
         | Some p0 \<Rightarrow> p = p0\<lparr>gp_target := gp_target p\<rparr> \<and> (gp_target p0 \<noteq> '''' \<longrightarrow> p = p0))
    | _ \<Rightarrow> False) \<and>
    ts_Recv cacheTarget (req, Some err) = (req, Some err) \<and>
    ts_Recv cacheTarget (None, None) = (None, None) \<and>
    ts_Recv cacheTarget (ts_Recv cacheTarget r) = ts_Recv cacheTarget r"
proof -
  have idem: "with_target cacheTarget (Some (with_target cacheTarget p)) = with_target cacheTarget p" for p
    using assms by (simp add: with_target_def Let_def)
  obtain q e where r: "r = (q, e)" by force
  have "ts_Recv cacheTarget (ts_Recv cacheTarget r) = ts_Recv cacheTarget r"
    unfolding r by (cases e; cases q) (auto simp: ts_Recv_def idem)
  moreover have "case ts_Recv cacheTarget (Some (pre, sub), None) of
      (Some (Some p, sub'), None) \<Rightarrow>
        gp_target p \<noteq> '''' \<and> sub' = sub \<and>
        (case pre of None \<Rightarrow> p = empty_path\<lparr>gp_target := cacheTarget\<rparr>
         | Some p0 \<Rightarrow> p = p0\<lparr>gp_target := gp_target p\<rparr> \<and> (gp_target p0 \<noteq> '''' \<longrightarrow> p = p0))
    | _ \<Rightarrow> False"
    using assms by (cases pre) (auto simp: ts_Recv_def with_target_def Let_def empty_path_def)
  ultimately show ?thesis by (simp add: ts_Recv_def)
qed

theorem subscribe_target_default_witness:
  "ts_Recv ''frr'' (ts_Recv ''frr'' (Some (None, ''STREAM''), None)) =
    ts_Recv ''frr'' (Some (None, ''STREAM''), None)"
  using subscribe_target_default
    [where cacheTarget = "''frr''" and r = "(Some (None, ''STREAM''), None)" and pre = None and sub = "''STREAM''"
      and req = None and err = "''EOF''", OF list.distinct(2)]
  by (elim conjE)

end
