(* ===== verification/Subtest.thy ===== *)
theory Subtest
  imports Gnmi
begin

text \<open>
  \<^verbatim>\<open>cmd/subtest/main.go\<close>: the path and value texts of the test client, and the lines it prints for
  the responses of a subscription. The server, with the gRPC library and the deadline of the client, is
  a parameter: the responses it gives to an address and a request, or \<^const>\<open>None\<close> when dialling,
  subscribing or sending fails. The keys of an element are printed in the order of iteration of their
  map; \<open>fmtv\<close> is the verb \<^verbatim>\<open>%v\<close> on a value of another type.
\<close>

definition st_parsePath :: "string \<Rightarrow> elems" where
  "st_parsePath s =
     foldl (\<lambda>es part. if part = '''' then es else es @ [el part]) [] (split_on CHR ''/'' s)"

definition prefixElems :: "gpath option \<Rightarrow> elems" where
  "prefixElems p = (case p of None \<Rightarrow> [] | Some p \<Rightarrow> gp_elem p)"

definition elem_text :: "path_elem \<Rightarrow> string" where
  "elem_text e = ''/'' @ pe_name e @ concat (map (\<lambda>(k, v). ''['' @ k @ ''='' @ v @ '']'') (pe_key e))"

definition pathStr :: "gpath option \<Rightarrow> elems option \<Rightarrow> string" where
  "pathStr pre p =
     (case pre of
        None \<Rightarrow> ''''
      | Some pr \<Rightarrow> if gp_origin pr \<noteq> '''' then gp_origin pr @ '':'' else '''') @
     concat (map elem_text (prefixElems pre @ (case p of None \<Rightarrow> [] | Some es \<Rightarrow> es)))"

definition valStr :: "(tval \<Rightarrow> string) \<Rightarrow> tval option \<Rightarrow> string" where
  "valStr fmtv v =
     (case v of
        None \<Rightarrow> ''<nil>''
      | Some (StringVal s) \<Rightarrow> s
      | Some (UintVal u) \<Rightarrow> dec (unat u)
      | Some (IntVal i) \<Rightarrow> itoa i
      | Some w \<Rightarrow> fmtv w)"

text \<open>The responses of a subscription and the loop that prints them.\<close>

datatype response =
    Update "gpath option" "(elems option \<times> tval option) list" "elems option list"
  | SyncResponse
  | OtherResponse

fun print_loop :: "(tval \<Rightarrow> string) \<Rightarrow> bool \<Rightarrow> response list \<Rightarrow> nat \<Rightarrow> nat \<Rightarrow> string" where
  "print_loop fmtv once [] updates deletes = ''''"
| "print_loop fmtv once (Update pre ups dels # rs) updates deletes =
     concat (map (\<lambda>(p, v). ''UPDATE '' @ pathStr pre p @ '' = '' @ valStr fmtv v @ [CHR 0x0A]) ups) @
     concat (map (\<lambda>d. ''DELETE '' @ pathStr pre d @ [CHR 0x0A]) dels) @
     print_loop fmtv once rs (updates + length ups) (deletes + length dels)"
| "print_loop fmtv once (SyncResponse # rs) updates deletes =
     ''--- sync_response (updates='' @ dec updates @ '' deletes='' @ dec deletes @ '') ---'' @ [CHR 0x0A] @
     (if once then '''' else print_loop fmtv once rs updates deletes)"
| "print_loop fmtv once (OtherResponse # rs) updates deletes = print_loop fmtv once rs updates deletes"

text \<open>The flags, with their defaults, the request made of them, and the program.\<close>

record st_flags =
  sf_addr :: string
  sf_target :: string
  sf_origin :: string
  sf_path :: string
  sf_once :: bool

definition st_defaults :: st_flags where
  "st_defaults = \<lparr>sf_addr = ''127.0.0.1:9339'', sf_target = ''frr'', sf_origin = ''openconfig'',
     sf_path = ''network-instances'', sf_once = False\<rparr>"

datatype sub_mode = STREAM | ONCE

record sub_list =
  sl_prefix :: gpath
  sl_mode :: sub_mode
  sl_paths :: "elems list"

definition st_request :: "st_flags \<Rightarrow> sub_list" where
  "st_request fl =
     (let mode = (if sf_once fl then ONCE else STREAM)
      in \<lparr>sl_prefix = \<lparr>gp_target = sf_target fl, gp_origin = sf_origin fl, gp_elem = []\<rparr>, sl_mode = mode,
          sl_paths = [st_parsePath (sf_path fl)]\<rparr>)"

definition st_main :: "(tval \<Rightarrow> string) \<Rightarrow> (string \<Rightarrow> sub_list \<Rightarrow> response list option) \<Rightarrow> st_flags \<Rightarrow> string" where
  "st_main fmtv server fl =
     (case server (sf_addr fl) (st_request fl) of
        None \<Rightarrow> ''''
      | Some rs \<Rightarrow> print_loop fmtv (sf_once fl) rs 0 0)"

text \<open>The texts of paths without keys are read back.\<close>

lemma st_parsePath_eq: "st_parsePath s = map el (filter (\<lambda>w. w \<noteq> []) (split_on CHR ''/'' s))"
proof -
  have "foldl (\<lambda>es part. if part = '''' then es else es @ [el part]) es ws = es @ map el (filter (\<lambda>w. w \<noteq> []) ws)" for es ws
    by (induction ws arbitrary: es) simp_all
  then show ?thesis by (simp add: st_parsePath_def)
qed

lemma pathStr_names: "pathStr None (Some (map el ws)) = concat (map ((#) CHR ''/'') ws)"
  by (induction ws) (simp_all add: pathStr_def prefixElems_def elem_text_def)

lemma parse_path_text:
  assumes "\<forall>w \<in> set ws. w \<noteq> [] \<and> CHR ''/'' \<notin> set w"
  shows "st_parsePath (pathStr None (Some (map el ws))) = map el ws"
proof -
  have "split_on CHR ''/'' (v @ concat (map ((#) CHR ''/'') ws)) = v # ws" if "CHR ''/'' \<notin> set v" for v
    using assms that by (induction ws arbitrary: v) (simp_all add: split_on_no_sep split_on_append)
  from this [of "[]"] have "split_on CHR ''/'' (pathStr None (Some (map el ws))) = [] # ws"
    by (simp add: pathStr_names)
  moreover have "filter (\<lambda>w. w \<noteq> []) ws = ws" using assms by (simp add: filter_id_conv)
  ultimately show ?thesis by (simp add: st_parsePath_eq)
qed

end
