(* ===== verification/Spec2Isabelle.thy ===== *)
theory Spec2Isabelle
  imports Bmp_Props Bmp_Store Bmp_Session Fpm_Stream Correlate_Props Netlink_Props Ospf_Props Lldp_Props Network
    Topology_Run Aggregate_Props Collector_Props Collector_Links Collector_Fdb Collector_Bgp Collector_Sessions
    Startup Flap End_To_End Config_Props Serving GnmiServer
    Subtest
begin

text \<open>
  A verification development for the for-visibility collector and its exporters.

  The program. On every router runs \<^verbatim>\<open>cmd/frr-visible\<close>: ingesters turn what FRR and the kernel push
  (BMP, FPM, netlink, OSPF syslog, lldpd, the control group) into calls of \<^verbatim>\<open>Cache.Update\<close>
  (\<^verbatim>\<open>internal/state\<close>), which a gNMI server (\<^verbatim>\<open>internal/gnmiserver\<close>) publishes, and into events for the
  correlator (\<^verbatim>\<open>internal/correlate\<close>), which folds bursts of events into convergence traces. On the
  management side three exporters read the routers: \<^verbatim>\<open>cmd/topology-exporter\<close> draws the layers of the
  network, \<^verbatim>\<open>cmd/pathtrace-exporter\<close> follows flows hop by hop, \<^verbatim>\<open>cmd/trace-aggregator\<close> stitches the
  traces of the nodes together; \<^verbatim>\<open>cmd/subtest\<close> is a test client.

  How the model reads. A handler is a function from its input and the state of its component, a
  record with the fields of the struct, to the new state and the list of its effects (type \<open>eff\<close> of
  \<open>Gnmi\<close>: calls of \<^verbatim>\<open>Cache.Update\<close> and of \<^verbatim>\<open>Correlator.Emit\<close>) in the order the code makes them. A Go
  panic is \<^const>\<open>None\<close> (type \<open>option\<close>); errors the code handles are the branches it takes. Machine
  integers are words; lengths and indices are natural numbers. A Go map is a function when it is
  never iterated and an association list in iteration order (type \<open>gomap\<close> of \<open>Prelude\<close>) when it is;
  a loop over a map in an unknown order has the order as an argument. What subscribers see of the
  effects is the leaf store of \<open>Gnmi\<close>: an update sets a leaf, a delete clears a subtree.

  The theories, by the source they model.

  \<^item> \<open>Prelude\<close>, \<open>GoStrings\<close>, \<open>GoNet\<close>, \<open>Json\<close>: Go maps, slices with their panics, byte order, the
    functions of \<^verbatim>\<open>strings\<close>, \<^verbatim>\<open>strconv\<close> and \<^verbatim>\<open>net\<close> the code calls, decoded JSON values.
  \<^item> \<open>Gnmi\<close>: \<^verbatim>\<open>internal/state/cache.go\<close>, gNMI paths, values, effects and the leaf store (locale
    \<open>leaf_cache\<close>). \<open>Framing\<close>: length-prefixed streams (the loops of BMP and FPM). \<open>Reconcile\<close>: keyed
    rows under insertion, deletion and listings (the tables of OSPF, LLDP, BMP and netlink).
  \<^item> \<open>Vrf\<close>: \<^verbatim>\<open>internal/ingest/vrf.go\<close>.
  \<^item> \<open>Bmp_Wire\<close>, \<open>Bmp\<close>: \<^verbatim>\<open>internal/ingest/bmp.go\<close>, its parsers and its handlers; \<open>Bmp_Codec\<close>: an encoder
    of the messages; \<open>Bmp_Props\<close>, \<open>Bmp_Store\<close>, \<open>Bmp_Session\<close>: panics, routes and sessions.
  \<^item> \<open>Fpm\<close>: \<^verbatim>\<open>internal/ingest/fpm.go\<close>; \<open>Fpm_Codec\<close>, \<open>Fpm_Props\<close>, \<open>Fpm_Stream\<close>: encoder, one message, a
    stream of messages against a specification of the forwarding table.
  \<^item> \<open>Netlink\<close>, \<open>Netlink_Props\<close>: \<^verbatim>\<open>internal/ingest/netlink.go\<close>; \<open>Ospf\<close>, \<open>Ospf_Props\<close>: \<^verbatim>\<open>ospf.go\<close>;
    \<open>Lldp\<close>, \<open>Lldp_Props\<close>: \<^verbatim>\<open>lldp.go\<close>; \<open>Cgroup\<close>: \<^verbatim>\<open>cgroup.go\<close>.
  \<^item> \<open>Correlate\<close>, \<open>Correlate_Props\<close>: \<^verbatim>\<open>internal/correlate/correlate.go\<close>, the channel, the run loop as a
    step relation and the ring of traces; bursts as the abstract specification.
  \<^item> \<open>Ownership\<close>: which part of the cache and which events are whose, and that every handler keeps to it;
    \<open>Collector\<close>, \<open>Collector_Props\<close>: \<^verbatim>\<open>cmd/frr-visible/main.go\<close>, all goroutines over one cache and one
    correlator as a step relation; \<open>Collector_Conn\<close>: the ingesters that serve connections (locale
    \<open>conn_server\<close>); \<open>Collector_Fib\<close>, \<open>Collector_Bgp\<close>, \<open>Collector_Sessions\<close>: zebra's
    routes, bgpd's VPN routes and sessions in the cache of the running collector; \<open>Collector_Race\<close>: a
    kernel table that two goroutines write (locale \<open>raced_table\<close>), \<open>Collector_Links\<close>, \<open>Collector_Fdb\<close>: the
    interfaces and the bridge entries; \<open>Startup\<close>: the \<^verbatim>\<open>Run\<close> methods, which goroutines run when a part of
    the set-up fails; \<open>Collector_Leaves\<close>: rules that all its leaves obey (locale \<open>leaf_rule\<close>).
  \<^item> \<open>GnmiServer\<close>: \<^verbatim>\<open>internal/gnmiserver/server.go\<close>. \<open>Subtest\<close>: \<^verbatim>\<open>cmd/subtest/main.go\<close>.
  \<^item> \<open>Exporter\<close>: what the exporters share, the inventory and the query of a node. \<open>Pathtrace\<close>,
    \<open>Pathtrace_Props\<close>: \<^verbatim>\<open>cmd/pathtrace-exporter/main.go\<close>. \<open>Topology\<close>, \<open>Topology_Props\<close>:
    \<^verbatim>\<open>cmd/topology-exporter/main.go\<close>. \<open>Aggregate\<close>, \<open>Aggregate_Props\<close>: \<^verbatim>\<open>cmd/trace-aggregator/main.go\<close>.
    \<open>Config\<close>, \<open>Config_Props\<close>: the settings their \<^verbatim>\<open>main\<close> functions read from the environment, with
    \<^verbatim>\<open>time.ParseDuration\<close>. \<open>Serving\<close>: their refresh loops and HTTP handlers as step relations over one
    read-write lock.
  \<^item> \<open>Network\<close>, \<open>Topology_Adj\<close>: the exporters composed with the ingesters through the caches: what a
    trace follows and what the topology shows, in terms of the tables the ingesters wrote. \<open>End_To_End\<close>,
    \<open>Topology_Run\<close> and \<open>Flap\<close> compose them with running collectors: from zebra's stream to the path trace,
    from the neighbours' listings and sessions to the topology, from the link messages at both ends of a
    link to one distributed trace.

  What the lemmas show. For the parsers: round trips with an encoder, and exactly which messages
  panic. For the collector: the ingesters do not interfere, whatever the schedule, so that what holds of
  one of them holds of the whole (shown for the routes, the VPN routes, the BGP sessions, the
  interfaces, the bridge entries, the OSPF rows and the traces, with the race of two goroutines that can
  leave a removed interface), and an ingester that could not start leaves its part empty. For the network: a path trace
  reaches its destination exactly when forwarding over the collectors' tables does, and a flap of a
  link becomes one distributed trace with its name. For the tables in the cache: refinement of a map
  under insertion, deletion and listings, and the runs after which a row is left behind. For the step
  relations (correlator, OSPF trigger, LLDP's two goroutines): invariants of the reachable states, that
  the OSPF ingester comes to rest after a change, and an interleaving that breaks an invariant. For the
  exporters: well-formed traces and graphs, traces that arrive exactly when forwarding does, pages
  that do not depend on the order of Go's maps, exports made once, settings read back from the
  environment, and handlers that serve the page of the last refresh under a lock that clients can hold.

  Bounds and fuel. Loops over bytes end because every round consumes input (measures on the length).
  \<open>resolveNH\<close> has the code's depth bound of 4, \<open>trace_loop\<close> the code's 24 rounds; no other fuel
  is used.

  Parameters. The kernel's answers through the netlink library, the output of \<^verbatim>\<open>vtysh\<close> and \<^verbatim>\<open>lldpcli\<close>
  (decoded JSON), the files of the control group, clock readings, the third-party gNMI cache, path
  completion and subscribe server, the gRPC queries of the exporters (\<open>ask\<close>: the updates a node
  answers to a path), \<^verbatim>\<open>sort.Slice\<close> (locale \<open>slice_sort\<close>: a sorted permutation, not stable), map
  orders, SHA-256, \<^verbatim>\<open>Time.Format\<close>, HTTP with its JSON, the floating point product in \<^verbatim>\<open>ParseDuration\<close>.

  Not modelled. The parsing of command line flags (their values are arguments), the sockets, pipes and
  subscriptions themselves (of each only whether it is set up, of a connection its bytes), timers and
  tickers as such (their ticks are steps), and logging. A handler of the collector reads and writes the
  maps of its ingester in one step, and one call of \<^verbatim>\<open>Cache.Update\<close> writes its leaves at once. \<^verbatim>\<open>strings.EqualFold\<close> and the verb \<^verbatim>\<open>%q\<close> are
  modelled on ASCII text. What the map leaves out of the sources is imports, comments and declarations.
\<close>

end
